(* ===== verification/Prelude.thy ===== *)
theory Prelude
  imports Main "HOL-Library.Word"
begin

text \<open>
  What every component of the development shares: the outcome type of fallible code, the
  collections of simplification rules, the small lemmas on lists the components use, and the
  interface of a component that is driven by events and keeps an invariant.
\<close>

named_theorems cstr \<comment> \<open>C string and character functions, for evaluation\<close>
named_theorems inv_intros \<comment> \<open>preservation of a component's invariant by one operation\<close>

section \<open>Outcomes\<close>

text \<open>
  A function that throws returns an \<open>Inl\<close>; the error type is a parameter, each component
  names its own exceptions. \<open>bind_r\<close> propagates an exception the way the C++ stack unwinding
  does: nothing after the throwing statement runs.
\<close>

definition bind_r :: "'e + 'a \<Rightarrow> ('a \<Rightarrow> 'e + 'b) \<Rightarrow> 'e + 'b" where
  "bind_r m f = (case m of Inl e \<Rightarrow> Inl e | Inr a \<Rightarrow> f a)"

lemma bind_r_simps [simp]: "bind_r (Inl e) f = Inl e" "bind_r (Inr a) f = f a"
  by (simp_all add: bind_r_def)

lemma bind_r_Inr: "bind_r m f = Inr b \<longleftrightarrow> (\<exists>a. m = Inr a \<and> f a = Inr b)"
  by (cases m) auto

text \<open>
  A statement that changes a state and may throw keeps the changes it made before the
  exception.
\<close>

definition bind_s :: "('s \<Rightarrow> ('e + 'a) \<times> 's) \<Rightarrow> ('a \<Rightarrow> 's \<Rightarrow> ('e + 'b) \<times> 's) \<Rightarrow> 's \<Rightarrow> ('e + 'b) \<times> 's" where
  "bind_s m f s = (case m s of (Inl e, s) \<Rightarrow> (Inl e, s) | (Inr a, s) \<Rightarrow> f a s)"

lemma bind_s_Inr: "bind_s m f s = (Inr b, s') \<longleftrightarrow> (\<exists>a s1. m s = (Inr a, s1) \<and> f a s1 = (Inr b, s'))"
  by (auto simp: bind_s_def split: prod.splits sum.splits)

lemma bind_s_Inl:
  "bind_s m f s = (Inl e, s') \<longleftrightarrow> m s = (Inl e, s') \<or> (\<exists>a s1. m s = (Inr a, s1) \<and> f a s1 = (Inl e, s'))"
  by (auto simp: bind_s_def split: prod.splits sum.splits)

text \<open>
  Triples for such statements: from any state that satisfies \<open>P\<close>, a normal end satisfies \<open>Q\<close> and
  an exception \<open>E\<close>.
\<close>

definition triple :: "('s \<Rightarrow> bool) \<Rightarrow> ('s \<Rightarrow> ('e + 'a) \<times> 's) \<Rightarrow> ('a \<Rightarrow> 's \<Rightarrow> bool) \<Rightarrow> ('e \<Rightarrow> 's \<Rightarrow> bool) \<Rightarrow> bool" where
  "triple P m Q E = (\<forall>s s'. P s \<longrightarrow> (\<forall>a. m s = (Inr a, s') \<longrightarrow> Q a s') \<and> (\<forall>e. m s = (Inl e, s') \<longrightarrow> E e s'))"

lemma tripleI:
  assumes "\<And>s a s'. P s \<Longrightarrow> m s = (Inr a, s') \<Longrightarrow> Q a s'" and "\<And>s e s'. P s \<Longrightarrow> m s = (Inl e, s') \<Longrightarrow> E e s'"
  shows "triple P m Q E"
  using assms by (auto simp: triple_def)

lemma triple_Inr: "triple P m Q E \<Longrightarrow> P s \<Longrightarrow> m s = (Inr a, s') \<Longrightarrow> Q a s'"
  unfolding triple_def by blast

lemma triple_Inl: "triple P m Q E \<Longrightarrow> P s \<Longrightarrow> m s = (Inl e, s') \<Longrightarrow> E e s'"
  unfolding triple_def by blast

lemma triple_bind:
  assumes m: "triple P m R E" and f: "\<And>a. triple (R a) (f a) Q E"
  shows "triple P (bind_s m f) Q E"
proof (rule tripleI)
  show "Q b s'" if "P s" "bind_s m f s = (Inr b, s')" for s b s'
    using that triple_Inr [OF m] triple_Inr [OF f] unfolding bind_s_Inr by blast
  show "E e s'" if "P s" "bind_s m f s = (Inl e, s')" for s e s'
    using that triple_Inl [OF m] triple_Inr [OF m] triple_Inl [OF f] unfolding bind_s_Inl by blast
qed

lemma triple_weaken:
  assumes "triple P m R E" and "\<And>s. P' s \<Longrightarrow> P s" and "\<And>a s. R a s \<Longrightarrow> Q a s" and "\<And>e s. E e s \<Longrightarrow> E' e s"
  shows "triple P' m Q E'"
  using assms unfolding triple_def by blast

text \<open>\<open>EXIT_SUCCESS\<close> and \<open>EXIT_FAILURE\<close> of the C library.\<close>

abbreviation EXIT_SUCCESS :: int where "EXIT_SUCCESS \<equiv> 0"
abbreviation EXIT_FAILURE :: int where "EXIT_FAILURE \<equiv> 1"

section \<open>Lists\<close>

lemma takeWhile_not_append [simp]:
  "c \<notin> set a \<Longrightarrow> takeWhile (\<lambda>x. x \<noteq> c) (a @ c # b) = a"
  by (induction a) auto

lemma dropWhile_not_append [simp]:
  "c \<notin> set a \<Longrightarrow> dropWhile (\<lambda>x. x \<noteq> c) (a @ c # b) = c # b"
  by (induction a) auto

lemma takeWhile_not_all [simp]: "c \<notin> set a \<Longrightarrow> takeWhile (\<lambda>x. x \<noteq> c) a = a"
  by (induction a) auto

lemma dropWhile_not_all [simp]: "c \<notin> set a \<Longrightarrow> dropWhile (\<lambda>x. x \<noteq> c) a = []"
  by (induction a) auto

lemma filter_id: "(\<And>x. x \<in> set xs \<Longrightarrow> P x) \<Longrightarrow> filter P xs = xs"
  by (induction xs) auto

lemma length_dropWhile_less: "dropWhile P xs \<noteq> [] \<Longrightarrow> length (tl (dropWhile P xs)) < length xs"
  by (induction xs) (auto split: if_splits)

section \<open>Event-driven components\<close>

text \<open>
  The interface of a component whose state changes by one step per event and whose invariant
  every step keeps. Its client lemma is that a whole run keeps the invariant.
\<close>

locale event_machine =
  fixes step :: "'s \<Rightarrow> 'e \<Rightarrow> 's" and inv :: "'s \<Rightarrow> bool"
  assumes step_inv: "inv s \<Longrightarrow> inv (step s e)"
begin

lemma run_inv: "inv s \<Longrightarrow> inv (foldl step s es)"
  by (induction es arbitrary: s) (auto intro: step_inv)

lemma prefix_inv: "inv s \<Longrightarrow> inv (foldl step s (take n es))"
  by (rule run_inv)

end

section \<open>Transition systems\<close>

text \<open>
  Components whose threads interleave: a step relation labelled with events, the runs from a
  state, and the interface of an invariant that may speak of the events so far.
\<close>

inductive run :: "('s \<Rightarrow> 'e \<Rightarrow> 's \<Rightarrow> bool) \<Rightarrow> 's \<Rightarrow> 'e list \<Rightarrow> 's \<Rightarrow> bool" for step where
  run_nil: "run step s [] s"
| run_snoc: "run step s es t \<Longrightarrow> step t e u \<Longrightarrow> run step s (es @ [e]) u"

lemma run_append: "run step t fs u \<Longrightarrow> run step s es t \<Longrightarrow> run step s (es @ fs) u"
proof (induction rule: run.induct)
  case (run_snoc s' fs t e u)
  then show ?case using run.run_snoc [of step s "es @ fs" t e u] by simp
qed simp

lemma run_one: "step s e t \<Longrightarrow> run step s [e] t"
  using run_snoc [OF run_nil, of step s e t] by simp

lemma run_cons: "step s e t \<Longrightarrow> run step t es u \<Longrightarrow> run step s (e # es) u"
  using run_append [OF _ run_one] by fastforce

locale transition_system =
  fixes step :: "'s \<Rightarrow> 'e \<Rightarrow> 's \<Rightarrow> bool" and start :: "'s \<Rightarrow> bool" and inv :: "'e list \<Rightarrow> 's \<Rightarrow> bool"
  assumes start_inv: "start s \<Longrightarrow> inv [] s"
    and step_inv: "inv es s \<Longrightarrow> step s e t \<Longrightarrow> inv (es @ [e]) t"
begin

lemma run_inv: "run step s es t \<Longrightarrow> start s \<Longrightarrow> inv es t"
  by (induction rule: run.induct) (auto intro: start_inv step_inv)

end

end
