(* ===== verification/CString.thy ===== *)
theory CString
  imports Prelude
begin

text \<open>
  The part of the C library on strings and characters that the program uses, in the C locale:
  a C string is a list of bytes without its terminator. Pointers into a string are
  represented by the suffix they point to.
\<close>

section \<open>Characters\<close>

abbreviation NUL :: char where "NUL \<equiv> CHR 0x00"
abbreviation NL :: char where "NL \<equiv> CHR 0x0A"
abbreviation CR :: char where "CR \<equiv> CHR 0x0D"
abbreviation DQUOTE :: char where "DQUOTE \<equiv> CHR 0x22"

definition isspace :: "char \<Rightarrow> bool" where
  "isspace c = (let n = (of_char c :: nat) in n = 32 \<or> (9 \<le> n \<and> n \<le> 13))"

definition isdigit :: "char \<Rightarrow> bool" where
  "isdigit c = (let n = (of_char c :: nat) in 48 \<le> n \<and> n \<le> 57)"

definition tolower :: "char \<Rightarrow> char" where
  "tolower c = (let n = (of_char c :: nat) in if 65 \<le> n \<and> n \<le> 90 then char_of (n + 32) else c)"

definition toupper :: "char \<Rightarrow> char" where
  "toupper c = (let n = (of_char c :: nat) in if 97 \<le> n \<and> n \<le> 122 then char_of (n - 32) else c)"

lemmas [cstr] = isspace_def isdigit_def tolower_def toupper_def

lemma of_char_less_256: "(of_char c :: nat) < 256"
  by (metis of_char_mod_256 mod_less_divisor zero_less_numeral)

lemma of_char_tolower:
  "(of_char (tolower c) :: nat) =
     (if 65 \<le> (of_char c :: nat) \<and> (of_char c :: nat) \<le> 90 then of_char c + 32 else of_char c)"
  by (auto simp: tolower_def Let_def)

lemma tolower_idem [simp]: "tolower (tolower c) = tolower c"
proof -
  have "(of_char (tolower (tolower c)) :: nat) = of_char (tolower c)"
    by (simp add: of_char_tolower)
  then show ?thesis by (simp only: of_char_eq_iff)
qed

lemma isspace_tolower [simp]: "isspace (tolower c) = isspace c"
  by (auto simp: isspace_def of_char_tolower Let_def)

section \<open>Strings\<close>

definition cstr :: "string \<Rightarrow> string" where
  \<comment> \<open>the C string at the start of a byte buffer\<close>
  "cstr s = takeWhile (\<lambda>c. c \<noteq> NUL) s"

definition is_cstr :: "string \<Rightarrow> bool" where
  "is_cstr s = (NUL \<notin> set s)"

lemma cstr_id [simp]: "is_cstr s \<Longrightarrow> cstr s = s"
  by (simp add: cstr_def is_cstr_def)

lemma is_cstr_cstr [simp]: "is_cstr (cstr s)"
  by (auto simp: cstr_def is_cstr_def dest: set_takeWhileD)

lemma cstr_append_NUL [simp]: "is_cstr s \<Longrightarrow> cstr (s @ NUL # t) = s"
  by (simp add: cstr_def is_cstr_def)

definition strcaseeq :: "string \<Rightarrow> string \<Rightarrow> bool" where
  \<comment> \<open>\<open>strcasecmp(s, t) == 0\<close>\<close>
  "strcaseeq s t = (map tolower s = map tolower t)"

definition strncaseeq :: "string \<Rightarrow> string \<Rightarrow> nat \<Rightarrow> bool" where
  \<comment> \<open>\<open>strncasecmp(s, t, n) == 0\<close>\<close>
  "strncaseeq s t n = strcaseeq (take n s) (take n t)"

definition strneq :: "string \<Rightarrow> string \<Rightarrow> nat \<Rightarrow> bool" where
  \<comment> \<open>\<open>strncmp(s, t, n) == 0\<close>\<close>
  "strneq s t n = (take n s = take n t)"

lemmas [cstr] = strcaseeq_def strncaseeq_def strneq_def

lemma strcaseeq_refl [simp]: "strcaseeq s s"
  by (simp add: strcaseeq_def)

lemma strcaseeq_sym: "strcaseeq s t \<Longrightarrow> strcaseeq t s"
  by (simp add: strcaseeq_def)

lemma strcaseeq_trans: "strcaseeq s t \<Longrightarrow> strcaseeq t u \<Longrightarrow> strcaseeq s u"
  by (simp add: strcaseeq_def)

lemma strcaseeq_length: "strcaseeq s t \<Longrightarrow> length s = length t"
  unfolding strcaseeq_def by (metis length_map)

lemma strcaseeq_lower [simp]: "strcaseeq (map tolower s) t = strcaseeq s t"
  "strcaseeq s (map tolower t) = strcaseeq s t"
  by (simp_all add: strcaseeq_def comp_def)

definition strrsplit :: "char \<Rightarrow> string \<Rightarrow> (string \<times> string) option" where
  \<comment> \<open>\<open>strrchr\<close>: what stands before and after the last occurrence of a character\<close>
  "strrsplit c s =
     (if c \<in> set s
      then Some (rev (tl (dropWhile (\<lambda>x. x \<noteq> c) (rev s))), rev (takeWhile (\<lambda>x. x \<noteq> c) (rev s)))
      else None)"

lemma strrsplit_append [simp]: "c \<notin> set b \<Longrightarrow> strrsplit c (a @ c # b) = Some (a, b)"
  by (simp add: strrsplit_def)

lemma strrsplit_Some: "strrsplit c s = Some (a, b) \<longleftrightarrow> s = a @ c # b \<and> c \<notin> set b"
proof
  assume l: "strrsplit c s = Some (a, b)"
  then have "c \<in> set s" by (auto simp: strrsplit_def split: if_splits)
  then obtain x y where "s = x @ c # y" "c \<notin> set y" by (meson split_list_last)
  with l show "s = a @ c # b \<and> c \<notin> set b" by simp
qed simp

lemma strrsplit_None: "strrsplit c s = None \<longleftrightarrow> c \<notin> set s"
  by (simp add: strrsplit_def)

definition basename :: "string \<Rightarrow> string" where
  \<comment> \<open>the GNU \<open>basename\<close> of \<open><cstring>\<close>: what follows the last slash\<close>
  "basename path = (case strrsplit CHR ''/'' path of None \<Rightarrow> path | Some (d, b) \<Rightarrow> b)"

fun strstr :: "string \<Rightarrow> string \<Rightarrow> nat option" where
  \<comment> \<open>the offset of the first occurrence of the second string in the first\<close>
  "strstr [] n = (if n = [] then Some 0 else None)"
| "strstr (c # s) n = (if take (length n) (c # s) = n then Some 0 else map_option Suc (strstr s n))"

lemma strstr_Some: "strstr s n = Some k \<Longrightarrow> \<exists>t. s = take k s @ n @ t \<and> k + length n \<le> length s"
proof (induction s arbitrary: k)
  case Nil
  then show ?case by (auto split: if_splits)
next
  case (Cons c s)
  show ?case
  proof (cases "take (length n) (c # s) = n")
    case True
    with Cons.prems have "k = 0" by simp
    moreover have "c # s = n @ drop (length n) (c # s)"
      using True by (metis append_take_drop_id)
    moreover have "length n \<le> length (c # s)"
      using True by (metis length_take min.cobounded1)
    ultimately show ?thesis by auto
  next
    case False
    with Cons.prems obtain j where "k = Suc j" "strstr s n = Some j" by (auto simp del: take_Suc_Cons)
    with Cons.IH show ?thesis by fastforce
  qed
qed

lemma strstr_None: "strstr s n = None \<Longrightarrow> s \<noteq> a @ n @ b"
proof (induction s arbitrary: a)
  case Nil
  then show ?case by (auto split: if_splits)
next
  case (Cons c s)
  then have ne: "take (length n) (c # s) \<noteq> n" and none: "strstr s n = None"
    by (auto simp del: take_Suc_Cons split: if_splits)
  show ?case
  proof (cases a)
    case Nil
    with ne show ?thesis by (metis append_Nil append_eq_conv_conj)
  next
    case (Cons x xs)
    with Cons.IH [OF none, of xs] show ?thesis by simp
  qed
qed

section \<open>Tokens\<close>

definition strtok_r :: "string \<Rightarrow> string \<Rightarrow> (string \<times> string) option" where
  \<comment> \<open>the next token and what the save pointer is left at, \<open>None\<close> for the null pointer\<close>
  "strtok_r ds s =
     (let s' = dropWhile (\<lambda>c. c \<in> set ds) s
      in if s' = [] then None
         else Some (takeWhile (\<lambda>c. c \<notin> set ds) s', drop 1 (dropWhile (\<lambda>c. c \<notin> set ds) s')))"

lemma strtok_r_less: "strtok_r ds s = Some (t, r) \<Longrightarrow> length r < length s"
proof -
  assume a: "strtok_r ds s = Some (t, r)"
  define s' where "s' = dropWhile (\<lambda>c. c \<in> set ds) s"
  from a have ne: "s' \<noteq> []" and r: "r = drop 1 (dropWhile (\<lambda>c. c \<notin> set ds) s')"
    by (auto simp: strtok_r_def s'_def Let_def split: if_splits)
  have "hd s' \<notin> set ds" using ne hd_dropWhile unfolding s'_def by blast
  then have "length (dropWhile (\<lambda>c. c \<notin> set ds) s') < length s'"
    using ne by (cases s') (auto simp: le_imp_less_Suc length_dropWhile_le)
  moreover have "length s' \<le> length s" by (simp add: s'_def length_dropWhile_le)
  ultimately show ?thesis using r ne by (cases s') auto
qed

function strtoks :: "string \<Rightarrow> string \<Rightarrow> string list" where
  \<comment> \<open>all the tokens, as a loop over \<open>strtok_r\<close> collects them\<close>
  "strtoks ds s = (case strtok_r ds s of None \<Rightarrow> [] | Some (t, r) \<Rightarrow> t # strtoks ds r)"
  by pat_completeness auto
termination
  by (relation "measure (\<lambda>(ds, s). length s)") (auto dest: strtok_r_less)

declare strtoks.simps [simp del]

lemma strtok_r_Nil [simp]: "strtok_r ds [] = None"
  by (simp add: strtok_r_def)

lemma strtok_r_token:
  "t \<noteq> [] \<Longrightarrow> (\<forall>c\<in>set t. c \<notin> set ds) \<Longrightarrow> d \<in> set ds \<Longrightarrow> strtok_r ds (t @ d # r) = Some (t, r)"
  by (cases t) (auto simp: strtok_r_def Let_def)

lemma strtok_r_last:
  "t \<noteq> [] \<Longrightarrow> (\<forall>c\<in>set t. c \<notin> set ds) \<Longrightarrow> strtok_r ds t = Some (t, [])"
  by (cases t) (auto simp: strtok_r_def Let_def, metis dropWhile_eq_Nil_conv list.size(3) zero_le)

lemma strtok_r_skip: "d \<in> set ds \<Longrightarrow> strtok_r ds (d # s) = strtok_r ds s"
  by (simp add: strtok_r_def)

lemma strtok_r_None: "strtok_r ds s = None \<longleftrightarrow> (\<forall>c\<in>set s. c \<in> set ds)"
  by (auto simp: strtok_r_def Let_def dropWhile_eq_Nil_conv)

lemma strtok_r_tok:
  "strtok_r ds s = Some (t, r) \<Longrightarrow> t \<noteq> [] \<and> (\<forall>c\<in>set t. c \<notin> set ds)"
proof -
  assume a: "strtok_r ds s = Some (t, r)"
  define s' where "s' = dropWhile (\<lambda>c. c \<in> set ds) s"
  from a have ne: "s' \<noteq> []" and t: "t = takeWhile (\<lambda>c. c \<notin> set ds) s'"
    by (auto simp: strtok_r_def s'_def Let_def split: if_splits)
  have "hd s' \<notin> set ds" using ne hd_dropWhile unfolding s'_def by blast
  with ne t show ?thesis by (cases s') (auto dest: set_takeWhileD)
qed

section \<open>Decimal numerals\<close>

definition digit_char :: "nat \<Rightarrow> char" where
  "digit_char d = char_of (48 + d)"

definition digit_val :: "char \<Rightarrow> nat" where
  "digit_val c = of_char c - 48"

fun show_nat :: "nat \<Rightarrow> string" where
  \<comment> \<open>\<open>%u\<close>, \<open>%lu\<close> and \<open>operator<<\<close> of an unsigned integer\<close>
  "show_nat n = (if n < 10 then [digit_char n] else show_nat (n div 10) @ [digit_char (n mod 10)])"

declare show_nat.simps [simp del]

definition show_int :: "int \<Rightarrow> string" where
  \<comment> \<open>\<open>%d\<close> and \<open>operator<<\<close> of a signed integer\<close>
  "show_int i = (if i < 0 then CHR ''-'' # show_nat (nat (- i)) else show_nat (nat i))"

definition read_nat :: "string \<Rightarrow> nat" where
  "read_nat s = foldl (\<lambda>n c. 10 * n + digit_val c) 0 s"

lemmas [cstr] = digit_char_def digit_val_def

lemma digit_val_char [simp]: "d < 10 \<Longrightarrow> digit_val (digit_char d) = d"
  by (simp add: digit_val_def digit_char_def)

lemma isdigit_char [simp]: "d < 10 \<Longrightarrow> isdigit (digit_char d)"
  by (simp add: isdigit_def digit_char_def)

lemma show_nat_digits: "\<forall>c\<in>set (show_nat n). isdigit c"
proof (induction n rule: show_nat.induct)
  case (1 n)
  show ?case
    by (subst show_nat.simps) (use 1 in auto)
qed

lemma show_nat_ne [simp]: "show_nat n \<noteq> []"
  by (subst show_nat.simps) simp

lemma read_show_nat [simp]: "read_nat (show_nat n) = n"
proof (induction n rule: show_nat.induct)
  case (1 n)
  show ?case
    by (subst show_nat.simps) (use 1 in \<open>auto simp: read_nat_def\<close>)
qed

lemma isdigit_cases: "isdigit c \<Longrightarrow> \<not> isspace c \<and> c \<noteq> CHR ''-'' \<and> c \<noteq> CHR ''+'' \<and> c \<noteq> NL \<and> c \<noteq> CR
    \<and> c \<noteq> CHR '' '' \<and> c \<noteq> NUL"
  by (auto simp: isdigit_def isspace_def Let_def)

lemma show_nat_set: "c \<in> set (show_nat n) \<Longrightarrow> isdigit c"
  using show_nat_digits by blast

lemma show_int_nonspace: "c \<in> set (show_int i) \<Longrightarrow> \<not> isspace c \<and> c \<noteq> NL \<and> c \<noteq> CR \<and> c \<noteq> NUL"
  by (auto simp: show_int_def isspace_def Let_def split: if_splits
      dest!: show_nat_set isdigit_cases)

definition strtol10 :: "string \<Rightarrow> int" where
  \<comment> \<open>\<open>strtol\<close> in base 10, which saturates\<close>
  "strtol10 s =
     (let t = dropWhile isspace s;
          (neg, u) = (case t of [] \<Rightarrow> (False, t)
                      | c # v \<Rightarrow> if c = CHR ''-'' then (True, v) else if c = CHR ''+'' then (False, v) else (False, t));
          v = int (read_nat (takeWhile isdigit u))
      in max (- (2 ^ 63)) (min (2 ^ 63 - 1) (if neg then - v else v)))"

lemma takeWhile_digits [simp]: "takeWhile isdigit (show_nat n) = show_nat n"
  using show_nat_digits by (simp add: takeWhile_eq_all_conv)

lemma strtol10_show_int:
  assumes "- (2 ^ 63) \<le> i" and "i < 2 ^ 63"
  shows "strtol10 (show_int i) = i"
proof -
  obtain c v where d: "show_nat (nat i) = c # v" using show_nat_ne by (meson neq_Nil_conv)
  then have "isdigit c" using show_nat_set [of c "nat i"] by simp
  then have c: "\<not> isspace c" "c \<noteq> CHR ''-''" "c \<noteq> CHR ''+''" using isdigit_cases by auto
  have m: "\<not> isspace (CHR ''-'')" by (simp add: isspace_def Let_def)
  have r: "int (read_nat (takeWhile isdigit (c # v))) = int (nat i)" unfolding d [symmetric] by simp
  show ?thesis
  proof (cases "i < 0")
    case True
    with m assms show ?thesis by (simp add: strtol10_def show_int_def Let_def)
  next
    case False
    with d c r assms show ?thesis by (simp add: strtol10_def show_int_def Let_def)
  qed
qed

lemma show_int_ne [simp]: "show_int i \<noteq> []"
  by (simp add: show_int_def)

end
