(* ===== verification/StrTools.thy ===== *)
theory StrTools
  imports CString
begin

text \<open>
  The string utilities: \<open>str-split.cpp\<close>, \<open>path-concat.cpp\<close>, \<open>format2str.cpp\<close>,
  \<open>mq-queue.cpp\<close> and the names and random numbers of \<open>fifo-pipe.cpp\<close>.
\<close>

section \<open>str-split.cpp\<close>

text \<open>
  \<open>split_loop\<close> is the loop over the characters, with the locals \<open>buf\<close>, \<open>v\<close>, \<open>added\<close>
  and \<open>at_limit\<close> of the source.
\<close>

fun split_loop :: "char \<Rightarrow> int \<Rightarrow> string \<Rightarrow> string \<Rightarrow> string list \<Rightarrow> int \<Rightarrow> bool \<Rightarrow> string list" where
  "split_loop c limit [] buf v added at_limit = (if buf \<noteq> [] then v @ [buf] else v)"
| "split_loop c limit (n # s) buf v added at_limit =
     (if n \<noteq> c then split_loop c limit s (buf @ [n]) v added at_limit
      else if buf \<noteq> [] then
        (let added' = (if limit \<noteq> 0 then added + 1 else added);
             hit = (limit \<noteq> 0 \<and> added' \<ge> limit);
             at_limit' = (at_limit \<or> hit);
             buf' = (if hit then buf @ [n] else buf)
         in if \<not> at_limit' then split_loop c limit s [] (v @ [buf']) added' at_limit'
            else split_loop c limit s buf' v added' at_limit')
      else split_loop c limit s buf v added at_limit)"

definition str_split :: "string \<Rightarrow> char \<Rightarrow> int \<Rightarrow> string list" where
  "str_split s c limit = split_loop c (if limit < 0 then 0 else limit) s [] [] 0 False"

lemma strtoks_single_skip: "strtoks [c] (c # s) = strtoks [c] s"
  by (simp add: strtoks.simps [of _ "c # s"] strtoks.simps [of _ s] strtok_r_skip)

lemma strtok_r_single [simp]:
  "b \<noteq> [] \<Longrightarrow> c \<notin> set b \<Longrightarrow> strtok_r [c] (b @ c # s) = Some (b, s)"
  "b \<noteq> [] \<Longrightarrow> c \<notin> set b \<Longrightarrow> strtok_r [c] b = Some (b, [])"
  by (rule strtok_r_token; auto) (rule strtok_r_last; auto)

lemma strtoks_Nil [simp]: "strtoks ds [] = []"
  by (simp add: strtoks.simps)

lemma strtoks_single_cons: "b \<noteq> [] \<Longrightarrow> c \<notin> set b \<Longrightarrow> strtoks [c] (b @ c # s) = b # strtoks [c] s"
  by (subst strtoks.simps) simp

lemma strtoks_single_last: "b \<noteq> [] \<Longrightarrow> c \<notin> set b \<Longrightarrow> strtoks [c] b = [b]"
  by (subst strtoks.simps) simp

lemma split_loop_tokens:
  "c \<notin> set buf \<Longrightarrow> split_loop c 0 s buf v a False = v @ strtoks [c] (buf @ s)"
proof (induction s arbitrary: buf v)
  case Nil
  then show ?case by (auto simp: strtoks_single_last)
next
  case (Cons n s)
  show ?case
  proof (cases "n = c")
    case False
    with Cons.prems show ?thesis by (simp add: Cons.IH)
  next
    case True
    with Cons show ?thesis
      by (cases "buf = []") (auto simp: strtoks_single_skip strtoks_single_cons)
  qed
qed

lemma str_split_strtoks: "str_split s c 0 = strtoks [c] s"
  by (simp add: str_split_def split_loop_tokens)

lemma strtoks_pieces: "t \<in> set (strtoks ds s) \<Longrightarrow> t \<noteq> [] \<and> (\<forall>c\<in>set t. c \<notin> set ds)"
proof (induction ds s rule: strtoks.induct)
  case (1 ds s)
  from "1.prems" obtain u r where u: "strtok_r ds s = Some (u, r)" and t: "t = u \<or> t \<in> set (strtoks ds r)"
    by (cases "strtok_r ds s") (auto simp: strtoks.simps [of ds s])
  with "1.IH" [OF u refl] strtok_r_tok [OF u] show ?case by auto
qed

lemma strtoks_last: "strrsplit c s = Some (a, b) \<Longrightarrow> b \<noteq> [] \<Longrightarrow> last (strtoks [c] s) = b \<and> strtoks [c] s \<noteq> []"
proof (induction s arbitrary: a rule: length_induct)
  case (1 s)
  from "1.prems" have s: "s = a @ c # b" and b: "c \<notin> set b" by (auto simp: strrsplit_Some)
  show ?case
  proof (cases "c \<in> set a")
    case False
    with s b "1.prems" show ?thesis
      by (cases "a = []") (auto simp: strtoks_single_skip strtoks_single_last strtoks_single_cons)
  next
    case True
    then obtain x y where a: "a = x @ c # y" and x: "c \<notin> set x" by (meson split_list_first)
    have "last (strtoks [c] (y @ c # b)) = b \<and> strtoks [c] (y @ c # b) \<noteq> []"
      using "1.IH" [rule_format, of "y @ c # b" y] s a b "1.prems" by (simp add: strrsplit_Some)
    with s a x show ?thesis
      by (cases "x = []") (auto simp: strtoks_single_skip strtoks_single_cons)
  qed
qed

lemma split_loop_limit:
  "0 < limit \<Longrightarrow> int (length v) \<le> a \<Longrightarrow> (al \<or> a < limit) \<Longrightarrow> (al \<longrightarrow> int (length v) < limit) \<Longrightarrow>
   int (length (split_loop c limit s buf v a al)) \<le> limit"
  by (induction s arbitrary: buf v a al) (auto simp: Let_def)

section \<open>path-concat.cpp\<close>

abbreviation kPathSeparator :: char where "kPathSeparator \<equiv> CHR ''/''"

definition path_concat :: "string \<Rightarrow> string \<Rightarrow> string" where
  "path_concat str1 str2 =
     (let path_rslt = str1; len = length path_rslt in
      (if len > 0 then
         (let last_ch = path_rslt ! (len - 1) in
          if last_ch \<noteq> CHR ''/'' \<and> last_ch \<noteq> CHR 0x5C then path_rslt @ [kPathSeparator]
          else if last_ch \<noteq> kPathSeparator then path_rslt[len - 1 := kPathSeparator]
          else path_rslt)
       else path_rslt) @ str2)"

lemma path_concat_empty [simp]: "path_concat [] s = s"
  by (simp add: path_concat_def)

lemma path_concat_snoc:
  "path_concat (d @ [x]) f = d @ (if x = CHR ''/'' \<or> x = CHR 0x5C then [] else [x]) @ CHR ''/'' # f"
  by (auto simp: path_concat_def Let_def)

section \<open>format2str.cpp\<close>

text \<open>
  The text a format produces is an argument of the model; what is modelled is the buffer
  handling around \<open>vsnprintf\<close>, which stores at most \<open>size - 1\<close> bytes and returns the
  length of the whole text. Asserts are the release build's (\<open>-DNDEBUG\<close>).
\<close>

definition snprintf :: "nat \<Rightarrow> string \<Rightarrow> nat \<times> string" where
  "snprintf sz text = (length text, take (sz - 1) text)"

definition vformat2str :: "string \<Rightarrow> string" where
  "vformat2str text =
     (let strbuf_size = 256; (n, strbuf) = snprintf strbuf_size text in
      if n \<ge> strbuf_size
      then (let strbuf_size = n + 1; (n, strbuf) = snprintf strbuf_size text in cstr strbuf)
      else cstr strbuf)"

lemma vformat2str_id: "is_cstr text \<Longrightarrow> vformat2str text = text"
  by (auto simp: vformat2str_def snprintf_def Let_def)

definition format2str :: "string \<Rightarrow> string" where
  "format2str text = vformat2str text"

section \<open>mq-queue.cpp\<close>

definition get_jlauncher_mq_queue_name :: "string \<Rightarrow> string" where
  "get_jlauncher_mq_queue_name progname = format2str (''/'' @ progname @ ''_JLauncher'')"

definition get_jsupervisor_mq_queue_name :: "string \<Rightarrow> string" where
  "get_jsupervisor_mq_queue_name progname = format2str (''/'' @ progname @ ''_JSupervisor'')"

lemma queue_names_distinct:
  "is_cstr p \<Longrightarrow> is_cstr q \<Longrightarrow> get_jlauncher_mq_queue_name p \<noteq> get_jsupervisor_mq_queue_name q"
proof
  assume p: "is_cstr p" and q: "is_cstr q"
    and eq: "get_jlauncher_mq_queue_name p = get_jsupervisor_mq_queue_name q"
  have "p @ ''_JLauncher'' = q @ ''_JSupervisor''"
    using eq p q by (simp add: get_jlauncher_mq_queue_name_def get_jsupervisor_mq_queue_name_def
        format2str_def vformat2str_id is_cstr_def)
  then have "rev (p @ ''_JLauncher'') ! 2 = rev (q @ ''_JSupervisor'') ! 2" by simp
  then show False by simp
qed

section \<open>fifo-pipe.cpp\<close>

text \<open>
  \<open>rand_r\<close> of the C library is a parameter: it maps a seed to a number and the next seed.
  The rejection loop may run forever, so it returns an option; \<open>None\<close> is "does not return".
\<close>

type_synonym rand_fn = "nat \<Rightarrow> nat \<times> nat"

definition RAND_MAX :: nat where "RAND_MAX = 2147483647"

partial_function (option) rnd_loop :: "rand_fn \<Rightarrow> nat \<Rightarrow> nat \<Rightarrow> nat \<Rightarrow> (nat \<times> nat) option" where
  "rnd_loop rand_r limit rnd_n this_seed =
     (if rnd_n \<ge> limit then rnd_loop rand_r limit (fst (rand_r this_seed)) (snd (rand_r this_seed))
      else Some (rnd_n, this_seed))"

definition get_rnd_nbr :: "rand_fn \<Rightarrow> nat \<Rightarrow> nat \<Rightarrow> nat \<Rightarrow> (nat \<times> nat) option" where
  \<comment> \<open>the number and the new value of the static \<open>seed\<close>; a zero range traps\<close>
  "get_rnd_nbr rand_r seed min_n max_n =
     (let (rnd_n, this_seed) = rand_r seed;
          range = (1 + max_n + 2 ^ 32 - min_n) mod 2 ^ 32 in
      if range = 0 then None
      else
        (let buckets = RAND_MAX div range; limit = buckets * range in
         map_option (\<lambda>(rnd_n, this_seed). (min_n + rnd_n div buckets, this_seed))
           (rnd_loop rand_r limit rnd_n this_seed)))"

lemma rnd_loop_less: "rnd_loop rand_r limit n s = Some (m, s') \<Longrightarrow> m < limit"
proof -
  assume a: "rnd_loop rand_r limit n s = Some (m, s')"
  have "fst (m, s') < limit"
    by (rule rnd_loop.raw_induct [where P = "\<lambda>rand_r limit n s r. fst r < limit", OF _ a])
       (auto split: if_splits)
  then show ?thesis by simp
qed

lemma get_rnd_nbr_range:
  assumes "get_rnd_nbr rand_r seed min_n max_n = Some (r, seed')"
    and "min_n \<le> max_n" and "max_n < 2 ^ 31"
  shows "min_n \<le> r \<and> r \<le> max_n"
proof -
  define range where "range = 1 + max_n - min_n"
  have rg: "(1 + max_n + 2 ^ 32 - min_n) mod 2 ^ 32 = range"
  proof -
    have "1 + max_n + 2 ^ 32 - min_n = range + 2 ^ 32" using assms(2) by (simp add: range_def)
    moreover have "range < 2 ^ 32" using assms(3) by (simp add: range_def)
    ultimately show ?thesis by simp
  qed
  have pos: "0 < range" using assms(2) by (simp add: range_def)
  define b where "b = RAND_MAX div range"
  obtain m where m: "rnd_loop rand_r (b * range) (fst (rand_r seed)) (snd (rand_r seed)) = Some (m, seed')"
    and r: "r = min_n + m div b"
    using assms(1) pos unfolding get_rnd_nbr_def Let_def case_prod_beta rg b_def
    by (auto split: if_splits)
  from rnd_loop_less [OF m] have "m < b * range" .
  then have "m div b < range" by (simp add: less_mult_imp_div_less mult.commute)
  then show ?thesis using r assms(2) by (simp add: range_def)
qed

primrec rand_iter :: "rand_fn \<Rightarrow> nat \<Rightarrow> nat \<Rightarrow> nat \<times> nat" where
  "rand_iter rand_r seed 0 = rand_r seed"
| "rand_iter rand_r seed (Suc k) = rand_iter rand_r (snd (rand_r seed)) k"

lemma rnd_loop_returns:
  "fst (rand_iter rand_r s k) < limit \<Longrightarrow> \<exists>r. rnd_loop rand_r limit (fst (rand_r s)) (snd (rand_r s)) = Some r"
proof (induction k arbitrary: s)
  case 0
  then show ?case by (subst rnd_loop.simps) simp
next
  case (Suc k)
  then show ?case by (subst rnd_loop.simps) simp
qed

datatype fifo_error = Make_fifo_pipe_name_exception

partial_function (option) fifo_fmt ::
  "rand_fn \<Rightarrow> (nat \<Rightarrow> string) \<Rightarrow> nat \<Rightarrow> nat \<Rightarrow> (fifo_error + string \<times> nat) option" where
  \<comment> \<open>the \<open>do_msg_fmt\<close> block: every retry draws a new random number\<close>
  "fifo_fmt rand_r text seed strbuf_size =
     (case get_rnd_nbr rand_r seed 1 99 of
        None \<Rightarrow> None
      | Some (rnd, seed') \<Rightarrow>
          (if fst (snprintf strbuf_size (text rnd)) = 0 then Some (Inl Make_fifo_pipe_name_exception)
           else if fst (snprintf strbuf_size (text rnd)) \<ge> strbuf_size
           then fifo_fmt rand_r text seed' (fst (snprintf strbuf_size (text rnd)) + 1)
           else Some (Inr (snd (snprintf strbuf_size (text rnd)), seed'))))"

definition fifo_text :: "string \<Rightarrow> string \<Rightarrow> int \<Rightarrow> nat \<Rightarrow> string" where
  "fifo_text progname fifo_pipe_basename pid rnd =
     ''/tmp'' @ ''/'' @ progname @ ''_'' @ fifo_pipe_basename @ ''_'' @ show_int pid @ ''_'' @ show_int (int rnd)"

definition make_fifo_pipe_name ::
  "rand_fn \<Rightarrow> nat \<Rightarrow> int \<Rightarrow> string \<Rightarrow> string \<Rightarrow> (fifo_error + string \<times> nat) option" where
  "make_fifo_pipe_name rand_r seed pid progname fifo_pipe_basename =
     fifo_fmt rand_r (fifo_text progname fifo_pipe_basename pid) seed 256"

lemma rnd_1_99: "get_rnd_nbr rand_r seed (Suc 0) 99 = Some (r, seed') \<Longrightarrow> Suc 0 \<le> r \<and> r \<le> 99"
  using get_rnd_nbr_range [of rand_r seed 1 99 r seed'] by simp

lemma rnd_1_99_ex:
  "get_rnd_nbr rand_r seed (Suc 0) 99 = Some (r, seed') \<Longrightarrow> \<exists>k\<in>{Suc 0..99}. text r = (text k :: string)"
  using rnd_1_99 by (auto intro: bexI [where x = r])

lemma fifo_fmt_complete:
  assumes "fifo_fmt rand_r text seed sz = Some (Inr (name, seed'))" and "0 < sz"
  shows "\<exists>r\<in>{1..99}. name = text r"
proof -
  let ?P = "\<lambda>(rand_r :: rand_fn) (text :: nat \<Rightarrow> string) (seed :: nat) sz (res :: fifo_error + string \<times> nat).
              \<forall>name s. res = Inr (name, s) \<longrightarrow> 0 < sz \<longrightarrow> (\<exists>r\<in>{1..99}. name = text r)"
  have "?P rand_r text seed sz (Inr (name, seed'))"
    by (rule fifo_fmt.raw_induct [where P = ?P, OF _ assms(1)])
       (auto simp: snprintf_def split: option.splits if_splits intro: rnd_1_99_ex)
  with assms(2) show ?thesis by simp
qed

lemma make_fifo_pipe_name_complete:
  "make_fifo_pipe_name rand_r seed pid p b = Some (Inr (name, seed')) \<Longrightarrow>
   \<exists>r\<in>{1..99}. name = fifo_text p b pid r"
  unfolding make_fifo_pipe_name_def by (rule fifo_fmt_complete) auto

end
