(* ===== verification/MsgQueue.thy ===== *)
theory MsgQueue
  imports StrTools
begin

text \<open>
  Message queues: the calls of \<open>send-mq-msg.cpp\<close> over a model of the POSIX queues, the flattening
  of a command line into one message, and the sending lambdas of \<open>spartan.cpp\<close>. A descriptor
  is the name of its queue. A call that would block has no result (\<open>None\<close>).
\<close>

section \<open>POSIX message queues\<close>

datatype mq_error = EEXIST | ENOENT | EMSGSIZE

record mqueue =
  mq_mode :: "32 word"
  mq_maxmsg :: nat
  mq_msgsize :: nat
  mq_msgs :: "string list" \<comment> \<open>all messages are sent with priority 0: a queue\<close>

record mq_world =
  mq_umask :: "32 word"
  mq_named :: "string \<rightharpoonup> mqueue"

unbundle bit_operations_syntax

abbreviation O_RDONLY :: "32 word" where "O_RDONLY \<equiv> 0"
abbreviation O_WRONLY :: "32 word" where "O_WRONLY \<equiv> 1"
abbreviation O_CREAT :: "32 word" where "O_CREAT \<equiv> 64"
abbreviation O_EXCL :: "32 word" where "O_EXCL \<equiv> 128"

definition mq_open :: "string \<Rightarrow> 32 word \<Rightarrow> 32 word \<Rightarrow> nat \<times> nat \<Rightarrow> mq_world \<Rightarrow> (mq_error + string) \<times> mq_world" where
  "mq_open name oflag mode attr w =
     (case mq_named w name of
        Some q \<Rightarrow> (if oflag AND O_CREAT \<noteq> 0 \<and> oflag AND O_EXCL \<noteq> 0 then Inl EEXIST else Inr name, w)
      | None \<Rightarrow>
          (if oflag AND O_CREAT = 0 then (Inl ENOENT, w)
           else (Inr name, w\<lparr>mq_named := (mq_named w)(name \<mapsto>
                  \<lparr>mq_mode = mode AND NOT (mq_umask w), mq_maxmsg = fst attr, mq_msgsize = snd attr, mq_msgs = []\<rparr>)\<rparr>)))"

definition mq_send :: "string \<Rightarrow> string \<Rightarrow> mq_world \<Rightarrow> (mq_error option \<times> mq_world) option" where
  "mq_send mqd msg w =
     (case mq_named w mqd of
        None \<Rightarrow> Some (Some ENOENT, w)
      | Some q \<Rightarrow>
          (if length msg > mq_msgsize q then Some (Some EMSGSIZE, w)
           else if length (mq_msgs q) \<ge> mq_maxmsg q then None
           else Some (None, w\<lparr>mq_named := (mq_named w)(mqd \<mapsto> q\<lparr>mq_msgs := mq_msgs q @ [msg]\<rparr>)\<rparr>)))"

definition mq_receive :: "string \<Rightarrow> nat \<Rightarrow> mq_world \<Rightarrow> ((mq_error + string) \<times> mq_world) option" where
  \<comment> \<open>into a buffer of the given size\<close>
  "mq_receive mqd bufsize w =
     (case mq_named w mqd of
        None \<Rightarrow> Some (Inl ENOENT, w)
      | Some q \<Rightarrow>
          (if bufsize < mq_msgsize q then Some (Inl EMSGSIZE, w)
           else (case mq_msgs q of
                   [] \<Rightarrow> None
                 | m # ms \<Rightarrow> Some (Inr m, w\<lparr>mq_named := (mq_named w)(mqd \<mapsto> q\<lparr>mq_msgs := ms\<rparr>)\<rparr>))))"

definition mq_unlink :: "string \<Rightarrow> mq_world \<Rightarrow> mq_world" where
  "mq_unlink name w = w\<lparr>mq_named := (mq_named w)(name := None)\<rparr>"

section \<open>send-mq-msg.cpp\<close>

definition mq_open_ex :: "string \<Rightarrow> 32 word \<Rightarrow> 32 word \<Rightarrow> nat \<times> nat \<Rightarrow> mq_world \<Rightarrow> (mq_error + string) \<times> mq_world" where
  "mq_open_ex name oflag mode attr w =
     (let save_umask = mq_umask w; w = w\<lparr>mq_umask := 2\<rparr>;
          (mqd, w) = mq_open name oflag mode attr w;
          w = w\<lparr>mq_umask := save_umask\<rparr>
      in (mqd, w))"

abbreviation mode_0662 :: "32 word" where "mode_0662 \<equiv> 434"

definition send_mq_msg :: "string \<Rightarrow> string \<Rightarrow> mq_world \<Rightarrow> (int \<times> mq_world) option" where
  "send_mq_msg msg queue_name w =
     (let (mqd, w) = mq_open_ex queue_name O_WRONLY mode_0662 (0, 0) w in
      case mqd of
        Inl rc \<Rightarrow> Some (EXIT_FAILURE, w)
      | Inr mqd \<Rightarrow>
          map_option (\<lambda>(e, w). (if e \<noteq> None then EXIT_FAILURE else EXIT_SUCCESS, w)) (mq_send mqd msg w))"

section \<open>Flattening a command line\<close>

definition strncpy_n :: "nat \<Rightarrow> string \<Rightarrow> string" where
  \<comment> \<open>the \<open>n\<close> bytes \<open>strncpy\<close> writes\<close>
  "strncpy_n n s = take n s @ replicate (n - length s) NUL"

definition argv_dup :: "string \<Rightarrow> string \<Rightarrow> string list \<Rightarrow> string list" where
  \<comment> \<open>the caller's program name, \<open>argv[0]\<close>, gives way to the two leading arguments\<close>
  "argv_dup extended_invoke_cmd uds_socket_name argv = extended_invoke_cmd # uds_socket_name # tl argv"

definition argv_sizes :: "string \<Rightarrow> string \<Rightarrow> string list \<Rightarrow> nat list" where
  \<comment> \<open>for at least two arguments: the sizes of the first two are not measured again after the filter\<close>
  "argv_sizes extended_invoke_cmd uds_socket_name args =
     length extended_invoke_cmd # length uds_socket_name # map length (drop 2 args)"

definition flatten_step :: "string \<Rightarrow> nat \<times> string \<Rightarrow> string" where
  "flatten_step buf na =
     (let (n, a) = na in if n = 0 then buf else buf @ DQUOTE # strncpy_n n a @ [DQUOTE, CHR '' ''])"

definition flatten_args :: "string \<Rightarrow> string \<Rightarrow> string list \<Rightarrow> string option" where
  \<comment> \<open>\<open>None\<close>: a write in front of the buffer, or past \<open>argv_sizes\<close>\<close>
  "flatten_args extended_invoke_cmd uds_socket_name args =
     (if length args < 2 then None
      else (let buf = foldl flatten_step [] (zip (argv_sizes extended_invoke_cmd uds_socket_name args) args)
            in if buf = [] then None else Some (butlast buf)))"

definition send_flattened_argv_mq_msg ::
  "string list \<Rightarrow> string \<Rightarrow> string \<Rightarrow> string \<Rightarrow> (string list \<Rightarrow> string list) \<Rightarrow> mq_world \<Rightarrow> (int \<times> mq_world) option" where
  "send_flattened_argv_mq_msg argv extended_invoke_cmd uds_socket_name queue_name filter_cb w =
     (case flatten_args extended_invoke_cmd uds_socket_name
            (filter_cb (argv_dup extended_invoke_cmd uds_socket_name argv)) of
        None \<Rightarrow> None
      | Some buf \<Rightarrow> send_mq_msg buf queue_name w)"

section \<open>Queues are first in, first out\<close>

text \<open>
  What a client of a named queue relies on: a message sent successfully comes out after those
  sent before it and is not changed; other queues are not touched.
\<close>

locale message_channel =
  fixes contents :: "'w \<Rightarrow> 'n \<Rightarrow> 'm list"
    and send :: "'m \<Rightarrow> 'n \<Rightarrow> 'w \<Rightarrow> (int \<times> 'w) option"
    and receive :: "'n \<Rightarrow> 'w \<Rightarrow> ('m \<times> 'w) option"
  assumes send_contents: "send m n w = Some (EXIT_SUCCESS, w') \<Longrightarrow>
      contents w' n = contents w n @ [m] \<and> (\<forall>k. k \<noteq> n \<longrightarrow> contents w' k = contents w k)"
    and receive_contents: "receive n w = Some (m, w') \<Longrightarrow>
      contents w n = m # contents w' n \<and> (\<forall>k. k \<noteq> n \<longrightarrow> contents w' k = contents w k)"
begin

primrec receives :: "nat \<Rightarrow> 'n \<Rightarrow> 'w \<Rightarrow> ('m list \<times> 'w) option" where
  "receives 0 n w = Some ([], w)"
| "receives (Suc k) n w =
     (case receive n w of
        None \<Rightarrow> None
      | Some (m, w) \<Rightarrow> (case receives k n w of None \<Rightarrow> None | Some (ms, w) \<Rightarrow> Some (m # ms, w)))"

fun sends :: "('n \<times> 'm) list \<Rightarrow> 'w \<Rightarrow> 'w option" where
  "sends [] w = Some w"
| "sends ((n, m) # ms) w = (case send m n w of None \<Rightarrow> None | Some (rc, w) \<Rightarrow> if rc = EXIT_SUCCESS then sends ms w else None)"

lemma sends_contents: "sends ms w = Some w' \<Longrightarrow> contents w' n = contents w n @ map snd (filter (\<lambda>(k, m). k = n) ms)"
proof (induction ms arbitrary: w)
  case Nil
  then show ?case by simp
next
  case (Cons a ms)
  obtain k m where a: "a = (k, m)" by (cases a)
  with Cons.prems obtain w1 where s: "send m k w = Some (EXIT_SUCCESS, w1)" and r: "sends ms w1 = Some w'"
    by (auto split: option.splits if_splits)
  from Cons.IH [OF r] send_contents [OF s] show ?case by (cases "k = n") (auto simp: a)
qed

lemma receives_contents: "receives k n w = Some (ms, w') \<Longrightarrow> contents w n = ms @ contents w' n"
  by (induction k arbitrary: w ms)
    (auto split: option.splits dest!: receive_contents)

lemma receives_length: "receives k n w = Some (ms, w') \<Longrightarrow> length ms = k"
  by (induction k arbitrary: w ms) (auto split: option.splits)

lemma fifo:
  assumes "contents w n = []" and "sends ms w = Some w1" and "receives k n w1 = Some (got, w2)"
  shows "got = take k (map snd (filter (\<lambda>(q, m). q = n) ms))"
  using receives_contents [OF assms(3)] receives_length [OF assms(3)] sends_contents [OF assms(2), of n] assms(1)
  by simp

end

definition queue_contents :: "mq_world \<Rightarrow> string \<Rightarrow> string list" where
  "queue_contents w n = (case mq_named w n of None \<Rightarrow> [] | Some q \<Rightarrow> mq_msgs q)"

definition receive_msg :: "nat \<Rightarrow> string \<Rightarrow> mq_world \<Rightarrow> (string \<times> mq_world) option" where
  "receive_msg bufsize n w =
     (case mq_receive n bufsize w of Some (Inr m, w) \<Rightarrow> Some (m, w) | _ \<Rightarrow> None)"

lemma mq_open_ex_existing:
  "oflag AND O_CREAT = 0 \<Longrightarrow> mq_open_ex n oflag mode attr w = (if mq_named w n = None then Inl ENOENT else Inr n, w)"
  by (auto simp: mq_open_ex_def mq_open_def split: option.splits)

lemma send_mq_msg_eq:
  "send_mq_msg m n w =
     (case mq_named w n of
        None \<Rightarrow> Some (EXIT_FAILURE, w)
      | Some q \<Rightarrow> (if length m > mq_msgsize q then Some (EXIT_FAILURE, w)
                  else if length (mq_msgs q) \<ge> mq_maxmsg q then None
                  else Some (EXIT_SUCCESS, w\<lparr>mq_named := (mq_named w)(n \<mapsto> q\<lparr>mq_msgs := mq_msgs q @ [m]\<rparr>)\<rparr>)))"
  by (simp add: send_mq_msg_def mq_open_ex_existing mq_send_def split: option.splits)

interpretation mq: message_channel queue_contents send_mq_msg "receive_msg bufsize"
  by unfold_locales
    (auto simp: send_mq_msg_eq queue_contents_def receive_msg_def mq_receive_def
      split: option.splits if_splits list.splits sum.splits)

primrec receive_msgs :: "nat \<Rightarrow> nat \<Rightarrow> string \<Rightarrow> mq_world \<Rightarrow> (string list \<times> mq_world) option" where
  "receive_msgs bufsize 0 n w = Some ([], w)"
| "receive_msgs bufsize (Suc k) n w =
     (case receive_msg bufsize n w of
        None \<Rightarrow> None
      | Some (m, w) \<Rightarrow> (case receive_msgs bufsize k n w of None \<Rightarrow> None | Some (ms, w) \<Rightarrow> Some (m # ms, w)))"

fun send_msgs :: "(string \<times> string) list \<Rightarrow> mq_world \<Rightarrow> mq_world option" where
  \<comment> \<open>queue and message of each call, as long as they succeed\<close>
  "send_msgs [] w = Some w"
| "send_msgs ((n, m) # ms) w =
     (case send_mq_msg m n w of None \<Rightarrow> None | Some (rc, w) \<Rightarrow> if rc = EXIT_SUCCESS then send_msgs ms w else None)"

lemma receive_msgs_eq: "receive_msgs bufsize k n w = mq.receives bufsize k n w"
  by (induction k arbitrary: w) (auto split: option.splits)

lemma send_msgs_eq: "send_msgs ms w = mq.sends ms w"
  by (induction ms w rule: send_msgs.induct) (auto split: option.splits)


definition two_queues :: mq_world where
  "two_queues = (let w = \<lparr>mq_umask = 18, mq_named = Map.empty\<rparr>;
       (a, w) = mq_open_ex ''/p_JLauncher'' (O_CREAT OR O_EXCL) mode_0662 (10, 4096) w;
       (b, w) = mq_open_ex ''/p_JSupervisor'' (O_CREAT OR O_EXCL) mode_0662 (10, 4096) w in w)"


section \<open>The flattened message\<close>

definition quoted :: "string \<Rightarrow> string" where
  "quoted a = DQUOTE # a @ [DQUOTE]"

fun unwords :: "string list \<Rightarrow> string" where
  "unwords [] = []"
| "unwords [a] = a"
| "unwords (a # b # as) = a @ CHR '' '' # unwords (b # as)"

lemma strncpy_n_all [simp]: "strncpy_n (length s) s = s"
  by (simp add: strncpy_n_def)

lemma flatten_fold: "foldl flatten_step buf (map (\<lambda>a. (length a, a)) args) =
    buf @ concat (map (\<lambda>a. quoted a @ '' '') (filter (\<lambda>a. a \<noteq> []) args))"
  by (induction args arbitrary: buf) (auto simp: flatten_step_def quoted_def)

lemma concat_unwords: "as \<noteq> [] \<Longrightarrow> concat (map (\<lambda>a. quoted a @ '' '') as) = unwords (map quoted as) @ '' ''"
  by (induction as rule: induct_list012) auto

lemma zip_sizes: "zip (argv_sizes c u (c # u # as)) (c # u # as) = map (\<lambda>a. (length a, a)) (c # u # as)"
  by (simp add: argv_sizes_def zip_map1 zip_same_conv_map)

lemma flatten_args_eq:
  assumes "c \<noteq> []"
  shows "flatten_args c u (c # u # as) = Some (unwords (map quoted (filter (\<lambda>a. a \<noteq> []) (c # u # as))))"
proof -
  have "foldl flatten_step [] (zip (argv_sizes c u (c # u # as)) (c # u # as)) =
      unwords (map quoted (filter (\<lambda>a. a \<noteq> []) (c # u # as))) @ '' ''"
    unfolding zip_sizes flatten_fold using assms by (subst concat_unwords) auto
  then show ?thesis by (simp add: flatten_args_def Let_def)
qed

lemma unwords_ne [simp]: "unwords (map quoted (a # as)) \<noteq> []"
  by (cases as) (auto simp: quoted_def)

lemma unwords_append: "as \<noteq> [] \<Longrightarrow> unwords (a # as) = a @ CHR '' '' # unwords as"
  by (cases as) auto

lemma strtoks_unwords:
  assumes "list_all (\<lambda>a. a \<noteq> [] \<and> CHR '' '' \<notin> set a) as"
  shows "strtoks '' '' (unwords as) = as"
  using assms
proof (induction as rule: unwords.induct)
  case 1
  then show ?case by (simp add: strtoks_Nil)
next
  case (2 a)
  then show ?case by (simp add: strtoks_single_last)
next
  case (3 a b as)
  then show ?case by (simp add: strtoks_single_cons)
qed

end
