(* ===== verification/IniParser.thy ===== *)
theory IniParser
  imports StrTools
begin

text \<open>
  The INI reader \<open>ini.cpp\<close> and its caller \<open>process_config\<close> of \<open>cfgparse.cpp\<close>. A line buffer
  is a C string, a pointer into it the suffix it points to; the fixed arrays \<open>section\<close> and
  \<open>prev_name\<close> are byte lists of their 50 bytes. The handler is a function on the caller's
  state; the error handler appends to the list of reported errors.
\<close>

section \<open>Lines and pointers into them\<close>

abbreviation MAX_SECTION :: nat where "MAX_SECTION \<equiv> 50"
abbreviation MAX_NAME :: nat where "MAX_NAME \<equiv> 50"
abbreviation INI_MAX_LINE :: nat where "INI_MAX_LINE \<equiv> 512"
abbreviation EILSEQ :: int where "EILSEQ \<equiv> 84"

fun rstrip_loop :: "string \<Rightarrow> nat \<Rightarrow> string" where
  \<comment> \<open>the buffer and the pointer \<open>p\<close>, from one past the last byte down\<close>
  "rstrip_loop s 0 = s"
| "rstrip_loop s (Suc p) = (if isspace (s ! p) then rstrip_loop (s[p := NUL]) p else s)"

definition rstrip :: "string \<Rightarrow> string" where
  "rstrip s = cstr (rstrip_loop s (length s))"

fun lskip :: "string \<Rightarrow> string" where
  "lskip [] = []"
| "lskip (c # s) = (if isspace c then lskip s else c # s)"

fun find_from :: "bool \<Rightarrow> string \<Rightarrow> char \<Rightarrow> string \<times> string" where
  \<comment> \<open>the text skipped and the suffix the returned pointer is at\<close>
  "find_from was_whitespace [] c = ([], [])"
| "find_from was_whitespace (x # s) c =
     (if x \<noteq> c \<and> \<not> (was_whitespace \<and> x = CHR '';'')
      then (let (a, b) = find_from (isspace x) s c in (x # a, b))
      else ([], x # s))"

definition find_char_or_comment :: "string \<Rightarrow> char \<Rightarrow> string \<times> string" where
  "find_char_or_comment s c = find_from False s c"

definition strncpy :: "string \<Rightarrow> string \<Rightarrow> nat \<Rightarrow> string" where
  \<comment> \<open>the C function: copies, then pads with NUL up to the count\<close>
  "strncpy dest src n = take n (src @ replicate n NUL) @ drop n dest"

definition strncpy0 :: "string \<Rightarrow> nat \<Rightarrow> string \<Rightarrow> nat \<Rightarrow> string" where
  "strncpy0 dest dest_buf_size src n =
     (let n' = (if n \<ge> dest_buf_size then dest_buf_size - 1 else n) in strncpy dest src n')"

fun fgets_loop :: "nat \<Rightarrow> string \<Rightarrow> string \<times> string" where
  "fgets_loop 0 f = ([], f)"
| "fgets_loop (Suc n) [] = ([], [])"
| "fgets_loop (Suc n) (c # f) =
     (if c = NL then ([c], f) else (let (a, b) = fgets_loop n f in (c # a, b)))"

definition fgets :: "nat \<Rightarrow> string \<Rightarrow> (string \<times> string) option" where
  \<comment> \<open>the C function on the unread rest of a file: the line read and the new rest\<close>
  "fgets n f = (if f = [] then None else Some (fgets_loop (n - 1) f))"

lemma lskip_dropWhile: "lskip s = dropWhile isspace s"
  by (induction s) auto

lemma cstr_snoc_NUL: "cstr (s @ [NUL]) = cstr s"
  by (induction s) (auto simp: cstr_def)

lemma cstr_replicate_NUL [simp]: "is_cstr s \<Longrightarrow> cstr (s @ replicate n NUL) = s"
  by (cases n) (simp_all add: cstr_def is_cstr_def)

lemma rstrip_loop_rev:
  "is_cstr s \<Longrightarrow> rstrip_loop (s @ replicate k NUL) (length s) =
     rev (dropWhile isspace (rev s)) @ replicate (length (takeWhile isspace (rev s)) + k) NUL"
proof (induction s arbitrary: k rule: rev_induct)
  case Nil
  then show ?case by simp
next
  case (snoc x s)
  have "(s @ x # replicate k NUL)[length s := NUL] = s @ replicate (Suc k) NUL" by simp
  with snoc.IH [of "Suc k"] snoc.prems show ?case
    by (auto simp: is_cstr_def nth_append replicate_app_Cons_same)
qed

lemma is_cstr_simps: "is_cstr (s @ t) = (is_cstr s \<and> is_cstr t)" "is_cstr (rev s) = is_cstr s"
  "is_cstr (c # s) = (c \<noteq> NUL \<and> is_cstr s)" "is_cstr []"
  by (auto simp: is_cstr_def)

lemma is_cstr_drop: "is_cstr s \<Longrightarrow> is_cstr (dropWhile P s)" "is_cstr s \<Longrightarrow> is_cstr (takeWhile P s)"
  "is_cstr s \<Longrightarrow> is_cstr (take n s)" "is_cstr s \<Longrightarrow> is_cstr (drop n s)"
  by (auto simp: is_cstr_def dest: set_dropWhileD set_takeWhileD in_set_takeD in_set_dropD)

lemma rstrip_rev: "is_cstr s \<Longrightarrow> rstrip s = rev (dropWhile isspace (rev s))"
  using rstrip_loop_rev [of s 0] by (simp add: rstrip_def is_cstr_simps is_cstr_drop)

section \<open>The parser\<close>

record 'u ini =
  section_buf :: string    \<comment> \<open>\<open>char section[MAX_SECTION]\<close>\<close>
  prev_name_buf :: string  \<comment> \<open>\<open>char prev_name[MAX_NAME]\<close>\<close>
  lineno :: int
  ini_error :: int
  user :: 'u               \<comment> \<open>what the handler captures by reference\<close>
  err_codes :: "(int \<times> string \<times> int) list" \<comment> \<open>the calls of \<open>error_code\<close>\<close>

type_synonym 'u cfg_parse_handler = "'u \<Rightarrow> string \<Rightarrow> string \<Rightarrow> string \<Rightarrow> 'u \<times> int"

definition ini_start :: "'u \<Rightarrow> 'u ini" where
  "ini_start u = \<lparr>section_buf = replicate MAX_SECTION NUL, prev_name_buf = replicate MAX_NAME NUL,
     lineno = 0, ini_error = 0, user = u, err_codes = []\<rparr>"

definition report_eilseq :: "int \<Rightarrow> 'u ini \<Rightarrow> 'u ini" where
  "report_eilseq ln st = st\<lparr>err_codes := err_codes st @ [(EILSEQ, ''ini_parse_file_core'', ln)]\<rparr>"

definition skip_bom :: "int \<Rightarrow> string \<Rightarrow> string" where
  "skip_bom ln s = (if ln = 1 \<and> take 3 s = [CHR 0xEF, CHR 0xBB, CHR 0xBF] then drop 3 s else s)"

definition ini_section_line :: "string \<Rightarrow> 'u ini \<Rightarrow> 'u ini" where
  \<comment> \<open>\<open>s\<close> is the text at \<open>start + 1\<close>\<close>
  "ini_section_line s st =
     (let (name, at_end) = find_char_or_comment s CHR '']'' in
      if at_end \<noteq> [] \<and> hd at_end = CHR '']''
      then st\<lparr>section_buf := strncpy0 (section_buf st) MAX_SECTION name MAX_SECTION,
              prev_name_buf := (prev_name_buf st)[0 := NUL]\<rparr>
      else if ini_error st = 0 then st\<lparr>ini_error := lineno st\<rparr>
      else report_eilseq 126 st)"

definition ini_name_value :: "string \<Rightarrow> (string \<times> string) option" where
  \<comment> \<open>the split of a line at its first separator, comment cut off and both sides stripped\<close>
  "ini_name_value start =
     (let (a, at_end) = find_char_or_comment start CHR ''='';
          (a, at_end) = (if at_end = [] \<or> hd at_end \<noteq> CHR ''='' then find_char_or_comment start CHR '':''
                         else (a, at_end)) in
      if at_end \<noteq> [] \<and> (hd at_end = CHR ''='' \<or> hd at_end = CHR '':'')
      then (let name = rstrip a; value = lskip (tl at_end); (value, _) = find_char_or_comment value NUL
            in Some (name, rstrip value))
      else None)"

definition ini_name_line :: "'u cfg_parse_handler \<Rightarrow> string \<Rightarrow> 'u ini \<Rightarrow> 'u ini" where
  "ini_name_line handler start st =
     (case ini_name_value start of
        Some (name, value) \<Rightarrow>
          (let st = st\<lparr>prev_name_buf := strncpy0 (prev_name_buf st) MAX_NAME name MAX_NAME\<rparr>;
               (u, r) = handler (user st) (cstr (section_buf st)) name value;
               st = st\<lparr>user := u\<rparr>
           in if r = 0 \<and> ini_error st = 0 then st\<lparr>ini_error := lineno st\<rparr> else st)
      | None \<Rightarrow> if ini_error st = 0 then st\<lparr>ini_error := lineno st\<rparr> else report_eilseq 156 st)"

definition ini_line :: "'u cfg_parse_handler \<Rightarrow> string \<Rightarrow> 'u ini \<Rightarrow> 'u ini" where
  "ini_line handler line st =
     (let st = st\<lparr>lineno := lineno st + 1\<rparr>;
          start = lskip (rstrip (skip_bom (lineno st) (cstr line))) in
      case start of
        [] \<Rightarrow> st
      | c # s \<Rightarrow>
          if c = CHR '';'' \<or> c = CHR ''#'' then st
          else if c = CHR ''['' then ini_section_line s st
          else ini_name_line handler start st)"

lemma fgets_loop_length: "fgets_loop n f = (a, b) \<Longrightarrow> length a + length b = length f"
  by (induction n f arbitrary: a b rule: fgets_loop.induct) (auto split: if_splits prod.splits)

lemma fgets_less: "fgets INI_MAX_LINE f = Some (l, r) \<Longrightarrow> length r < length f"
  by (cases f) (auto simp: fgets_def eval_nat_numeral split: if_splits prod.splits
      dest!: fgets_loop_length)

function ini_loop :: "'u cfg_parse_handler \<Rightarrow> string \<Rightarrow> 'u ini \<Rightarrow> 'u ini" where
  \<comment> \<open>the loop over \<open>fgets\<close>, with \<open>INI_STOP_ON_FIRST_ERROR\<close>\<close>
  "ini_loop handler file st =
     (case fgets INI_MAX_LINE file of
        None \<Rightarrow> st
      | Some (line, rest) \<Rightarrow>
          (let st = ini_line handler line st in
           if ini_error st \<noteq> 0 then st else ini_loop handler rest st))"
  by pat_completeness auto
termination
  by (relation "measure (\<lambda>(h, f, st). length f)") (auto dest: fgets_less)

declare ini_loop.simps [simp del]

definition ini_parse_file_core :: "'u cfg_parse_handler \<Rightarrow> string \<Rightarrow> 'u \<Rightarrow> 'u ini" where
  "ini_parse_file_core handler file u = ini_loop handler file (ini_start u)"

text \<open>
  \<open>ini_parse\<close> on a file name: \<open>file\<close> is what \<open>fopen\<close> gives (the error number, or the
  contents), \<open>close_errno\<close> the error of \<open>fclose\<close>, 0 when it succeeds.
\<close>

definition ini_parse ::
  "'u cfg_parse_handler \<Rightarrow> int + string \<Rightarrow> int \<Rightarrow> 'u \<Rightarrow> 'u \<times> int \<times> (int \<times> string \<times> int) list" where
  "ini_parse handler file close_errno u =
     (case file of
        Inl errno \<Rightarrow> (u, -1, [(errno, ''ini_parse'', 186)])
      | Inr text \<Rightarrow>
          (let st = ini_parse_file_core handler text u; err = ini_error st in
           if err \<noteq> 0 then (user st, -1, err_codes st @ [(err, ''ini_parse'', 193)])
           else if close_errno \<noteq> 0 then (user st, -1, err_codes st @ [(close_errno, ''ini_parse'', 198)])
           else (user st, 0, err_codes st)))"

section \<open>process_config\<close>

text \<open>
  The file system is given by what \<open>stat\<close>, \<open>fopen\<close> and \<open>fclose\<close> answer for a path.
\<close>

unbundle bit_operations_syntax

record file_env =
  stat_mode :: "string \<Rightarrow> 32 word option"   \<comment> \<open>\<open>st_mode\<close>, \<open>None\<close> when \<open>stat\<close> fails\<close>
  file_text :: "string \<Rightarrow> int + string"
  fclose_errno :: "string \<Rightarrow> int"

definition S_IFMT :: "32 word" where "S_IFMT = 0xF000"
definition S_IFREG :: "32 word" where "S_IFREG = 0x8000"
definition S_IFDIR :: "32 word" where "S_IFDIR = 0x4000"

datatype cfg_error = Process_cfg_exception string

definition config_file_parse_err :: "int \<times> string \<times> int \<Rightarrow> string" where
  "config_file_parse_err e = (case e of (ec, op, ln) \<Rightarrow>
     ''config file parsing error '' @ show_int ec @ '' in '' @ op @ ''() at line '' @ show_int ln @ [NL])"

definition config_file_load_err :: "string \<Rightarrow> string" where
  "config_file_load_err path = ''can'' @ [CHR 0x27] @ ''t load '' @ [DQUOTE] @ path @ [DQUOTE, NL]"

definition process_config ::
  "file_env \<Rightarrow> string \<Rightarrow> string \<Rightarrow> 'u cfg_parse_handler \<Rightarrow> 'u \<Rightarrow> 'u \<times> (cfg_error + bool)" where
  "process_config env dirpath cfgfilename handler u =
     (let cfgfullfilepath = path_concat dirpath cfgfilename in
      case stat_mode env cfgfullfilepath of
        None \<Rightarrow> (u, Inr False)
      | Some mode \<Rightarrow>
          (if mode AND S_IFMT \<noteq> S_IFREG then (u, Inr False)
           else
             (let (u, rc, errs) = ini_parse handler (file_text env cfgfullfilepath)
                                    (fclose_errno env cfgfullfilepath) u;
                  err_list = map (\<lambda>e. format2str (config_file_parse_err e)) errs
              in if rc < 0
                 then (u, Inl (Process_cfg_exception
                        (concat (format2str (config_file_load_err cfgfullfilepath) # err_list))))
                 else (u, Inr True))))"

section \<open>What the handler is called with\<close>

definition trimmed :: "string \<Rightarrow> bool" where
  "trimmed s = (s = [] \<or> \<not> isspace (hd s) \<and> \<not> isspace (last s))"

definition call_ok :: "string \<times> string \<times> string \<Rightarrow> bool" where
  "call_ok c = (case c of (s, n, v) \<Rightarrow> length s < MAX_SECTION \<and> trimmed n \<and> trimmed v \<and>
     is_cstr s \<and> is_cstr n \<and> is_cstr v)"

definition log_handler :: "'u cfg_parse_handler \<Rightarrow> ('u \<times> (string \<times> string \<times> string) list) cfg_parse_handler" where
  \<comment> \<open>any handler, with the calls it receives recorded\<close>
  "log_handler h u s n v = (let (u', r) = h (fst u) s n v in ((u', snd u @ [(s, n, v)]), r))"

lemma find_from_append: "find_from w s c = (a, b) \<Longrightarrow> s = a @ b"
  by (induction w s c arbitrary: a b rule: find_from.induct) (auto split: if_splits prod.splits)

lemma trimmed_strip:
  "is_cstr s \<Longrightarrow> trimmed (rstrip (lskip s))" "is_cstr s \<Longrightarrow> s = [] \<or> \<not> isspace (hd s) \<Longrightarrow> trimmed (rstrip s)"
proof -
  have d: "trimmed (rev (dropWhile isspace (rev s)))" if "s = [] \<or> \<not> isspace (hd s)" for s
  proof (cases "dropWhile isspace (rev s)")
    case Nil
    then show ?thesis by (simp add: trimmed_def)
  next
    case (Cons x xs)
    then have "\<not> isspace x" by (metis hd_dropWhile list.sel(1) list.simps(3))
    moreover have "s = rev xs @ [x] @ rev (takeWhile isspace (rev s))"
      by (metis (no_types) Cons append.simps(1) append.simps(2) append_assoc rev.simps(2) rev_append rev_rev_ident takeWhile_dropWhile_id)
    then have "hd (rev xs @ [x]) = hd s" by (metis append_assoc append_is_Nil_conv hd_append list.simps(3))
    ultimately show ?thesis using that Cons
      by (auto simp: trimmed_def hd_append split: if_splits)
  qed
  show "is_cstr s \<Longrightarrow> s = [] \<or> \<not> isspace (hd s) \<Longrightarrow> trimmed (rstrip s)"
    by (simp add: rstrip_rev d)
  show "is_cstr s \<Longrightarrow> trimmed (rstrip (lskip s))"
    by (simp add: rstrip_rev lskip_dropWhile is_cstr_drop d) (metis d hd_dropWhile)
qed

definition section_ok :: "string \<Rightarrow> bool" where
  \<comment> \<open>the array keeps its size and its last byte stays the terminator\<close>
  "section_ok b = (length b = MAX_SECTION \<and> b ! (MAX_SECTION - 1) = NUL)"

lemma section_ok_cstr: "section_ok b \<Longrightarrow> length (cstr b) < MAX_SECTION"
proof -
  assume ok: "section_ok b"
  then have "NUL \<in> set b" by (metis diff_less nth_mem section_ok_def zero_less_numeral zero_less_one)
  then have "cstr b \<noteq> b" by (metis is_cstr_cstr is_cstr_def)
  moreover have "length (cstr b) \<le> length b" by (simp add: cstr_def length_takeWhile_le)
  moreover have "length (cstr b) = length b \<Longrightarrow> cstr b = b"
    unfolding cstr_def by (metis takeWhile_eq_take take_all order_refl)
  ultimately show ?thesis using ok unfolding section_ok_def by linarith
qed

lemma strncpy0_ok: "section_ok b \<Longrightarrow> section_ok (strncpy0 b MAX_SECTION src MAX_SECTION)"
  by (cases "length src \<le> 49") (simp_all add: section_ok_def strncpy0_def strncpy_def nth_append min_def)

lemma ini_name_value_trimmed:
  assumes "is_cstr start" and "start \<noteq> []" and "\<not> isspace (hd start)"
    and "ini_name_value start = Some (n, v)"
  shows "trimmed n \<and> trimmed v \<and> is_cstr n \<and> is_cstr v"
proof -
  have "\<exists>a x b va vb. start = a @ x # b \<and> lskip b = va @ vb \<and> n = rstrip a \<and> v = rstrip va"
    using assms(4)
    by (auto simp: ini_name_value_def find_char_or_comment_def Let_def neq_Nil_conv
        split: prod.splits if_splits dest!: find_from_append) blast+
  then obtain a x b va vb where st: "start = a @ x # b" and va: "lskip b = va @ vb"
    and n: "n = rstrip a" and v: "v = rstrip va" by blast
  have ca: "is_cstr a" and cb: "is_cstr b" using st assms(1) by (auto simp: is_cstr_simps)
  have cva: "is_cstr va" using va cb is_cstr_drop(1) [OF cb, of isspace] by (simp add: lskip_dropWhile is_cstr_simps)
  have "va = [] \<or> \<not> isspace (hd va)"
    using va hd_dropWhile [of isspace b] by (cases va) (auto simp: lskip_dropWhile)
  moreover have "a = [] \<or> \<not> isspace (hd a)" using st assms(3) by (cases a) auto
  ultimately show ?thesis using trimmed_strip(2) [OF ca] trimmed_strip(2) [OF cva] n v by (simp add: rstrip_def)
qed

definition log_inv :: "('u \<times> (string \<times> string \<times> string) list) ini \<Rightarrow> bool" where
  "log_inv st = (section_ok (section_buf st) \<and> (\<forall>c\<in>set (snd (user st)). call_ok c))"

lemma rstrip_cstr: "is_cstr (rstrip s)"
  by (simp add: rstrip_def)

lemma ini_line_log_inv [inv_intros]: "log_inv st \<Longrightarrow> log_inv (ini_line (log_handler h) line st)"
proof -
  assume inv: "log_inv st"
  define start where "start = lskip (rstrip (skip_bom (lineno st + 1) (cstr line)))"
  have c: "is_cstr start" by (simp add: start_def lskip_dropWhile is_cstr_drop rstrip_cstr)
  have h: "start \<noteq> [] \<Longrightarrow> \<not> isspace (hd start)"
    unfolding start_def lskip_dropWhile using hd_dropWhile by blast
  show ?thesis
  proof (cases start)
    case Nil
    with inv show ?thesis by (simp add: ini_line_def log_inv_def start_def)
  next
    case (Cons x s)
    have "log_inv (ini_name_line (log_handler h) start (st\<lparr>lineno := lineno st + 1\<rparr>))"
      using inv ini_name_value_trimmed [OF c _ h] Cons
      by (auto simp: ini_name_line_def log_inv_def log_handler_def report_eilseq_def call_ok_def
          section_ok_cstr Let_def split: option.splits prod.splits)
    then show ?thesis using inv Cons
      by (auto simp: ini_line_def start_def [symmetric] ini_section_line_def log_inv_def
          report_eilseq_def strncpy0_ok Let_def split: prod.splits)
  qed
qed

lemma ini_loop_log_inv: "log_inv st \<Longrightarrow> log_inv (ini_loop (log_handler h) inp st)"
proof (induction "log_handler h" inp st rule: ini_loop.induct)
  case (1 inp st)
  then show ?case
    by (subst ini_loop.simps) (auto simp: Let_def ini_line_log_inv split: option.splits)
qed

section \<open>Errors\<close>

lemma ini_line_errs:
  "ini_error st = 0 \<Longrightarrow> err_codes (ini_line h line st) = err_codes st \<and> lineno (ini_line h line st) = lineno st + 1 \<and>
     (ini_error (ini_line h line st) = 0 \<or> ini_error (ini_line h line st) = lineno st + 1)"
  by (auto simp: ini_line_def ini_section_line_def ini_name_line_def Let_def
      split: list.splits option.splits prod.splits)

lemma ini_loop_errs:
  "ini_error st = 0 \<Longrightarrow> 0 \<le> lineno st \<Longrightarrow> err_codes (ini_loop h inp st) = err_codes st \<and> 0 \<le> ini_error (ini_loop h inp st)
     \<and> (ini_error (ini_loop h inp st) = 0 \<or> ini_error (ini_loop h inp st) = lineno (ini_loop h inp st))"
proof (induction h inp st rule: ini_loop.induct)
  case (1 h inp st)
  show ?case
  proof (cases "fgets INI_MAX_LINE inp")
    case None
    with "1.prems" show ?thesis by (simp add: ini_loop.simps)
  next
    case (Some lr)
    obtain line rest where lr: "lr = (line, rest)" by (cases lr)
    note e = ini_line_errs [OF "1.prems"(1), of h line]
    show ?thesis
    proof (cases "ini_error (ini_line h line st) = 0")
      case True
      with "1.IH" [OF Some lr [symmetric] refl] "1.prems" e Some lr show ?thesis
        by (simp add: ini_loop.simps [of h inp st] Let_def)
    next
      case False
      with "1.prems" e Some lr show ?thesis
        by (simp add: ini_loop.simps [of h inp st] Let_def)
    qed
  qed
qed

section \<open>Well-formed files\<close>

text \<open>
  The abstract syntax of a configuration file, its text, and what parsing it must do: one
  handler call per entry, under the section it stands in, stopping at the first the handler
  rejects.
\<close>

datatype ini_item = Ini_section string | Ini_entry string string | Ini_comment string

fun ini_item_text :: "ini_item \<Rightarrow> string" where
  "ini_item_text (Ini_section s) = CHR ''['' # s @ '']''"
| "ini_item_text (Ini_entry n v) = n @ CHR ''='' # v"
| "ini_item_text (Ini_comment t) = CHR '';'' # t"

definition ini_text :: "ini_item list \<Rightarrow> string" where
  "ini_text items = concat (map (\<lambda>i. ini_item_text i @ [NL]) items)"

definition line_text :: "string \<Rightarrow> bool" where
  "line_text s = (\<forall>c\<in>set s. c \<noteq> NL \<and> c \<noteq> NUL)"

definition no_comment :: "string \<Rightarrow> bool" where
  "no_comment s = (find_from False s NUL = (s, []))"

fun ini_item_ok :: "ini_item \<Rightarrow> bool" where
  "ini_item_ok (Ini_section s) = (line_text s \<and> no_comment s \<and> CHR '']'' \<notin> set s \<and> length s < MAX_SECTION)"
| "ini_item_ok (Ini_entry n v) =
     (line_text n \<and> line_text v \<and> no_comment n \<and> no_comment v \<and> trimmed n \<and> trimmed v \<and> n \<noteq> [] \<and>
      hd n \<notin> {CHR ''['', CHR '';'', CHR ''#''} \<and> CHR ''='' \<notin> set n \<and>
      take 3 n \<noteq> [CHR 0xEF, CHR 0xBB, CHR 0xBF] \<and> length n + length v < 510)"
| "ini_item_ok (Ini_comment t) = (line_text t \<and> length t < 510)"

fun ini_spec :: "'u cfg_parse_handler \<Rightarrow> ini_item list \<Rightarrow> string \<Rightarrow> int \<Rightarrow> 'u \<Rightarrow> 'u \<times> int" where
  "ini_spec h [] sec n u = (u, 0)"
| "ini_spec h (Ini_section s # is) sec n u = ini_spec h is s (n + 1) u"
| "ini_spec h (Ini_comment t # is) sec n u = ini_spec h is sec (n + 1) u"
| "ini_spec h (Ini_entry k v # is) sec n u =
     (let (u', r) = h u sec k v in if r = 0 then (u', n) else ini_spec h is sec (n + 1) u')"

lemma fgets_loop_line:
  "NL \<notin> set l \<Longrightarrow> length l < n \<Longrightarrow> fgets_loop n (l @ NL # f) = (l @ [NL], f)"
proof (induction l arbitrary: n)
  case Nil
  then show ?case by (cases n) auto
next
  case (Cons c l)
  then show ?case by (cases n) auto
qed

lemma fgets_line: "NL \<notin> set l \<Longrightarrow> length l < 511 \<Longrightarrow> fgets INI_MAX_LINE (l @ NL # f) = Some (l @ [NL], f)"
  by (simp add: fgets_def fgets_loop_line)

lemma isspace_simps [simp]: "isspace NL" "isspace CHR '' ''" "\<not> isspace CHR '']''" "\<not> isspace CHR ''[''" "\<not> isspace CHR ''=''"
  "\<not> isspace CHR '';''"
  by (simp_all add: isspace_def)

lemma trimmed_id: "is_cstr s \<Longrightarrow> trimmed s \<Longrightarrow> rstrip s = s \<and> lskip s = s"
  by (rule conjI, cases s rule: rev_cases, simp_all add: rstrip_rev lskip_dropWhile trimmed_def)
    (cases s, auto)

lemma strip_line: "is_cstr s \<Longrightarrow> trimmed s \<Longrightarrow> lskip (rstrip (s @ [NL])) = s"
  using trimmed_id [of s] by (simp add: rstrip_rev is_cstr_simps)

lemma find_from_stop:
  "find_from w a NUL = (a, []) \<Longrightarrow> c \<notin> set a \<Longrightarrow> c \<noteq> CHR '';'' \<Longrightarrow> find_from w (a @ c # b) c = (a, c # b)"
  by (induction a arbitrary: w) (auto split: if_splits prod.splits)

lemma strncpy0_cstr:
  "section_ok b \<Longrightarrow> is_cstr s \<Longrightarrow> length s < MAX_SECTION \<Longrightarrow> cstr (strncpy0 b MAX_SECTION s MAX_SECTION) = s"
proof -
  assume ok: "section_ok b" and s: "is_cstr s" and l: "length s < MAX_SECTION"
  have "drop 49 b = [NUL]" using ok by (simp add: section_ok_def Cons_nth_drop_Suc [symmetric])
  then have "strncpy0 b MAX_SECTION s MAX_SECTION = s @ NUL # replicate (49 - length s) NUL"
    using l by (simp add: strncpy0_def strncpy_def replicate_app_Cons_same)
  with s show ?thesis by simp
qed

lemma line_text_cstr: "line_text s \<Longrightarrow> is_cstr s" "line_text s \<Longrightarrow> NL \<notin> set s"
  by (auto simp: line_text_def is_cstr_def)

lemma cstr_line: "line_text s \<Longrightarrow> cstr (s @ [NL]) = s @ [NL]"
  by (rule cstr_id) (simp add: is_cstr_simps line_text_cstr)

lemma ini_entry_line:
  assumes "ini_item_ok (Ini_entry n v)"
  shows "ini_name_value (n @ CHR ''='' # v) = Some (n, v)"
proof -
  have "find_char_or_comment (n @ CHR ''='' # v) CHR ''='' = (n, CHR ''='' # v)"
    unfolding find_char_or_comment_def using assms by (intro find_from_stop) (simp_all add: no_comment_def)
  moreover have "rstrip n = n" "lskip v = v" "rstrip v = v"
    using assms trimmed_id line_text_cstr by auto
  moreover have "find_char_or_comment v NUL = (v, [])"
    using assms by (simp add: find_char_or_comment_def no_comment_def)
  ultimately show ?thesis by (simp add: ini_name_value_def)
qed

lemma take3_append: "take 3 (n @ x # w) = [a, b, c] \<Longrightarrow> x \<noteq> a \<Longrightarrow> x \<noteq> b \<Longrightarrow> x \<noteq> c \<Longrightarrow> take 3 n = [a, b, c]"
  by (cases n; cases "tl n"; cases "tl (tl n)") (auto simp: numeral_3_eq_3)

lemma ini_line_entry:
  assumes "ini_item_ok (Ini_entry n v)"
  shows "ini_line h (ini_item_text (Ini_entry n v) @ [NL]) st =
           ini_name_line h (n @ CHR ''='' # v) (st\<lparr>lineno := lineno st + 1\<rparr>)"
proof -
  let ?l = "n @ CHR ''='' # v"
  have lt: "line_text ?l" using assms by (auto simp: line_text_def)
  have tr: "trimmed ?l" using assms by (auto simp: trimmed_def)
  have bom: "skip_bom k (?l @ [NL]) = ?l @ [NL]" for k
    using assms take3_append [of n "CHR ''=''" "v @ [NL]"] by (force simp: skip_bom_def)
  obtain x xs where n: "n = x # xs" using assms by (cases n) auto
  have "lskip (rstrip (skip_bom (lineno st + 1) (cstr (?l @ [NL])))) = ?l"
    using strip_line [OF line_text_cstr(1) [OF lt] tr] by (simp only: cstr_line [OF lt] bom)
  with n assms show ?thesis by (simp add: ini_line_def)
qed

lemma strip_head: "is_cstr (c # s) \<Longrightarrow> \<not> isspace c \<Longrightarrow> \<exists>t. lskip (rstrip (c # s)) = c # t"
  by (auto simp: rstrip_rev lskip_dropWhile is_cstr_simps dropWhile_append)

lemma ini_line_comment:
  assumes "ini_item_ok (Ini_comment t)"
  shows "ini_line h (ini_item_text (Ini_comment t) @ [NL]) st = st\<lparr>lineno := lineno st + 1\<rparr>"
proof -
  have "line_text (CHR '';'' # t @ [])" using assms by (auto simp: line_text_def)
  then have c: "cstr (CHR '';'' # t @ [NL]) = CHR '';'' # t @ [NL]" using cstr_line by fastforce
  have "is_cstr (CHR '';'' # t @ [NL])" using assms by (auto simp: is_cstr_def line_text_def)
  then obtain u where "lskip (rstrip (CHR '';'' # t @ [NL])) = CHR '';'' # u"
    using strip_head [of "CHR '';''"] by force
  with c show ?thesis by (simp add: ini_line_def skip_bom_def)
qed

lemma ini_line_section:
  assumes "ini_item_ok (Ini_section s)"
  shows "ini_line h (ini_item_text (Ini_section s) @ [NL]) st =
           st\<lparr>lineno := lineno st + 1, section_buf := strncpy0 (section_buf st) MAX_SECTION s MAX_SECTION,
              prev_name_buf := (prev_name_buf st)[0 := NUL]\<rparr>"
proof -
  let ?l = "CHR ''['' # s @ '']''"
  have lt: "line_text ?l" using assms by (auto simp: line_text_def)
  have "trimmed ?l" by (simp add: trimmed_def)
  then have "lskip (rstrip (?l @ [NL])) = ?l" using strip_line [OF line_text_cstr(1) [OF lt]] by blast
  moreover have "find_char_or_comment (s @ '']'') CHR '']'' = (s, '']'')"
    using assms find_from_stop [of False s "CHR '']''" "[]"]
    by (simp add: find_char_or_comment_def no_comment_def)
  ultimately show ?thesis using cstr_line [OF lt]
    by (simp add: ini_line_def skip_bom_def ini_section_line_def)
qed

lemma ini_loop_step:
  assumes "NL \<notin> set l" and "length l < 511"
  shows "ini_loop h (l @ NL # f) st =
           (if ini_error (ini_line h (l @ [NL]) st) \<noteq> 0 then ini_line h (l @ [NL]) st
            else ini_loop h f (ini_line h (l @ [NL]) st))"
  by (subst ini_loop.simps) (simp add: fgets_line [OF assms] Let_def)

lemma ini_item_text_ok: "ini_item_ok i \<Longrightarrow> NL \<notin> set (ini_item_text i) \<and> length (ini_item_text i) < 511"
  by (cases i) (auto simp: line_text_def)

lemma ini_loop_items:
  assumes "\<forall>i\<in>set items. ini_item_ok i" and "section_ok (section_buf st)" and "ini_error st = 0" and "0 \<le> lineno st"
  shows "(user (ini_loop h (ini_text items) st), ini_error (ini_loop h (ini_text items) st)) =
           ini_spec h items (cstr (section_buf st)) (lineno st + 1) (user st)"
  using assms
proof (induction items arbitrary: st)
  case Nil
  then show ?case by (simp add: ini_text_def ini_loop.simps fgets_def)
next
  case (Cons i items)
  have itxt: "ini_text (i # items) = ini_item_text i @ NL # ini_text items" by (simp add: ini_text_def)
  note step = ini_loop_step [OF conjunct1 [OF ini_item_text_ok] conjunct2 [OF ini_item_text_ok], of i h "ini_text items" st]
  have ok: "ini_item_ok i" and oks: "\<forall>i\<in>set items. ini_item_ok i" using Cons.prems by auto
  define S where "S = ini_line h (ini_item_text i @ [NL]) st"
  note step = step [OF ok ok, folded itxt S_def]
  show ?case
  proof (cases i)
    case (Ini_section s)
    have e: "S = st\<lparr>lineno := lineno st + 1, section_buf := strncpy0 (section_buf st) MAX_SECTION s MAX_SECTION,
              prev_name_buf := (prev_name_buf st)[0 := NUL]\<rparr>"
      unfolding S_def using ini_line_section ok Ini_section by blast
    have "is_cstr s" "length s < MAX_SECTION" using ok Ini_section line_text_cstr by auto
    then have "cstr (section_buf S) = s" using Cons.prems(2) by (simp add: e strncpy0_cstr)
    with Cons.IH [of S] oks Cons.prems step Ini_section show ?thesis
      by (simp add: e strncpy0_ok)
  next
    case (Ini_comment t)
    have e: "S = st\<lparr>lineno := lineno st + 1\<rparr>"
      unfolding S_def using ini_line_comment ok Ini_comment by blast
    from Cons.IH [of S] oks Cons.prems step Ini_comment show ?thesis
      by (simp add: e)
  next
    case (Ini_entry n v)
    have nv: "ini_name_value (n @ CHR ''='' # v) = Some (n, v)" using ini_entry_line ok Ini_entry by blast
    have e: "S = ini_name_line h (n @ CHR ''='' # v) (st\<lparr>lineno := lineno st + 1\<rparr>)"
      unfolding S_def using ini_line_entry ok Ini_entry by blast
    from Cons.IH [of S] oks Cons.prems step Ini_entry show ?thesis
      by (auto simp: e ini_name_line_def nv Let_def split: prod.splits)
  qed
qed

lemma ini_start_ok: "section_ok (section_buf (ini_start u))" "cstr (section_buf (ini_start u)) = []"
  by (simp_all add: ini_start_def section_ok_def cstr_def)

text \<open>
  C15. Parsing a well-formed configuration file does what the file says: the handler is called
  once for every entry, in order, with the name and value as written and the name of the
  section they stand under, and parsing stops with the line number of the first entry the
  handler rejects (0 when it accepts them all). The handler and its state are arbitrary.
\<close>

theorem ini_parse_file_core_spec:
  assumes "\<forall>i\<in>set items. ini_item_ok i"
  shows "(user (ini_parse_file_core h (ini_text items) u), ini_error (ini_parse_file_core h (ini_text items) u)) =
           ini_spec h items [] 1 u"
  using ini_loop_items [OF assms ini_start_ok(1), of u h]
  by (simp add: ini_parse_file_core_def ini_start_ok) (simp add: ini_start_def)

definition ini_example :: "ini_item list" where
  "ini_example = [Ini_comment ''cfg'', Ini_section ''ChildProcessSettings'', Ini_entry ''MinHeap'' ''-Xms = 4;g'']"

theorem ini_parse_file_core_spec_witness:
  "(user (ini_parse_file_core (\<lambda>u s n v. (u @ [(s, n, v)], 1)) (ini_text ini_example) []),
    ini_error (ini_parse_file_core (\<lambda>u s n v. (u @ [(s, n, v)], 1)) (ini_text ini_example) [])) =
   ([(''ChildProcessSettings'', ''MinHeap'', ''-Xms = 4;g'')], 0)"
proof -
  have "\<forall>i\<in>set ini_example. ini_item_ok i" by code_simp
  note ini_parse_file_core_spec [OF this, of "\<lambda>u s n v. (u @ [(s, n, v)], 1)" "[]"]
  then show ?thesis by (simp add: ini_example_def)
qed

text \<open>
  C24. Whatever the file holds, every call the handler receives carries a section name that
  fits the 50-byte array, and a name and a value without blanks at either end; no argument
  runs past a terminator.
\<close>

theorem ini_calls_ok:
  "list_all call_ok (snd (user (ini_parse_file_core (log_handler h) f (u, []))))"
proof -
  have "log_inv (ini_start (u, []))" using ini_start_ok by (auto simp: log_inv_def ini_start_def)
  from ini_loop_log_inv [OF this, of h f] show ?thesis
    by (simp add: log_inv_def ini_parse_file_core_def list_all_iff)
qed

text \<open>
  \<open>ini_parse\<close> either returns 0 and reports nothing, or returns -1 and reports exactly
  one error; the reports \<open>ini_parse_file_core\<close> has for later errors are never made.
\<close>

theorem ini_parse_result:
  "case ini_parse h f ce u of (u', rc, errs) \<Rightarrow> (rc = 0 \<and> errs = []) \<or> (rc = -1 \<and> length errs = 1)"
proof (cases f)
  case (Inr t)
  have "err_codes (ini_parse_file_core h t u) = []"
    using ini_loop_errs [of "ini_start u" h t] by (simp add: ini_parse_file_core_def) (simp add: ini_start_def)
  with Inr show ?thesis by (simp add: ini_parse_def Let_def)
qed (simp add: ini_parse_def)

end
