(* ===== verification/Logger.thy ===== *)
theory Logger
  imports IniParser
begin

text \<open>
  The logger of \<open>log.cpp\<close>: its static variables are a record, what it writes to the standard
  streams and to the system log is the record's list of effects, in order.
\<close>

section \<open>Levels\<close>

datatype logging_level = FATAL | ERR | WARN | INFO | DEBUG | TRACE

fun level_char :: "logging_level \<Rightarrow> nat" where
  "level_char FATAL = 6"
| "level_char ERR = 5"
| "level_char WARN = 4"
| "level_char INFO = 3"
| "level_char DEBUG = 2"
| "level_char TRACE = 1"

lemma level_char_inj: "level_char a = level_char b \<Longrightarrow> a = b"
  by (cases a; cases b) auto

text \<open>The comparison \<open>(char) level < (char) loggingLevel\<close> is a linear order.\<close>

instantiation logging_level :: linorder
begin

definition less_logging_level :: "logging_level \<Rightarrow> logging_level \<Rightarrow> bool" where
  "less_logging_level a b = (level_char a < level_char b)"

definition less_eq_logging_level :: "logging_level \<Rightarrow> logging_level \<Rightarrow> bool" where
  "less_eq_logging_level a b = (level_char a \<le> level_char b)"

instance
  by standard (auto simp: less_logging_level_def less_eq_logging_level_def level_char_inj)

end

definition DEFAULT_LOGGING_LEVEL :: logging_level where
  "DEFAULT_LOGGING_LEVEL = INFO"

section \<open>The logger's state\<close>

datatype log_effect =
    Openlog string
  | Out_line string
  | Err_line string
  | Syslog string string

record logger =
  loggingLevel :: logging_level
  s_progname :: string
  s_syslogging_enabled :: bool
  openlog_armed :: bool   \<comment> \<open>\<open>s_call_openlog\<close> has not been replaced by the empty function\<close>
  syslog_armed :: bool    \<comment> \<open>the same of \<open>s_syslog\<close>\<close>
  effects :: "log_effect list"

definition logger_init :: logger where
  "logger_init = \<lparr>loggingLevel = DEFAULT_LOGGING_LEVEL, s_progname = [], s_syslogging_enabled = True,
     openlog_armed = True, syslog_armed = True, effects = []\<rparr>"

definition call_openlog :: "bool \<Rightarrow> logger \<Rightarrow> logger" where
  "call_openlog is_enabled lg =
     (if openlog_armed lg \<and> is_enabled then lg\<lparr>effects := effects lg @ [Openlog (s_progname lg)]\<rparr> else lg)"

definition set_progname :: "string \<Rightarrow> logger \<Rightarrow> logger" where
  "set_progname progname lg =
     (let lg = lg\<lparr>s_progname := progname\<rparr>;
          lg = call_openlog (s_syslogging_enabled lg) lg
      in lg\<lparr>openlog_armed := False\<rparr>)"

definition set_syslogging :: "bool \<Rightarrow> logger \<Rightarrow> logger" where
  "set_syslogging is_enabled lg =
     (let lg = lg\<lparr>s_syslogging_enabled := is_enabled\<rparr>;
          lg = call_openlog is_enabled lg;
          lg = lg\<lparr>openlog_armed := False\<rparr>
      in if \<not> is_enabled then lg\<lparr>syslog_armed := False\<rparr> else lg)"

definition get_level :: "logger \<Rightarrow> logging_level" where
  "get_level lg = loggingLevel lg"

definition set_level :: "logging_level \<Rightarrow> logger \<Rightarrow> logger" where
  "set_level level lg = lg\<lparr>loggingLevel := level\<rparr>"

section \<open>Level names\<close>

definition log_ltrim :: "string \<Rightarrow> string" where
  "log_ltrim s = dropWhile isspace s"

definition log_rtrim :: "string \<Rightarrow> string" where
  "log_rtrim s = rev (dropWhile isspace (rev s))"

definition log_trim :: "string \<Rightarrow> string" where
  "log_trim s = log_ltrim (log_rtrim s)"

definition str_to_level :: "string \<Rightarrow> logging_level" where
  "str_to_level logging_level =
     (let log_level = map toupper (log_trim logging_level) in
      if log_level = ''TRACE'' then TRACE
      else if log_level = ''DEBUG'' then DEBUG
      else if log_level = ''INFO'' then INFO
      else if log_level = ''WARN'' then WARN
      else if log_level = ''ERR'' then ERR
      else if log_level = ''FATAL'' then FATAL
      else DEFAULT_LOGGING_LEVEL)"

fun level_name :: "logging_level \<Rightarrow> string" where
  "level_name FATAL = ''FATAL''"
| "level_name ERR = ''ERR''"
| "level_name WARN = ''WARN''"
| "level_name INFO = ''INFO''"
| "level_name DEBUG = ''DEBUG''"
| "level_name TRACE = ''TRACE''"

section \<open>Writing a message\<close>

fun levelstr :: "logging_level \<Rightarrow> string" where
  "levelstr FATAL = '': FATAL: ''"
| "levelstr ERR = '': ERROR: ''"
| "levelstr WARN = '': WARN: ''"
| "levelstr INFO = '': INFO: ''"
| "levelstr DEBUG = '': DEBUG: ''"
| "levelstr TRACE = '': TRACE: ''"

definition to_stderr :: "logging_level \<Rightarrow> bool" where
  "to_stderr level = (level \<in> {FATAL, ERR, WARN})"

definition syslog_level :: "logging_level \<Rightarrow> string option" where
  "syslog_level level = (case level of FATAL \<Rightarrow> Some ''FATAL'' | ERR \<Rightarrow> Some ''ERROR'' | _ \<Rightarrow> None)"

definition log_buffer :: "string \<Rightarrow> logging_level \<Rightarrow> string \<Rightarrow> string" where
  \<comment> \<open>the bytes of \<open>strbuf\<close>: \<open>text\<close> is what the format produces, the first attempt has
      \<open>DEFAULT_STRBUF_SIZE\<close> bytes for it, the second exactly enough\<close>
  "log_buffer progname level text =
     (let prefix = progname @ levelstr level;
          msgbuf_size = 256;
          (n, msg) = snprintf msgbuf_size text;
          (n, msg) = (if n \<ge> msgbuf_size then snprintf (n + 1) text else (n, msg))
      in prefix @ take n msg @ [NL])"

definition vlog :: "logging_level \<Rightarrow> string \<Rightarrow> logger \<Rightarrow> logger" where
  "vlog level text lg =
     (if level < loggingLevel lg then lg
      else
        (let strbuf = log_buffer (s_progname lg) level text;
             len = length (s_progname lg) + length (levelstr level);
             lg = lg\<lparr>effects := effects lg @ [if to_stderr level then Err_line strbuf else Out_line strbuf]\<rparr>
         in case syslog_level level of
              Some name \<Rightarrow>
                if syslog_armed lg then lg\<lparr>effects := effects lg @ [Syslog name (drop len strbuf)]\<rparr> else lg
            | None \<Rightarrow> lg))"

definition log_msg :: "logging_level \<Rightarrow> string \<Rightarrow> logger \<Rightarrow> logger" where
  "log_msg level text lg = (if level < loggingLevel lg then lg else vlog level text lg)"

definition logm :: "logging_level \<Rightarrow> string \<Rightarrow> logger \<Rightarrow> logger" where
  "logm level msg lg = log_msg level msg lg"

lemma log_buffer_complete: "log_buffer p level text = p @ levelstr level @ text @ [NL]"
  by (auto simp: log_buffer_def snprintf_def Let_def)

lemma log_msg_effects_aux:
  "effects (log_msg level text lg) = effects lg @
     (if loggingLevel lg \<le> level
      then (let line = s_progname lg @ levelstr level @ text @ [NL] in
              [if WARN \<le> level then Err_line line else Out_line line] @
              (if ERR \<le> level \<and> syslog_armed lg
               then [Syslog (if level = ERR then ''ERROR'' else ''FATAL'') (text @ [NL])] else []))
      else [])"
  by (cases level)
     (auto simp: log_msg_def vlog_def log_buffer_complete to_stderr_def syslog_level_def Let_def not_less
        less_eq_logging_level_def less_logging_level_def)

text \<open>
  A message is written exactly when its level is at least the logger's, once and in full
  whatever its length, on standard error for warnings and above, and goes to the system log
  exactly for errors and fatal errors while system logging has not been disabled.
\<close>

theorem log_msg_effects:
  "effects (log_msg level text lg) = effects lg @
     (if loggingLevel lg \<le> level
      then (let line = s_progname lg @ levelstr level @ text @ [NL] in
              [if WARN \<le> level then Err_line line else Out_line line] @
              (if ERR \<le> level \<and> syslog_armed lg
               then [Syslog (if level = ERR then ''ERROR'' else ''FATAL'') (text @ [NL])] else []))
      else [])"
  by (rule log_msg_effects_aux)

section \<open>Any sequence of calls\<close>

datatype log_call = Set_progname string | Set_syslogging bool | Log_call logging_level string | Set_level logging_level

fun log_call_step :: "logger \<Rightarrow> log_call \<Rightarrow> logger" where
  "log_call_step lg (Set_progname p) = set_progname p lg"
| "log_call_step lg (Set_syslogging b) = set_syslogging b lg"
| "log_call_step lg (Log_call l t) = log_msg l t lg"
| "log_call_step lg (Set_level l) = set_level l lg"

definition is_openlog :: "log_effect \<Rightarrow> bool" where
  "is_openlog e = (case e of Openlog i \<Rightarrow> True | _ \<Rightarrow> False)"

definition is_syslog :: "log_effect \<Rightarrow> bool" where
  "is_syslog e = (case e of Syslog l m \<Rightarrow> True | _ \<Rightarrow> False)"

definition log_once :: "logger \<Rightarrow> bool" where
  "log_once lg = (length (filter is_openlog (effects lg)) \<le> (if openlog_armed lg then 0 else 1))"

definition log_silent :: "log_effect list \<Rightarrow> logger \<Rightarrow> bool" where
  "log_silent k lg = (\<not> syslog_armed lg \<and> filter is_syslog (effects lg) = k)"

lemma log_msg_openlogs: "filter is_openlog (effects (log_msg l t lg)) = filter is_openlog (effects lg)"
  by (auto simp: log_msg_effects_aux is_openlog_def Let_def)

lemma log_msg_fields:
  "openlog_armed (log_msg l t lg) = openlog_armed lg" "syslog_armed (log_msg l t lg) = syslog_armed lg"
  by (auto simp: log_msg_def vlog_def Let_def split: option.splits)

interpretation once: event_machine log_call_step log_once
proof unfold_locales
  fix lg e
  assume "log_once lg"
  then show "log_once (log_call_step lg e)"
    by (cases e) (auto simp: log_once_def log_msg_openlogs log_msg_fields set_progname_def set_level_def
        set_syslogging_def call_openlog_def is_openlog_def Let_def split: if_splits)
qed

interpretation silent: event_machine log_call_step "log_silent k" for k
proof unfold_locales
  fix lg e
  assume "log_silent k lg"
  then show "log_silent k (log_call_step lg e)"
    by (cases e) (auto simp: log_silent_def log_msg_effects_aux log_msg_fields set_progname_def set_level_def
        set_syslogging_def call_openlog_def is_syslog_def Let_def)
qed

text \<open>
  Whatever calls the program makes, \<open>openlog\<close> runs at most once.
\<close>

theorem openlog_once:
  "length (filter is_openlog (effects (foldl log_call_step logger_init calls))) \<le> 1"
proof -
  have "log_once logger_init" by (simp add: log_once_def logger_init_def)
  from once.run_inv [OF this, of calls] show ?thesis by (simp add: log_once_def split: if_splits)
qed

lemma set_syslogging_final:
  "filter is_syslog (effects (foldl log_call_step (set_syslogging False lg) calls)) =
   filter is_syslog (effects lg)"
proof -
  have "log_silent (filter is_syslog (effects lg)) (set_syslogging False lg)"
    by (simp add: log_silent_def set_syslogging_def call_openlog_def is_syslog_def Let_def)
  from silent.run_inv [OF this, of calls] show ?thesis by (simp add: log_silent_def)
qed

lemma toupper_tolower: "toupper (tolower c) = toupper c"
  by (auto simp: toupper_def of_char_tolower Let_def) (auto simp: tolower_def)

lemma dropWhile_blanks: "\<forall>c\<in>set a. P c \<Longrightarrow> s \<noteq> [] \<Longrightarrow> \<not> P (hd s) \<Longrightarrow> dropWhile P (a @ s) = s"
  by (cases s) (auto simp: dropWhile_append)

lemma log_trim_blanks:
  assumes "\<forall>c\<in>set a. isspace c" and "\<forall>c\<in>set b. isspace c" and "\<forall>c\<in>set s. \<not> isspace c" and "s \<noteq> []"
  shows "log_trim (a @ s @ b) = s"
proof -
  have "dropWhile isspace (rev b @ rev s @ rev a) = rev s @ rev a"
    by (rule dropWhile_blanks) (use assms in \<open>auto simp: hd_append hd_rev\<close>)
  moreover have "dropWhile isspace (a @ s) = s"
    by (rule dropWhile_blanks) (use assms in auto)
  ultimately show ?thesis by (simp add: log_trim_def log_ltrim_def log_rtrim_def)
qed

lemma level_name_facts:
  "\<forall>c\<in>set (level_name l). \<not> isspace c" "map toupper (level_name l) = level_name l"
  by (cases l; simp add: isspace_def toupper_def)+

text \<open>
  A level's name, in any letter case and with any blanks around it, reads back as the level.
\<close>

theorem str_to_level_name:
  assumes "strcaseeq name (level_name level)" and "\<forall>c\<in>set a. isspace c" and "\<forall>c\<in>set b. isspace c"
  shows "str_to_level (a @ name @ b) = level"
proof -
  have m: "map tolower name = map tolower (level_name level)" using assms(1) by (simp add: strcaseeq_def)
  have "isspace ` set name = isspace ` set (map tolower name)" by (simp add: image_image)
  also have "\<dots> = isspace ` set (level_name level)" by (simp only: m) (simp add: image_image)
  finally have sp: "\<forall>c\<in>set name. \<not> isspace c" using level_name_facts(1) [of level] by (metis image_iff)
  have "map toupper name = map toupper (map tolower name)" by (simp add: toupper_tolower)
  also have "\<dots> = level_name level" by (simp only: m) (simp add: toupper_tolower comp_def level_name_facts)
  finally have "map toupper (log_trim (a @ name @ b)) = level_name level"
    using log_trim_blanks [OF assms(2,3) sp] m by (cases level) auto
  then show ?thesis by (cases level) (simp_all add: str_to_level_def)
qed

theorem str_to_level_name_witness: "str_to_level ''  Debug '' = DEBUG"
proof -
  have "strcaseeq ''Debug'' (level_name DEBUG)" by code_simp
  moreover have "\<forall>c\<in>set ''  ''. isspace c" "\<forall>c\<in>set '' ''. isspace c" by code_simp+
  ultimately show ?thesis using str_to_level_name [of "''Debug''" DEBUG "''  ''" "'' ''"] by simp
qed

end
