(* ===== verification/ProgramPath.thy ===== *)
theory ProgramPath
  imports Logger
begin

text \<open>
  The search for a program's file in \<open>launch-program.cpp\<close> and the choice of the configuration
  directory in \<open>session-state.cpp\<close>. The environment is given by what \<open>getenv\<close>, \<open>stat\<close> and
  \<open>lstat\<close> answer.
\<close>

section \<open>find_program_path\<close>

datatype launch_error =
    Find_program_path string
  | Create_uds_socket
  | Bind_uds_socket_name
  | Obtain_rsp_stream
  | Fork_error
  | Interrupted
  | Open_write_pipe
  | Make_fifo_pipe_name

definition S_IFLNK :: "32 word" where "S_IFLNK = 0xA000"

unbundle bit_operations_syntax

definition is_file_or_link :: "file_env \<Rightarrow> string \<Rightarrow> bool" where
  "is_file_or_link env path =
     (case stat_mode env path of
        None \<Rightarrow> False
      | Some mode \<Rightarrow> mode AND S_IFMT = S_IFREG \<or> mode AND S_IFMT = S_IFLNK)"

definition get_env_var :: "(string \<Rightarrow> string option) \<Rightarrow> string \<Rightarrow> string" where
  "get_env_var getenv name = (case getenv name of Some v \<Rightarrow> v | None \<Rightarrow> [])"

definition candidate_path :: "string \<Rightarrow> string \<Rightarrow> string" where
  "candidate_path path prog =
     (let end_char = path ! (length path - 1) in
      format2str (if end_char = CHR ''/'' then path @ prog else path @ ''/'' @ prog))"

function find_in_path :: "file_env \<Rightarrow> string \<Rightarrow> string \<Rightarrow> string option" where
  \<comment> \<open>the loop over the directories of the variable, with \<open>strtok_r\<close>'s save pointer\<close>
  "find_in_path env prog save =
     (case strtok_r '':'' save of
        None \<Rightarrow> None
      | Some (path, save') \<Rightarrow>
          (let full_path = candidate_path path prog in
           if is_file_or_link env full_path then Some full_path else find_in_path env prog save'))"
  by pat_completeness auto
termination
  by (relation "measure (\<lambda>(e, p, s). length s)") (auto dest: strtok_r_less)

declare find_in_path.simps [simp del]

definition find_program_path ::
  "file_env \<Rightarrow> (string \<Rightarrow> string option) \<Rightarrow> string \<Rightarrow> string \<Rightarrow> launch_error + string" where
  "find_program_path env getenv prog path_var_name =
     (let path_env_var = get_env_var getenv path_var_name in
      if path_env_var = []
      then Inl (Find_program_path (format2str (''there is no '' @ path_var_name @ '' environment variable defined'')))
      else (case find_in_path env prog path_env_var of
              Some full_path \<Rightarrow> Inr full_path
            | None \<Rightarrow> Inl (Find_program_path (format2str
                (''could not locate program '' @ CHR 0x27 # prog @ CHR 0x27 # '' via '' @ path_var_name @
                 '' environment variable'')))))"

definition try_resolve_program_path ::
  "file_env \<Rightarrow> (string \<Rightarrow> string option) \<Rightarrow> string \<Rightarrow> string \<Rightarrow> string \<times> bool" where
  "try_resolve_program_path env getenv prog path_var_name =
     (case find_program_path env getenv prog path_var_name of
        Inr p \<Rightarrow> (p, True)
      | Inl (Find_program_path msg) \<Rightarrow> (prog, False)
      | Inl e \<Rightarrow> (prog, False))"

lemma find_in_path_find:
  "find_in_path env prog s =
     find (is_file_or_link env) (map (\<lambda>d. candidate_path d prog) (strtoks '':'' s))"
proof (induction env prog s rule: find_in_path.induct)
  case (1 env prog s)
  then show ?case
    by (cases "strtok_r '':'' s") (auto simp: find_in_path.simps [of env prog s] strtoks.simps [of _ s] Let_def)
qed

text \<open>
  C37. The program found is the first entry of the colon-separated variable whose directory
  holds a file of that name; empty entries are skipped, and the search fails exactly when the
  variable is unset or empty or no directory has the file.
\<close>

theorem find_program_path_first:
  "(case find_program_path env getenv prog var of Inr p \<Rightarrow> Some p | Inl e \<Rightarrow> None) =
     find (is_file_or_link env)
       (map (\<lambda>d. candidate_path d prog) (str_split (get_env_var getenv var) CHR '':'' 0))"
  by (auto simp: find_program_path_def Let_def str_split_strtoks find_in_path_find strtoks_Nil
      split: option.splits)

section \<open>get_cfg_dir\<close>

definition strip_slashes :: "string \<Rightarrow> string" where
  "strip_slashes s = rev (dropWhile (\<lambda>c. c = CHR ''/'') (rev s))"

definition dirname :: "string \<Rightarrow> string" where
  \<comment> \<open>the C library's \<open>dirname\<close>\<close>
  "dirname path =
     (let p = strip_slashes path in
      if p = [] then (if path = [] then ''.'' else ''/'')
      else (case strrsplit CHR ''/'' p of
              None \<Rightarrow> ''.''
            | Some (d, b) \<Rightarrow> (let d = strip_slashes d in if d = [] then ''/'' else d)))"

definition get_cfg_dir ::
  "file_env \<Rightarrow> (string \<Rightarrow> 32 word option) \<Rightarrow> (string \<Rightarrow> string option) \<Rightarrow> string \<Rightarrow> string \<Rightarrow> string \<Rightarrow>
   string option" where
  \<comment> \<open>\<open>None\<close>: the returned string is built from the destroyed \<open>progdirpath\<close>\<close>
  "get_cfg_dir env lstat_mode getenv executable_dir progpath cfg_file =
     (let progfullpath = progpath; statbuf = lstat_mode progfullpath;
          (progfullpath, statbuf) =
            (if statbuf = None
             then (case try_resolve_program_path env getenv progpath ''PATH'' of
                     (p, ok) \<Rightarrow> if ok then (p, lstat_mode p) else (progfullpath, statbuf))
             else (progfullpath, statbuf))
      in case statbuf of
           None \<Rightarrow> Some executable_dir
         | Some mode \<Rightarrow>
             (if mode AND S_IFMT = S_IFLNK
              then (let progdirpath = dirname progfullpath; cfg_path = progdirpath @ ''/'' @ cfg_file in
                    case stat_mode env cfg_path of
                      Some m \<Rightarrow> if m AND S_IFMT = S_IFREG then None else Some executable_dir
                    | None \<Rightarrow> Some executable_dir)
              else Some executable_dir))"

text \<open>
  Whenever the lookup reads no destroyed string, the directory is the executable's own.
\<close>

theorem get_cfg_dir_result: "get_cfg_dir env lst getenv exe prog cfg \<in> {Some exe, None}"
  by (auto simp: get_cfg_dir_def Let_def split: option.splits prod.splits if_splits)

text \<open>
  For a program started through a symbolic link with a configuration file beside the link
  the directory of the link, which the function means to return, is read after its string is
  destroyed.
\<close>

theorem get_cfg_dir_dangling:
  assumes "lst prog = Some m" and "m AND S_IFMT = S_IFLNK"
    and "stat_mode env (dirname prog @ ''/'' @ cfg) = Some k" and "k AND S_IFMT = S_IFREG"
  shows "get_cfg_dir env lst getenv exe prog cfg = None"
  using assms by (simp add: get_cfg_dir_def Let_def)

definition link_env :: file_env where
  "link_env = \<lparr>stat_mode = (\<lambda>p. if p = ''/opt/links/config.ini'' then Some 0x81A4 else None),
     file_text = (\<lambda>p. Inl 2), fclose_errno = (\<lambda>p. 0)\<rparr>"

theorem get_cfg_dir_dangling_witness:
  "get_cfg_dir link_env (\<lambda>p. Some 0xA1FF) (\<lambda>v. None) ''/usr/lib/app'' ''/opt/links/app'' ''config.ini'' = None"
proof -
  have "dirname ''/opt/links/app'' = ''/opt/links''" by code_simp
  then have d: "stat_mode link_env (dirname ''/opt/links/app'' @ ''/'' @ ''config.ini'') = Some 0x81A4"
    by (simp add: link_env_def)
  show ?thesis
    by (rule get_cfg_dir_dangling [where m = "0xA1FF" and k = "0x81A4", OF refl _ d])
       (simp_all add: S_IFMT_def S_IFLNK_def S_IFREG_def)
qed

end
