(* ===== verification/UdsPipes.thy ===== *)
theory UdsPipes
  imports ProgramPath
begin

text \<open>
  How a response stream gets from the process that runs a command to the one that asked for
  it: the abstract unix datagram sockets of \<open>launch-program.cpp\<close> and the anonymous pipes of
  \<open>open-anon-pipes.cpp\<close>. A process is its table of open descriptors; a descriptor that travels
  in a datagram is the file it stands for. Messages of exceptions are left out. The asserts
  are the release build's.
\<close>

section \<open>Descriptors\<close>

datatype fdesc = Pipe_rd nat | Pipe_wr nat | Sock "string option" \<comment> \<open>the address it is bound to\<close>

datatype datagram = Pid_msg int int | Rights "fdesc list"

record os_state =
  os_bound :: "string \<rightharpoonup> datagram list" \<comment> \<open>what waits at a bound address\<close>
  os_pipes :: nat \<comment> \<open>the number of pipes made so far\<close>

record process =
  pr_pid :: int
  pr_limit :: nat \<comment> \<open>\<open>RLIMIT_NOFILE\<close>\<close>
  pr_fds :: "fdesc option list"

type_synonym sys = "os_state \<times> process"

fun fd_alloc :: "nat \<Rightarrow> 'a \<Rightarrow> 'a option list \<Rightarrow> (nat \<times> 'a option list) option" where
  \<comment> \<open>the lowest free descriptor\<close>
  "fd_alloc 0 e xs = None"
| "fd_alloc (Suc lim) e [] = Some (0, [Some e])"
| "fd_alloc (Suc lim) e (None # xs) = Some (0, Some e # xs)"
| "fd_alloc (Suc lim) e (Some x # xs) = map_option (\<lambda>(n, ys). (Suc n, Some x # ys)) (fd_alloc lim e xs)"

definition fd_at :: "'a option list \<Rightarrow> nat \<Rightarrow> 'a option" where
  "fd_at xs n = (if n < length xs then xs ! n else None)"

lemma fd_at_simps [simp]: "fd_at [] n = None" "fd_at (x # xs) 0 = x" "fd_at (x # xs) (Suc n) = fd_at xs n"
  by (auto simp: fd_at_def)

lemma fd_alloc_at:
  "fd_alloc lim e xs = Some (n, ys) \<Longrightarrow> fd_at xs n = None \<and> fd_at ys = (fd_at xs)(n \<mapsto> e) \<and> n < lim"
proof (induction lim e xs arbitrary: n ys rule: fd_alloc.induct)
  case (4 lim e x xs)
  then obtain m zs where "fd_alloc lim e xs = Some (m, zs)" and n: "n = Suc m" and ys: "ys = Some x # zs"
    by auto
  with 4 have i: "fd_at xs m = None" "fd_at zs = (fd_at xs)(m \<mapsto> e)" "m < lim" by auto
  have "fd_at ys k = ((fd_at (Some x # xs))(n \<mapsto> e)) k" for k
    using i(2) by (cases k) (auto simp: ys n)
  then show ?case using i by (auto simp: n)
qed (auto simp: fun_eq_iff fd_at_def nth_Cons')

lemma fd_at_close [simp]: "fd_at (xs[n := None]) = (fd_at xs)(n := None)"
  by (auto simp: fd_at_def fun_eq_iff nth_list_update)

section \<open>Statements that throw and change the system\<close>

type_synonym 'a act = "sys \<Rightarrow> (launch_error + 'a) \<times> sys"

definition close_fd :: "nat \<Rightarrow> sys \<Rightarrow> sys" where
  \<comment> \<open>\<open>close\<close>; a bound socket takes its address with it\<close>
  "close_fd fd s =
     (let (os, p) = s;
          os = (case fd_at (pr_fds p) fd of
                  Some (Sock (Some a)) \<Rightarrow> os\<lparr>os_bound := (os_bound os)(a := None)\<rparr>
                | _ \<Rightarrow> os)
      in (os, p\<lparr>pr_fds := (pr_fds p)[fd := None]\<rparr>))"

definition fd_cleanup :: "int \<Rightarrow> sys \<Rightarrow> int \<times> sys" where
  \<comment> \<open>\<open>fd_cleanup_no_delete\<close> and \<open>fd_cleanup_with_delete\<close>: the field \<open>fd\<close> after it\<close>
  "fd_cleanup fd s = (if fd \<noteq> -1 then (-1, close_fd (nat fd) s) else (fd, s))"

definition raii :: "nat \<Rightarrow> 'a act \<Rightarrow> 'a act" where
  \<comment> \<open>a smart pointer that goes out of scope after the statements\<close>
  "raii fd m s = (let (r, s) = m s in (r, snd (fd_cleanup (int fd) s)))"

definition raii_moved :: "nat \<Rightarrow> 'a act \<Rightarrow> 'a act" where
  \<comment> \<open>one that is moved out at their end, and so only cleaned up by an exception\<close>
  "raii_moved fd m s = (let (r, s) = m s in (r, case r of Inl e \<Rightarrow> snd (fd_cleanup (int fd) s) | Inr a \<Rightarrow> s))"

section \<open>Socket addresses\<close>

abbreviation sun_path_size :: nat where "sun_path_size \<equiv> 108"

definition init_sockaddr :: "string \<Rightarrow> string \<times> nat" where
  \<comment> \<open>\<open>sun_path\<close> and the length of the address, two bytes of it the family\<close>
  "init_sockaddr uds_sock_name =
     (let path_buf_end = sun_path_size - 1;
          sun_path = take path_buf_end uds_sock_name @ replicate (path_buf_end - length uds_sock_name) NUL @ [NUL];
          sun_path = sun_path[path_buf_end := NUL];
          sun_path = sun_path[0 := NUL]
      in (sun_path, 2 + length uds_sock_name))"

definition sock_addr :: "string \<Rightarrow> string option" where
  \<comment> \<open>the address the kernel sees; a length beyond the structure is refused, as is an unnamed peer\<close>
  "sock_addr uds_sock_name =
     (let (sun_path, addr_len) = init_sockaddr uds_sock_name
      in if addr_len > 2 + sun_path_size \<or> addr_len \<le> 2 then None else Some (take (addr_len - 2) sun_path))"

definition create_uds_socket :: "nat act" where
  "create_uds_socket s =
     (let (os, p) = s in
      case fd_alloc (pr_limit p) (Sock None) (pr_fds p) of
        None \<Rightarrow> (Inl Create_uds_socket, s)
      | Some (fd, fds) \<Rightarrow> (Inr fd, (os, p\<lparr>pr_fds := fds\<rparr>)))"

definition bind_socket :: "nat \<Rightarrow> string \<Rightarrow> unit act" where
  \<comment> \<open>\<open>bind\<close>: refused for an address in use\<close>
  "bind_socket fd name s =
     (let (os, p) = s in
      case sock_addr name of
        None \<Rightarrow> (Inl Bind_uds_socket_name, s)
      | Some a \<Rightarrow>
          (if os_bound os a \<noteq> None then (Inl Bind_uds_socket_name, s)
           else (Inr (), (os\<lparr>os_bound := (os_bound os)(a \<mapsto> [])\<rparr>, p\<lparr>pr_fds := (pr_fds p)[fd := Some (Sock (Some a))]\<rparr>))))"

definition send_datagram :: "string \<Rightarrow> datagram \<Rightarrow> unit act" where
  \<comment> \<open>\<open>sendto\<close> and \<open>sendmsg\<close>\<close>
  "send_datagram name d s =
     (let (os, p) = s in
      case sock_addr name of
        None \<Rightarrow> (Inl Open_write_pipe, s)
      | Some a \<Rightarrow>
          (case os_bound os a of
             None \<Rightarrow> (Inl Open_write_pipe, s)
           | Some q \<Rightarrow> (Inr (), (os\<lparr>os_bound := (os_bound os)(a \<mapsto> q @ [d])\<rparr>, p))))"

definition uds_bound :: "string \<Rightarrow> nat act" where
  \<comment> \<open>the socket made and bound under a name, in \<open>bind_uds_socket_name\<close> and in \<open>fork2main\<close>\<close>
  "uds_bound name =
     bind_s create_uds_socket (\<lambda>fd. raii_moved fd (bind_s (bind_socket fd name) (\<lambda>u. \<lambda>s. (Inr fd, s))))"

definition bind_uds_socket_name :: "rand_fn \<Rightarrow> nat \<Rightarrow> string \<Rightarrow> sys \<Rightarrow> ((launch_error + nat \<times> string \<times> nat) \<times> sys) option" where
  \<comment> \<open>the socket, its name and the new seed\<close>
  "bind_uds_socket_name rand_r seed progpath s =
     (let progname = basename progpath in
      case make_fifo_pipe_name rand_r seed (pr_pid (snd s)) progname ''JLauncher_UDS'' of
        None \<Rightarrow> None
      | Some (Inl e) \<Rightarrow> Some (Inl Make_fifo_pipe_name, s)
      | Some (Inr (uds_socket_name, seed)) \<Rightarrow>
          Some (bind_s (uds_bound uds_socket_name) (\<lambda>fd s. (Inr (fd, uds_socket_name, seed), s)) s))"

section \<open>open-anon-pipes.cpp\<close>

definition make_anon_pipe :: "(nat \<times> nat) act" where
  \<comment> \<open>\<open>pipe\<close> makes both ends or none\<close>
  "make_anon_pipe s =
     (let (os, p) = s; k = os_pipes os in
      case fd_alloc (pr_limit p) (Pipe_rd k) (pr_fds p) of
        None \<Rightarrow> (Inl Open_write_pipe, s)
      | Some (rd, fds) \<Rightarrow>
          (case fd_alloc (pr_limit p) (Pipe_wr k) fds of
             None \<Rightarrow> (Inl Open_write_pipe, s)
           | Some (wr, fds) \<Rightarrow> (Inr (rd, wr), (os\<lparr>os_pipes := Suc k\<rparr>, p\<lparr>pr_fds := fds\<rparr>))))"

definition send_pid_and_fd_count :: "string \<Rightarrow> int \<Rightarrow> int \<Rightarrow> unit act" where
  "send_pid_and_fd_count uds_socket_name pid fds_count = send_datagram uds_socket_name (Pid_msg pid fds_count)"

definition cmsg_size :: "nat \<Rightarrow> nat" where
  \<comment> \<open>\<open>sizeof(pipe_fds_buffer_t)\<close> and \<open>sizeof(pipes_fds_buffer_t)\<close>: 16 bytes of header and the
      \<open>int\<close>s, rounded up to the alignment of the header, 8\<close>
  "cmsg_size n = (16 + 4 * n + 7) div 8 * 8"

definition cmsg_slots :: "nat \<Rightarrow> nat" where
  \<comment> \<open>the number of descriptors the kernel takes a control message of that size to hold\<close>
  "cmsg_slots n = (cmsg_size n - 16) div 4"

definition send_fds :: "string \<Rightarrow> nat list \<Rightarrow> unit act" where
  \<comment> \<open>the \<open>SCM_RIGHTS\<close> message: its buffer is zero but for the descriptors stored in it, and
      its length is the size of the buffer\<close>
  "send_fds uds_socket_name fds s =
     (let payload = fds @ replicate (cmsg_slots (length fds) - length fds) 0;
          ends = map (fd_at (pr_fds (snd s))) payload
      in if None \<in> set ends then (Inl Open_write_pipe, s)
         else send_datagram uds_socket_name (Rights (map the ends)) s)"

definition open_write_anon_pipe :: "string \<Rightarrow> nat act" where
  "open_write_anon_pipe uds_socket_name =
     bind_s create_uds_socket (\<lambda>socket_fd. raii socket_fd (
     bind_s make_anon_pipe (\<lambda>(rdr_rd, rdr_wr). raii rdr_rd (raii_moved rdr_wr (\<lambda>s.
       bind_s (send_pid_and_fd_count uds_socket_name (pr_pid (snd s)) 1) (\<lambda>u.
       bind_s (send_fds uds_socket_name [rdr_rd]) (\<lambda>u s. (Inr rdr_wr, s))) s)))))"

definition open_react_anon_pipes :: "string \<Rightarrow> (nat \<times> nat \<times> nat) act" where
  "open_react_anon_pipes uds_socket_name =
     bind_s create_uds_socket (\<lambda>socket_fd. raii socket_fd (
     bind_s make_anon_pipe (\<lambda>(rdr_rd, rdr_wr). raii rdr_rd (raii_moved rdr_wr (
     bind_s make_anon_pipe (\<lambda>(err_rd, err_wr). raii err_rd (raii_moved err_wr (
     bind_s make_anon_pipe (\<lambda>(wrt_rd, wrt_wr). raii wrt_wr (raii_moved wrt_rd (\<lambda>s.
       bind_s (send_pid_and_fd_count uds_socket_name (pr_pid (snd s)) 3) (\<lambda>u.
       bind_s (send_fds uds_socket_name [rdr_rd, err_rd, wrt_wr]) (\<lambda>u s. (Inr (rdr_wr, err_wr, wrt_rd), s))) s)))))))))))"

section \<open>The receiving side\<close>

definition recv_datagram :: "nat \<Rightarrow> sys \<Rightarrow> (datagram option \<times> sys) option" where
  \<comment> \<open>outer \<open>None\<close>: nothing has come yet and the call blocks; inner \<open>None\<close>: it fails\<close>
  "recv_datagram fd s =
     (let (os, p) = s in
      case fd_at (pr_fds p) fd of
        Some (Sock (Some a)) \<Rightarrow>
          (case os_bound os a of
             Some (d # q) \<Rightarrow> Some (Some d, (os\<lparr>os_bound := (os_bound os)(a \<mapsto> q)\<rparr>, p))
           | _ \<Rightarrow> None)
      | Some (Sock None) \<Rightarrow> None
      | _ \<Rightarrow> Some (None, s))"

fun install_fds :: "fdesc list \<Rightarrow> process \<Rightarrow> nat list \<times> process" where
  \<comment> \<open>the kernel gives a received file the lowest free descriptor, as long as there is one\<close>
  "install_fds [] p = ([], p)"
| "install_fds (d # ds) p =
     (case fd_alloc (pr_limit p) d (pr_fds p) of
        None \<Rightarrow> ([], p)
      | Some (fd, fds) \<Rightarrow> (let (ns, p) = install_fds ds (p\<lparr>pr_fds := fds\<rparr>) in (fd # ns, p)))"

definition pipe_fd :: "nat list \<Rightarrow> nat \<Rightarrow> nat" where
  \<comment> \<open>\<open>pipe_fds[i]\<close> of the buffer that was zero before the message came\<close>
  "pipe_fd ns i = (if i < length ns then ns ! i else 0)"

definition receive_fds :: "nat \<Rightarrow> nat \<Rightarrow> sys \<Rightarrow> ((launch_error + nat list) \<times> sys) option" where
  \<comment> \<open>\<open>recvmsg\<close> into a buffer for \<open>n\<close> descriptors, and the checks after it\<close>
  "receive_fds fd n s =
     (case recv_datagram fd s of
        None \<Rightarrow> None
      | Some (Some (Rights ds), (os, p)) \<Rightarrow>
          (let (ns, p) = install_fds (take (cmsg_slots n) ds) p
           in Some (if ns = [] then (Inl Obtain_rsp_stream, (os, p)) else (Inr ns, (os, p))))
      | Some (_, s) \<Rightarrow> Some (Inl Obtain_rsp_stream, s))"

definition recv_pid :: "nat \<Rightarrow> sys \<Rightarrow> ((launch_error + int \<times> int) \<times> sys) option" where
  \<comment> \<open>\<open>recvfrom\<close> into the zero \<open>pid_buffer\<close>\<close>
  "recv_pid fd s =
     (case recv_datagram fd s of
        None \<Rightarrow> None
      | Some (None, s) \<Rightarrow> Some (Inl Obtain_rsp_stream, s)
      | Some (Some d, s) \<Rightarrow>
          (let (pid, fd_rtn_count) = (case d of Pid_msg pid n \<Rightarrow> (pid, n) | Rights ds \<Rightarrow> (0, 0))
           in Some (if fd_rtn_count \<noteq> 1 \<and> fd_rtn_count \<noteq> 3 then (Inl Obtain_rsp_stream, s)
                    else (Inr (pid, fd_rtn_count), s))))"

definition obtain_response_stream ::
  "nat \<Rightarrow> sys \<Rightarrow> ((launch_error + int \<times> nat \<times> nat option \<times> nat option) \<times> sys) option" where
  \<comment> \<open>the argument is the descriptor of the socket, which the function owns\<close>
  "obtain_response_stream socket_read_fd s =
     (case recv_pid socket_read_fd s of
        None \<Rightarrow> None
      | Some (Inl e, s) \<Rightarrow> Some (Inl e, snd (fd_cleanup (int socket_read_fd) s))
      | Some (Inr (pid, fd_rtn_count), s) \<Rightarrow>
          (case receive_fds socket_read_fd (if fd_rtn_count = 1 then 1 else 3) s of
             None \<Rightarrow> None
           | Some (Inl e, s) \<Rightarrow> Some (Inl e, snd (fd_cleanup (int socket_read_fd) s))
           | Some (Inr ns, s) \<Rightarrow>
               Some (Inr (pid, pipe_fd ns 0,
                     if fd_rtn_count = 1 then None else Some (pipe_fd ns 1),
                     if fd_rtn_count = 1 then None else Some (pipe_fd ns 2)),
                 snd (fd_cleanup (int socket_read_fd) s))))"

section \<open>No descriptor is lost\<close>

definition table :: "sys \<Rightarrow> nat \<Rightarrow> fdesc option" where
  "table s = fd_at (pr_fds (snd s))"

definition hoare :: "(nat \<Rightarrow> fdesc option) \<Rightarrow> 'a act \<Rightarrow> ('a \<Rightarrow> (nat \<Rightarrow> fdesc option) \<Rightarrow> bool) \<Rightarrow> (nat \<Rightarrow> fdesc option) \<Rightarrow> bool" where
  \<comment> \<open>from an open table: what a normal end gives, and the table after an exception\<close>
  "hoare T m Q E = (\<forall>s. table s = T \<longrightarrow> (case m s of (Inl e, s') \<Rightarrow> table s' = E | (Inr a, s') \<Rightarrow> Q a (table s')))"

lemma table_close [simp]: "table (close_fd fd s) = (table s)(fd := None)"
  by (simp add: table_def close_fd_def case_prod_beta Let_def)

lemma table_cleanup [simp]: "table (snd (fd_cleanup (int fd) s)) = (table s)(fd := None)"
  by (simp add: fd_cleanup_def)

lemma hoareI:
  assumes "\<And>s e s'. table s = T \<Longrightarrow> m s = (Inl e, s') \<Longrightarrow> table s' = E"
    and "\<And>s a s'. table s = T \<Longrightarrow> m s = (Inr a, s') \<Longrightarrow> Q a (table s')"
  shows "hoare T m Q E"
  unfolding hoare_def
proof (intro allI impI)
  fix s assume t: "table s = T"
  obtain r s' where m: "m s = (r, s')" by (cases "m s")
  show "case m s of (Inl e, s') \<Rightarrow> table s' = E | (Inr a, s') \<Rightarrow> Q a (table s')"
    using assms [OF t] m by (cases r) auto
qed

lemma hoare_Inl: "hoare T m Q E \<Longrightarrow> table s = T \<Longrightarrow> m s = (Inl e, s') \<Longrightarrow> table s' = E"
  unfolding hoare_def by (drule spec [of _ s]) simp

lemma hoare_Inr: "hoare T m Q E \<Longrightarrow> table s = T \<Longrightarrow> m s = (Inr a, s') \<Longrightarrow> Q a (table s')"
  unfolding hoare_def by (drule spec [of _ s]) simp

lemma raii_eq: "raii fd m s = (r, s') \<longleftrightarrow> (\<exists>s1. m s = (r, s1) \<and> s' = close_fd fd s1)"
  by (auto simp: raii_def fd_cleanup_def Let_def split: prod.splits)

lemma raii_moved_Inr: "raii_moved fd m s = (Inr a, s') \<longleftrightarrow> m s = (Inr a, s')"
  by (auto simp: raii_moved_def Let_def split: prod.splits sum.splits)

lemma raii_moved_Inl: "raii_moved fd m s = (Inl e, s') \<longleftrightarrow> (\<exists>s1. m s = (Inl e, s1) \<and> s' = close_fd fd s1)"
  by (auto simp: raii_moved_def fd_cleanup_def Let_def split: prod.splits sum.splits)

lemma hoare_bind: "hoare T m R E \<Longrightarrow> (\<And>a t. R a t \<Longrightarrow> hoare t (f a) Q E) \<Longrightarrow> hoare T (bind_s m f) Q E"
  by (rule hoareI) (auto simp: bind_s_Inr bind_s_Inl dest: hoare_Inl hoare_Inr)

lemma hoare_raii:
  "hoare T m (\<lambda>a t. Q a (t(fd := None))) E \<Longrightarrow> F = E(fd := None) \<Longrightarrow> hoare T (raii fd m) Q F"
  by (rule hoareI) (auto simp: raii_eq dest: hoare_Inl hoare_Inr)

lemma hoare_raii_moved: "hoare T m Q E \<Longrightarrow> F = E(fd := None) \<Longrightarrow> hoare T (raii_moved fd m) Q F"
  by (rule hoareI) (auto simp: raii_moved_Inr raii_moved_Inl dest: hoare_Inl hoare_Inr)

lemma hoare_post: "hoare T m R E \<Longrightarrow> (\<And>a t. R a t \<Longrightarrow> Q a t) \<Longrightarrow> hoare T m Q E"
  by (rule hoareI) (auto dest: hoare_Inl hoare_Inr)

lemma hoare_return: "Q a T \<Longrightarrow> hoare T (\<lambda>s. (Inr a, s)) Q E"
  by (simp add: hoare_def)

lemma hoare_state: "(\<And>x. hoare T (f x) Q E) \<Longrightarrow> hoare T (\<lambda>s. f (g s) s) Q E"
  by (rule hoareI) (auto dest: hoare_Inl hoare_Inr)

lemma create_uds_socket_Inr:
  "create_uds_socket (os, p) = (Inr fd, s') \<longleftrightarrow>
     (\<exists>fds. fd_alloc (pr_limit p) (Sock None) (pr_fds p) = Some (fd, fds) \<and> s' = (os, p\<lparr>pr_fds := fds\<rparr>))"
  by (auto simp: create_uds_socket_def split: option.splits)

lemma make_anon_pipe_Inr:
  "make_anon_pipe (os, p) = (Inr (rd, wr), s') \<longleftrightarrow>
     (\<exists>f1 f2. fd_alloc (pr_limit p) (Pipe_rd (os_pipes os)) (pr_fds p) = Some (rd, f1) \<and>
        fd_alloc (pr_limit p) (Pipe_wr (os_pipes os)) f1 = Some (wr, f2) \<and>
        s' = (os\<lparr>os_pipes := Suc (os_pipes os)\<rparr>, p\<lparr>pr_fds := f2\<rparr>))"
  by (auto simp: make_anon_pipe_def Let_def split: option.splits)

lemma hoare_socket: "hoare T create_uds_socket (\<lambda>fd t. T fd = None \<and> t = T(fd \<mapsto> Sock None)) T"
proof (rule hoareI)
  fix s e s' assume "table s = T" and "create_uds_socket s = (Inl e, s')"
  then show "table s' = T" by (cases s) (auto simp: create_uds_socket_def split: option.splits)
next
  fix s fd s' assume t: "table s = T" and c: "create_uds_socket s = (Inr fd, s')"
  obtain os p where s: "s = (os, p)" by (cases s)
  show "T fd = None \<and> table s' = T(fd \<mapsto> Sock None)"
    using c t by (auto simp: s create_uds_socket_Inr table_def dest: fd_alloc_at)
qed

lemma hoare_pipe:
  "hoare T make_anon_pipe (\<lambda>(rd, wr) t. T rd = None \<and> T wr = None \<and> rd \<noteq> wr \<and>
     (\<exists>k. t = T(rd \<mapsto> Pipe_rd k, wr \<mapsto> Pipe_wr k))) T"
proof (rule hoareI)
  fix s e s' assume "table s = T" and "make_anon_pipe s = (Inl e, s')"
  then show "table s' = T" by (cases s) (auto simp: make_anon_pipe_def Let_def split: option.splits)
next
  fix s a s' assume t: "table s = T" and c: "make_anon_pipe s = (Inr a, s')"
  obtain os p where s: "s = (os, p)" by (cases s)
  obtain rd wr where a: "a = (rd, wr)" by (cases a)
  from c obtain f1 f2 where f1: "fd_alloc (pr_limit p) (Pipe_rd (os_pipes os)) (pr_fds p) = Some (rd, f1)"
    and f2: "fd_alloc (pr_limit p) (Pipe_wr (os_pipes os)) f1 = Some (wr, f2)"
    and s': "s' = (os\<lparr>os_pipes := Suc (os_pipes os)\<rparr>, p\<lparr>pr_fds := f2\<rparr>)"
    unfolding s a make_anon_pipe_Inr by blast
  have T: "T = fd_at (pr_fds p)" using t by (simp add: table_def s)
  show "(\<lambda>(rd, wr) t. T rd = None \<and> T wr = None \<and> rd \<noteq> wr \<and>
      (\<exists>k. t = T(rd \<mapsto> Pipe_rd k, wr \<mapsto> Pipe_wr k))) a (table s')"
  proof -
    note 1 = fd_alloc_at [OF f1] and 2 = fd_alloc_at [OF f2]
    have ne: "rd \<noteq> wr" using 1 2 by auto
    have "table s' = T(rd \<mapsto> Pipe_rd (os_pipes os), wr \<mapsto> Pipe_wr (os_pipes os))"
      using 1 2 by (simp add: T s' table_def)
    moreover have "T wr = None" using 1 2 ne by (simp add: T)
    ultimately show ?thesis using 1 ne by (auto simp: a T)
  qed
qed

lemma table_send: "send_datagram n d s = (r, s') \<Longrightarrow> table s' = table s"
  by (cases s) (auto simp: send_datagram_def table_def split: option.splits)

lemma table_send_fds: "send_fds n fds s = (r, s') \<Longrightarrow> table s' = table s"
  by (auto simp: send_fds_def Let_def dest: table_send split: if_splits)

lemma hoare_send: "hoare T (send_datagram n d) (\<lambda>u t. t = T) T"
  by (rule hoareI) (auto dest: table_send)

lemma hoare_send_fds: "hoare T (send_fds n fds) (\<lambda>u t. t = T) T"
  by (rule hoareI) (auto dest: table_send_fds)

lemma hoare_sends:
  "Q x T \<Longrightarrow> hoare T (\<lambda>s. bind_s (send_pid_and_fd_count n (pr_pid (snd s)) c) (\<lambda>u.
       bind_s (send_fds n fds) (\<lambda>u s. (Inr x, s))) s) Q T"
proof -
  assume q: "Q x T"
  have "hoare T (bind_s (send_datagram n (Pid_msg y c)) (\<lambda>u. bind_s (send_fds n fds) (\<lambda>u s. (Inr x, s)))) Q T" for y
  proof (rule hoare_bind [OF hoare_send])
    fix u :: unit and t assume t: "t = T"
    have "hoare T (bind_s (send_fds n fds) (\<lambda>u s. (Inr x, s))) Q T"
      by (rule hoare_bind [OF hoare_send_fds]) (simp add: hoare_return q)
    then show "hoare t (bind_s (send_fds n fds) (\<lambda>u s. (Inr x, s))) Q T" by (simp add: t)
  qed
  then show ?thesis unfolding send_pid_and_fd_count_def
    by (rule hoare_state [where g = "\<lambda>s. pr_pid (snd s)" and
          f = "\<lambda>y. bind_s (send_datagram n (Pid_msg y c)) (\<lambda>u. bind_s (send_fds n fds) (\<lambda>u s. (Inr x, s)))"])
qed

lemma hoare_with_socket:
  assumes "\<And>fd. T fd = None \<Longrightarrow> hoare (T(fd \<mapsto> Sock None)) (m fd) (\<lambda>a t. Q a (t(fd := None))) (T(fd \<mapsto> Sock None))"
  shows "hoare T (bind_s create_uds_socket (\<lambda>fd. raii fd (m fd))) Q T"
proof (rule hoare_bind [OF hoare_socket])
  fix fd t assume a: "T fd = None \<and> t = T(fd \<mapsto> Sock None)"
  have "hoare (T(fd \<mapsto> Sock None)) (raii fd (m fd)) Q T"
    by (rule hoare_raii [OF assms]) (use a in auto)
  with a show "hoare t (raii fd (m fd)) Q T" by simp
qed

lemma hoare_with_pipe:
  \<comment> \<open>a pipe one end of which stays here, the other is sent away\<close>
  assumes "\<And>rd wr k. T rd = None \<Longrightarrow> T wr = None \<Longrightarrow> rd \<noteq> wr \<Longrightarrow>
      hoare (T(rd \<mapsto> Pipe_rd k, wr \<mapsto> Pipe_wr k)) (m rd wr) (\<lambda>a t. Q a (t(close rd wr := None)))
        (T(rd \<mapsto> Pipe_rd k, wr \<mapsto> Pipe_wr k))"
    and "(close = (\<lambda>rd wr. rd) \<and> keep = (\<lambda>rd wr. wr)) \<or> (close = (\<lambda>rd wr. wr) \<and> keep = (\<lambda>rd wr. rd))"
  shows "hoare T (bind_s make_anon_pipe (\<lambda>(rd, wr). raii (close rd wr) (raii_moved (keep rd wr) (m rd wr)))) Q T"
proof (rule hoare_bind [OF hoare_pipe])
  fix a t
  assume "(\<lambda>(rd, wr) t. T rd = None \<and> T wr = None \<and> rd \<noteq> wr \<and>
     (\<exists>k. t = T(rd \<mapsto> Pipe_rd k, wr \<mapsto> Pipe_wr k))) a t"
  then obtain rd wr k where a: "a = (rd, wr)" and T: "T rd = None" "T wr = None" "rd \<noteq> wr"
    and t: "t = T(rd \<mapsto> Pipe_rd k, wr \<mapsto> Pipe_wr k)" by (cases a) auto
  have "T = (t(keep rd wr := None))(close rd wr := None)"
    using T assms(2) by (auto simp: t fun_eq_iff)
  moreover have "hoare t (m rd wr) (\<lambda>a t. Q a (t(close rd wr := None))) t"
    unfolding t by (rule assms(1) [OF T])
  ultimately have "hoare t (raii (close rd wr) (raii_moved (keep rd wr) (m rd wr))) Q T"
    by (intro hoare_raii [OF hoare_raii_moved [OF _ refl]])
  then show "hoare t (case a of (rd, wr) \<Rightarrow> raii (close rd wr) (raii_moved (keep rd wr) (m rd wr))) Q T"
    by (simp add: a)
qed

lemmas hoare_keep_wr = hoare_with_pipe [where close = "\<lambda>rd wr. rd" and keep = "\<lambda>rd wr. wr", OF _ disjI1 [OF conjI [OF refl refl]]]
lemmas hoare_keep_rd = hoare_with_pipe [where close = "\<lambda>rd wr. wr" and keep = "\<lambda>rd wr. rd", OF _ disjI2 [OF conjI [OF refl refl]]]

lemma open_write_table:
  "hoare T (open_write_anon_pipe n) (\<lambda>wr t. T wr = None \<and> (\<exists>k. t = T(wr \<mapsto> Pipe_wr k))) T"
  unfolding open_write_anon_pipe_def
  by (rule hoare_with_socket, rule hoare_keep_wr, rule hoare_sends) (auto simp: fun_eq_iff split: if_splits)

lemma open_react_table:
  "hoare T (open_react_anon_pipes n) (\<lambda>(w, e, r) t. T w = None \<and> T e = None \<and> T r = None \<and> distinct [w, e, r] \<and>
     (\<exists>k1 k2 k3. t = T(w \<mapsto> Pipe_wr k1, e \<mapsto> Pipe_wr k2, r \<mapsto> Pipe_rd k3))) T"
  unfolding open_react_anon_pipes_def
proof (rule hoare_with_socket, rule hoare_keep_wr, rule hoare_keep_wr, rule hoare_keep_rd, rule hoare_sends)
  fix fd w0 w k1 e0 e k2 r r0 k3
  assume a: "T fd = None" "(T(fd \<mapsto> Sock None)) w0 = None" "(T(fd \<mapsto> Sock None)) w = None" "w0 \<noteq> w"
    and b: "(T(fd \<mapsto> Sock None, w0 \<mapsto> Pipe_rd k1, w \<mapsto> Pipe_wr k1)) e0 = None"
      "(T(fd \<mapsto> Sock None, w0 \<mapsto> Pipe_rd k1, w \<mapsto> Pipe_wr k1)) e = None" "e0 \<noteq> e"
    and c: "(T(fd \<mapsto> Sock None, w0 \<mapsto> Pipe_rd k1, w \<mapsto> Pipe_wr k1, e0 \<mapsto> Pipe_rd k2, e \<mapsto> Pipe_wr k2)) r = None"
      "(T(fd \<mapsto> Sock None, w0 \<mapsto> Pipe_rd k1, w \<mapsto> Pipe_wr k1, e0 \<mapsto> Pipe_rd k2, e \<mapsto> Pipe_wr k2)) r0 = None" "r \<noteq> r0"
  have n: "T w0 = None" "T w = None" "T e0 = None" "T e = None" "T r = None" "T r0 = None" "distinct [fd, w0, w, e0, e, r, r0]"
    using a b c by (auto split: if_splits)
  let ?t = "T(fd \<mapsto> Sock None, w0 \<mapsto> Pipe_rd k1, w \<mapsto> Pipe_wr k1, e0 \<mapsto> Pipe_rd k2, e \<mapsto> Pipe_wr k2,
      r \<mapsto> Pipe_rd k3, r0 \<mapsto> Pipe_wr k3)"
  have d: "fd \<noteq> w0" "fd \<noteq> w" "fd \<noteq> e0" "fd \<noteq> e" "fd \<noteq> r" "fd \<noteq> r0" "w0 \<noteq> w" "w0 \<noteq> e0" "w0 \<noteq> e" "w0 \<noteq> r" "w0 \<noteq> r0"
    "w \<noteq> e0" "w \<noteq> e" "w \<noteq> r" "w \<noteq> r0" "e0 \<noteq> e" "e0 \<noteq> r" "e0 \<noteq> r0" "e \<noteq> r" "e \<noteq> r0" "r \<noteq> r0"
    using n(7) by simp_all
  have "?t(r0 := None, e0 := None, w0 := None, fd := None) = T(w \<mapsto> Pipe_wr k1, e \<mapsto> Pipe_wr k2, r \<mapsto> Pipe_rd k3)"
    using n(1-6) a(1) d d [symmetric] by (intro ext) (simp add: fun_upd_apply)
  with n show "(\<lambda>(w, e, r) t. T w = None \<and> T e = None \<and> T r = None \<and> distinct [w, e, r] \<and>
     (\<exists>k1 k2 k3. t = T(w \<mapsto> Pipe_wr k1, e \<mapsto> Pipe_wr k2, r \<mapsto> Pipe_rd k3)))
     (w, e, r) (?t(r0 := None, e0 := None, w0 := None, fd := None))"
    by auto
qed

text \<open>
  C11. Opening the pipes loses no descriptor: when it throws, at whatever step, the process has
  the same open files as before; when it ends it has gained the write end of one pipe, or two
  write ends and a read end, at descriptors that were free.
\<close>

theorem pipes_no_leak:
  "hoare T (open_write_anon_pipe n) (\<lambda>wr t. T wr = None \<and> (\<exists>k. t = T(wr \<mapsto> Pipe_wr k))) T \<and>
   hoare T (open_react_anon_pipes n) (\<lambda>(w, e, r) t. T w = None \<and> T e = None \<and> T r = None \<and> distinct [w, e, r] \<and>
     (\<exists>k1 k2 k3. t = T(w \<mapsto> Pipe_wr k1, e \<mapsto> Pipe_wr k2, r \<mapsto> Pipe_rd k3))) T"
  using open_write_table open_react_table by blast

section \<open>The two sides connect\<close>

lemma send_datagram_Inr:
  "send_datagram n d (os, p) = (Inr u, s') \<longleftrightarrow>
     (\<exists>a q. sock_addr n = Some a \<and> os_bound os a = Some q \<and>
        s' = (os\<lparr>os_bound := (os_bound os)(a \<mapsto> q @ [d])\<rparr>, p))"
  by (auto simp: send_datagram_def split: option.splits)

lemma map_Some_the: "None \<notin> set xs \<Longrightarrow> xs = map Some (map the xs)"
  by (induction xs) auto

lemma sends_Inr:
  assumes "bind_s (send_pid_and_fd_count n pid c) (\<lambda>u. bind_s (send_fds n fds) (\<lambda>u s. (Inr x, s))) (os, p) = (Inr y, s')"
  shows "y = x \<and> (\<exists>a q ends. sock_addr n = Some a \<and> os_bound os a = Some q \<and>
     map (fd_at (pr_fds p)) (fds @ replicate (cmsg_slots (length fds) - length fds) 0) = map Some ends \<and>
     s' = (os\<lparr>os_bound := (os_bound os)(a \<mapsto> q @ [Pid_msg pid c, Rights ends])\<rparr>, p))"
proof -
  from assms obtain s1 where s1: "send_datagram n (Pid_msg pid c) (os, p) = (Inr (), s1)"
    and 2: "send_fds n fds s1 = (Inr (), s')" and y: "y = x"
    by (auto simp: bind_s_Inr send_pid_and_fd_count_def)
  from s1 obtain a q where a: "sock_addr n = Some a" "os_bound os a = Some q"
    and s1': "s1 = (os\<lparr>os_bound := (os_bound os)(a \<mapsto> q @ [Pid_msg pid c])\<rparr>, p)"
    by (auto simp: send_datagram_Inr)
  let ?ends = "map (fd_at (pr_fds p)) (fds @ replicate (cmsg_slots (length fds) - length fds) 0)"
  from 2 have ne: "None \<notin> set ?ends" and sd: "send_datagram n (Rights (map the ?ends)) s1 = (Inr (), s')"
    by (auto simp: send_fds_def s1' Let_def split: if_splits)
  define ends where "ends = map the ?ends"
  have "?ends = map Some ends"
    unfolding ends_def using ne by (rule map_Some_the)
  with a y sd show ?thesis unfolding ends_def [symmetric] by (auto simp: send_datagram_Inr s1')
qed

lemma close_fd_eq:
  "fd_at (pr_fds p) fd = Some d \<Longrightarrow> (\<And>a. d \<noteq> Sock (Some a)) \<Longrightarrow> close_fd fd (os, p) = (os, p\<lparr>pr_fds := (pr_fds p)[fd := None]\<rparr>)"
  by (auto simp: close_fd_def split: fdesc.splits option.splits)

lemma cmsg_slots_eq [simp]: "cmsg_slots (Suc 0) = 2" "cmsg_slots 3 = 4" "cmsg_slots (Suc (Suc (Suc 0))) = 4"
  by (simp_all add: cmsg_slots_def cmsg_size_def)

lemma fd_alloc_room: "length xs < lim \<Longrightarrow> \<exists>n ys. fd_alloc lim e xs = Some (n, ys) \<and> length ys \<le> Suc (length xs)"
  by (induction lim e xs rule: fd_alloc.induct) fastforce+

lemma install_fds_all:
  "length (pr_fds p) + length ds \<le> pr_limit p \<Longrightarrow>
   \<exists>ns fds. install_fds ds p = (ns, p\<lparr>pr_fds := fds\<rparr>) \<and> length ns = length ds \<and> distinct ns \<and>
     list_all (\<lambda>n. fd_at (pr_fds p) n = None) ns \<and> fd_at fds = (fd_at (pr_fds p))(ns [\<mapsto>] ds)"
proof (induction ds arbitrary: p)
  case Nil
  then show ?case by (auto intro: exI [where x = "pr_fds p"])
next
  case (Cons d ds)
  then have "length (pr_fds p) < pr_limit p" by simp
  then obtain n ys where a: "fd_alloc (pr_limit p) d (pr_fds p) = Some (n, ys)" and l: "length ys \<le> Suc (length (pr_fds p))"
    using fd_alloc_room [of "pr_fds p" "pr_limit p" d] by auto
  have r: "length (pr_fds (p\<lparr>pr_fds := ys\<rparr>)) + length ds \<le> pr_limit (p\<lparr>pr_fds := ys\<rparr>)"
    using Cons.prems l by simp
  from Cons.IH [OF r] obtain ns fds where i: "install_fds ds (p\<lparr>pr_fds := ys\<rparr>) = (ns, p\<lparr>pr_fds := fds\<rparr>)"
    "length ns = length ds" "distinct ns" "list_all (\<lambda>n. fd_at ys n = None) ns" "fd_at fds = (fd_at ys)(ns [\<mapsto>] ds)"
    by auto
  note at = fd_alloc_at [OF a]
  have nn: "n \<notin> set ns"
  proof
    assume "n \<in> set ns"
    then have "fd_at ys n = None" using i(4) by (simp add: list_all_iff)
    with at show False by simp
  qed
  have "fd_at (pr_fds p) m = None" if "m \<in> set ns" for m
  proof -
    have "fd_at ys m = None" using that i(4) by (simp add: list_all_iff)
    moreover have "fd_at ys m = ((fd_at (pr_fds p))(n \<mapsto> d)) m" using at by metis
    ultimately show ?thesis by (simp split: if_splits)
  qed
  then have "list_all (\<lambda>n. fd_at (pr_fds p) n = None) (n # ns)"
    using at by (simp add: list_all_iff)
  moreover have "install_fds (d # ds) p = (n # ns, p\<lparr>pr_fds := fds\<rparr>)" using a i(1) by simp
  moreover have "fd_at fds = (fd_at (pr_fds p))((n # ns) [\<mapsto>] (d # ds))" using i(5) at by simp
  moreover have "length (n # ns) = length (d # ds)" "distinct (n # ns)" using i(2,3) nn by simp_all
  ultimately show ?case by blast
qed

lemma recv_datagram_next:
  "fd_at (pr_fds p) fd = Some (Sock (Some a)) \<Longrightarrow> os_bound os a = Some (d # q) \<Longrightarrow>
   recv_datagram fd (os, p) = Some (Some d, (os\<lparr>os_bound := (os_bound os)(a \<mapsto> q)\<rparr>, p))"
  by (simp add: recv_datagram_def)

lemma obtain_result:
  assumes sock: "fd_at (pr_fds p) fd = Some (Sock (Some a))"
    and q: "os_bound os a = Some (Pid_msg pid c # Rights ds # q)" and c: "c = 1 \<or> c = 3"
    and ds: "length ds = cmsg_slots (if c = 1 then 1 else 3)" and room: "length (pr_fds p) + length ds \<le> pr_limit p"
  shows "\<exists>ns os' p'. obtain_response_stream fd (os, p) =
      Some (Inr (pid, ns ! 0, if c = 1 then None else Some (ns ! 1), if c = 1 then None else Some (ns ! 2)), (os', p')) \<and>
     length ns = length ds \<and> distinct ns \<and> list_all (\<lambda>n. fd_at (pr_fds p) n = None) ns \<and>
     fd_at (pr_fds p') = ((fd_at (pr_fds p))(ns [\<mapsto>] ds))(fd := None)"
proof -
  obtain ns fds where i: "install_fds ds p = (ns, p\<lparr>pr_fds := fds\<rparr>)" "length ns = length ds" "distinct ns"
    "list_all (\<lambda>n. fd_at (pr_fds p) n = None) ns" "fd_at fds = (fd_at (pr_fds p))(ns [\<mapsto>] ds)"
    using install_fds_all [OF room] by blast
  let ?os1 = "os\<lparr>os_bound := (os_bound os)(a \<mapsto> Rights ds # q)\<rparr>"
  let ?os2 = "os\<lparr>os_bound := (os_bound os)(a \<mapsto> q)\<rparr>"
  have 1: "recv_pid fd (os, p) = Some (Inr (pid, c), (?os1, p))"
    using c by (auto simp: recv_pid_def recv_datagram_next [OF sock q])
  have rd: "recv_datagram fd (?os1, p) = Some (Some (Rights ds), (?os2, p))"
    using recv_datagram_next [OF sock, of ?os1 "Rights ds" q] by simp
  have ne: "2 \<le> length ns" "c \<noteq> 1 \<longrightarrow> 3 \<le> length ns" using ds i(2) c by auto
  have 2: "receive_fds fd (if c = 1 then 1 else 3) (?os1, p) = Some (Inr ns, (?os2, p\<lparr>pr_fds := fds\<rparr>))"
    using ne(1) by (auto simp: receive_fds_def rd i(1) ds [symmetric] Let_def)
  have t: "fd_at (pr_fds (snd (close_fd fd (?os2, p\<lparr>pr_fds := fds\<rparr>)))) = ((fd_at (pr_fds p))(ns [\<mapsto>] ds))(fd := None)"
    using i(5) by (simp add: close_fd_def Let_def)
  obtain os' p' where cl: "close_fd fd (?os2, p\<lparr>pr_fds := fds\<rparr>) = (os', p')"
    by (cases "close_fd fd (?os2, p\<lparr>pr_fds := fds\<rparr>)")
  have "obtain_response_stream fd (os, p) =
      Some (Inr (pid, ns ! 0, if c = 1 then None else Some (ns ! 1), if c = 1 then None else Some (ns ! 2)), (os', p'))"
    using ne c by (auto simp: obtain_response_stream_def 1 2 [simplified] fd_cleanup_def cl pipe_fd_def split: if_splits)
  with i t cl show ?thesis by auto
qed

lemma open_write_result:
  assumes "open_write_anon_pipe n (os, p) = (Inr wr, (os', p'))" and in0: "fd_at (pr_fds p) 0 = Some y"
  shows "\<exists>a q k. sock_addr n = Some a \<and> os_bound os a = Some q \<and>
     os_bound os' a = Some (q @ [Pid_msg (pr_pid p) 1, Rights [Pipe_rd k, y]]) \<and>
     fd_at (pr_fds p') = (fd_at (pr_fds p))(wr \<mapsto> Pipe_wr k)"
proof -
  from assms(1) obtain sock f1 rd f2 f3 s3 w where
      sk: "fd_alloc (pr_limit p) (Sock None) (pr_fds p) = Some (sock, f1)"
    and p1: "fd_alloc (pr_limit p) (Pipe_rd (os_pipes os)) f1 = Some (rd, f2)"
    and p2': "fd_alloc (pr_limit p) (Pipe_wr (os_pipes os)) f2 = Some (w, f3)"
    and s': "bind_s (send_pid_and_fd_count n (pr_pid p) 1) (\<lambda>u. bind_s (send_fds n [rd]) (\<lambda>u s. (Inr w, s)))
        (os\<lparr>os_pipes := Suc (os_pipes os)\<rparr>, p\<lparr>pr_fds := f3\<rparr>) = (Inr wr, s3)"
    and e: "(os', p') = close_fd sock (close_fd rd s3)"
    by (auto simp: open_write_anon_pipe_def bind_s_Inr [of create_uds_socket] bind_s_Inr [of make_anon_pipe]
        create_uds_socket_Inr make_anon_pipe_Inr raii_eq raii_moved_Inr)
  have "w = wr" using sends_Inr [OF s'] by simp
  note p2 = p2' [unfolded \<open>w = wr\<close>] and s = s' [unfolded \<open>w = wr\<close>]
  note a1 = fd_alloc_at [OF sk] and a2 = fd_alloc_at [OF p1] and a3 = fd_alloc_at [OF p2]
  have z: "x \<noteq> 0" if "fd_at (pr_fds p) x = None" for x using that in0 by (cases x) auto
  have n3: "sock \<noteq> rd" "sock \<noteq> wr" "rd \<noteq> wr" and fr: "fd_at (pr_fds p) rd = None" "fd_at (pr_fds p) wr = None"
    using a1 a2 a3 by (auto split: if_splits)
  have n: "sock \<noteq> rd" "sock \<noteq> wr" "rd \<noteq> wr" "sock \<noteq> 0" "rd \<noteq> 0" "wr \<noteq> 0"
    using n3 z [OF fr(1)] z [OF fr(2)] z [of sock] a1 by simp_all
  have t: "fd_at f3 = (fd_at (pr_fds p))(sock \<mapsto> Sock None, rd \<mapsto> Pipe_rd (os_pipes os), wr \<mapsto> Pipe_wr (os_pipes os))"
    using a1 a2 a3 by simp
  have v: "fd_at f3 rd = Some (Pipe_rd (os_pipes os))" "fd_at f3 0 = Some y" "fd_at f3 sock = Some (Sock None)"
    using n in0 by (simp_all add: t)
  from sends_Inr [OF s] obtain a q where a: "sock_addr n = Some a" "os_bound os a = Some q"
    and s3: "s3 = (os\<lparr>os_pipes := Suc (os_pipes os), os_bound := (os_bound os)(a \<mapsto> q @ [Pid_msg (pr_pid p) 1,
        Rights [Pipe_rd (os_pipes os), y]])\<rparr>, p\<lparr>pr_fds := f3\<rparr>)"
    using v by (auto simp: numeral_2_eq_2 map_eq_Cons_conv)
  have c: "(os', p') = (fst s3, p\<lparr>pr_fds := (f3[rd := None])[sock := None]\<rparr>)"
    using e v n by (simp add: s3 close_fd_eq)
  have "fd_at ((f3[rd := None])[sock := None]) = (fd_at (pr_fds p))(wr \<mapsto> Pipe_wr (os_pipes os))"
    using n a1 a2 by (intro ext) (auto simp: t split: if_splits)
  with a c show ?thesis by (auto simp: s3)
qed

lemma write_pipe_ends:
  assumes "open_write_anon_pipe n (os, srv) = (Inr wr, (os1, srv1))" and "fd_at (pr_fds srv) 0 = Some stdin"
    and "sock_addr n = Some a" and "os_bound os a = Some []"
    and "fd_at (pr_fds cl) sock = Some (Sock (Some a))" and "length (pr_fds cl) + 2 \<le> pr_limit cl"
  shows "\<exists>k rd lost os2 cl1. obtain_response_stream sock (os1, cl) = Some (Inr (pr_pid srv, rd, None, None), (os2, cl1)) \<and>
     fd_at (pr_fds srv1) = (fd_at (pr_fds srv))(wr \<mapsto> Pipe_wr k) \<and>
     distinct [rd, lost] \<and> fd_at (pr_fds cl) rd = None \<and> fd_at (pr_fds cl) lost = None \<and>
     fd_at (pr_fds cl1) = (fd_at (pr_fds cl))(rd \<mapsto> Pipe_rd k, lost \<mapsto> stdin, sock := None)"
proof -
  from open_write_result [OF assms(1,2)] assms(3,4) obtain k where
      q: "os_bound os1 a = Some (Pid_msg (pr_pid srv) 1 # Rights [Pipe_rd k, stdin] # [])"
    and w: "fd_at (pr_fds srv1) = (fd_at (pr_fds srv))(wr \<mapsto> Pipe_wr k)" by auto
  from obtain_result [OF assms(5) q] assms(6) obtain ns os2 cl1 where
      o: "obtain_response_stream sock (os1, cl) = Some (Inr (pr_pid srv, ns ! 0, None, None), (os2, cl1))"
    and l: "length ns = 2" "distinct ns" "list_all (\<lambda>n. fd_at (pr_fds cl) n = None) ns"
    and t: "fd_at (pr_fds cl1) = ((fd_at (pr_fds cl))(ns [\<mapsto>] [Pipe_rd k, stdin]))(sock := None)"
    by auto
  from l(1) obtain r x where "ns = [r, x]" by (auto simp: numeral_2_eq_2 length_Suc_conv)
  with o l t w show ?thesis by auto
qed

text \<open>
  The process that runs a command and the one that asked for it end up at the two ends of
  one pipe: after \<open>open_write_anon_pipe\<close> at the one and \<open>obtain_response_stream\<close> at the other,
  the first holds the write end, the second the read end and the pid of the first. The second
  also gains a descriptor it knows nothing of, for the file the first has as its standard input:
  the control message is as long as its padded buffer, which the kernel counts as two
  descriptors, the second of them 0.
\<close>

theorem write_pipe_connects:
  assumes "open_write_anon_pipe n (os, srv) = (Inr wr, (os1, srv1))" and "fd_at (pr_fds srv) 0 = Some stdin"
    and "sock_addr n = Some a" and "os_bound os a = Some []"
    and "fd_at (pr_fds cl) sock = Some (Sock (Some a))" and "length (pr_fds cl) + 2 \<le> pr_limit cl"
  shows "\<exists>k rd lost os2 cl1. obtain_response_stream sock (os1, cl) = Some (Inr (pr_pid srv, rd, None, None), (os2, cl1)) \<and>
     fd_at (pr_fds srv1) = (fd_at (pr_fds srv))(wr \<mapsto> Pipe_wr k) \<and>
     distinct [rd, lost] \<and> fd_at (pr_fds cl) rd = None \<and> fd_at (pr_fds cl) lost = None \<and>
     fd_at (pr_fds cl1) = (fd_at (pr_fds cl))(rd \<mapsto> Pipe_rd k, lost \<mapsto> stdin, sock := None)"
  by (rule write_pipe_ends [OF assms])

lemma pipe_alloc_at:
  assumes "fd_alloc lim (Pipe_rd k) xs = Some (rd, ys)" and "fd_alloc lim (Pipe_wr k) ys = Some (wr, zs)"
  shows "fd_at zs = (fd_at xs)(rd \<mapsto> Pipe_rd k, wr \<mapsto> Pipe_wr k) \<and> fd_at xs rd = None \<and> fd_at xs wr = None \<and> rd \<noteq> wr"
  using fd_alloc_at [OF assms(1)] fd_alloc_at [OF assms(2)] by (auto split: if_splits)

lemma open_react_result:
  assumes "open_react_anon_pipes n (os, p) = (Inr (w, e, r), (os', p'))" and in0: "fd_at (pr_fds p) 0 = Some y"
  shows "\<exists>a q k. sock_addr n = Some a \<and> os_bound os a = Some q \<and> os_bound os' a = Some (q @ [Pid_msg (pr_pid p) 3,
       Rights [Pipe_rd k, Pipe_rd (k + 1), Pipe_wr (k + 2), y]]) \<and>
     fd_at (pr_fds p') = (fd_at (pr_fds p))(w \<mapsto> Pipe_wr k, e \<mapsto> Pipe_wr (k + 1), r \<mapsto> Pipe_rd (k + 2))"
proof -
  let ?k = "os_pipes os"
  from assms(1) obtain sock f1 w0 f2 w1 f3 e0 f4 e1 f5 r1 f6 r0 f7 s3 where
      sk: "fd_alloc (pr_limit p) (Sock None) (pr_fds p) = Some (sock, f1)"
    and p1: "fd_alloc (pr_limit p) (Pipe_rd ?k) f1 = Some (w0, f2)" "fd_alloc (pr_limit p) (Pipe_wr ?k) f2 = Some (w1, f3)"
    and p2: "fd_alloc (pr_limit p) (Pipe_rd (?k + 1)) f3 = Some (e0, f4)" "fd_alloc (pr_limit p) (Pipe_wr (?k + 1)) f4 = Some (e1, f5)"
    and p3: "fd_alloc (pr_limit p) (Pipe_rd (?k + 2)) f5 = Some (r1, f6)" "fd_alloc (pr_limit p) (Pipe_wr (?k + 2)) f6 = Some (r0, f7)"
    and s': "bind_s (send_pid_and_fd_count n (pr_pid p) 3) (\<lambda>u. bind_s (send_fds n [w0, e0, r0]) (\<lambda>u s. (Inr (w1, e1, r1), s)))
        (os\<lparr>os_pipes := ?k + 3\<rparr>, p\<lparr>pr_fds := f7\<rparr>) = (Inr (w, e, r), s3)"
    and c: "(os', p') = close_fd sock (close_fd w0 (close_fd e0 (close_fd r0 s3)))"
    by (auto simp: open_react_anon_pipes_def bind_s_Inr [of create_uds_socket] bind_s_Inr [of make_anon_pipe]
        create_uds_socket_Inr make_anon_pipe_Inr raii_eq raii_moved_Inr numeral_3_eq_3)
  have eq: "w1 = w" "e1 = e" "r1 = r" using sends_Inr [OF s'] by simp_all
  note a0 = fd_alloc_at [OF sk] and a1 = pipe_alloc_at [OF p1] and a2 = pipe_alloc_at [OF p2] and a3 = pipe_alloc_at [OF p3]
  let ?T = "fd_at (pr_fds p)"
  have t1: "fd_at f1 = ?T(sock \<mapsto> Sock None)" using a0 by simp
  have t3: "fd_at f3 = ?T(sock \<mapsto> Sock None, w0 \<mapsto> Pipe_rd ?k, w \<mapsto> Pipe_wr ?k)" using a1 t1 eq by simp
  have t5: "fd_at f5 = ?T(sock \<mapsto> Sock None, w0 \<mapsto> Pipe_rd ?k, w \<mapsto> Pipe_wr ?k,
      e0 \<mapsto> Pipe_rd (?k + 1), e \<mapsto> Pipe_wr (?k + 1))" using a2 t3 eq by simp
  have t7: "fd_at f7 = ?T(sock \<mapsto> Sock None, w0 \<mapsto> Pipe_rd ?k, w \<mapsto> Pipe_wr ?k,
      e0 \<mapsto> Pipe_rd (?k + 1), e \<mapsto> Pipe_wr (?k + 1), r \<mapsto> Pipe_rd (?k + 2), r0 \<mapsto> Pipe_wr (?k + 2))" using a3 t5 eq by simp
  have f1: "fd_at f1 w0 = None" "fd_at f1 w = None" "w0 \<noteq> w" using a1 eq by simp_all
  have f3: "fd_at f3 e0 = None" "fd_at f3 e = None" "e0 \<noteq> e" using a2 eq by simp_all
  have f5: "fd_at f5 r = None" "fd_at f5 r0 = None" "r \<noteq> r0" using a3 eq by simp_all
  have d: "w0 \<noteq> sock" "w \<noteq> sock" "e0 \<noteq> sock" "e0 \<noteq> w0" "e0 \<noteq> w" "e \<noteq> sock" "e \<noteq> w0" "e \<noteq> w"
    "r \<noteq> sock" "r \<noteq> w0" "r \<noteq> w" "r \<noteq> e0" "r \<noteq> e" "r0 \<noteq> sock" "r0 \<noteq> w0" "r0 \<noteq> w" "r0 \<noteq> e0" "r0 \<noteq> e"
    and fr: "?T w0 = None" "?T w = None" "?T e0 = None" "?T e = None" "?T r = None" "?T r0 = None"
    using f1 [unfolded t1] f3 [unfolded t3] f5 [unfolded t5] by (simp_all split: if_splits)
  have z: "x \<noteq> 0" if "?T x = None" for x using that in0 by (cases x) auto
  have z0: "sock \<noteq> 0" "w0 \<noteq> 0" "w \<noteq> 0" "e0 \<noteq> 0" "e \<noteq> 0" "r \<noteq> 0" "r0 \<noteq> 0"
    using a0 by (simp_all add: z fr)
  note ne = d d [symmetric] f1(3) f3(3) f5(3) f1(3) [symmetric] f3(3) [symmetric] f5(3) [symmetric]
  have v: "fd_at f7 w0 = Some (Pipe_rd ?k)" "fd_at f7 e0 = Some (Pipe_rd (?k + 1))" "fd_at f7 r0 = Some (Pipe_wr (?k + 2))"
    "fd_at f7 0 = Some y" "fd_at f7 sock = Some (Sock None)"
    using ne z0 in0 by (simp_all add: t7)
  from sends_Inr [OF s'] v obtain a q where a: "sock_addr n = Some a" "os_bound os a = Some q"
    and s3: "s3 = (os\<lparr>os_pipes := ?k + 3, os_bound := (os_bound os)(a \<mapsto> q @ [Pid_msg (pr_pid p) 3,
        Rights [Pipe_rd ?k, Pipe_rd (?k + 1), Pipe_wr (?k + 2), y]])\<rparr>, p\<lparr>pr_fds := f7\<rparr>)"
    by (auto simp: map_eq_Cons_conv)
  have cl: "(os', p') = (fst s3, p\<lparr>pr_fds := f7[r0 := None, e0 := None, w0 := None, sock := None]\<rparr>)"
    using c v ne by (simp add: s3 close_fd_eq)
  have "fd_at (f7[r0 := None, e0 := None, w0 := None, sock := None]) =
      ?T(w \<mapsto> Pipe_wr ?k, e \<mapsto> Pipe_wr (?k + 1), r \<mapsto> Pipe_rd (?k + 2))"
    using fr a0 ne by (intro ext) (simp add: t7 fun_upd_apply)
  with a cl show ?thesis by (auto simp: s3)
qed

text \<open>
  C19. The same for the three streams of an extended invocation: the response and error pipes run
  to the one that asked, the third pipe from it, each with the two ends in the two processes;
  and here too the asker is left with a copy of the runner's standard input.
\<close>

theorem react_pipes_connect:
  assumes "open_react_anon_pipes n (os, srv) = (Inr (w, e, r), (os1, srv1))" and "fd_at (pr_fds srv) 0 = Some stdin"
    and "sock_addr n = Some a" and "os_bound os a = Some []"
    and "fd_at (pr_fds cl) sock = Some (Sock (Some a))" and "length (pr_fds cl) + 4 \<le> pr_limit cl"
  shows "\<exists>k1 k2 k3 w' e' r' lost os2 cl1.
     obtain_response_stream sock (os1, cl) = Some (Inr (pr_pid srv, w', Some e', Some r'), (os2, cl1)) \<and>
     fd_at (pr_fds srv1) = (fd_at (pr_fds srv))(w \<mapsto> Pipe_wr k1, e \<mapsto> Pipe_wr k2, r \<mapsto> Pipe_rd k3) \<and>
     distinct [k1, k2, k3] \<and> distinct [w', e', r', lost] \<and> list_all (\<lambda>d. fd_at (pr_fds cl) d = None) [w', e', r', lost] \<and>
     fd_at (pr_fds cl1) =
       (fd_at (pr_fds cl))(w' \<mapsto> Pipe_rd k1, e' \<mapsto> Pipe_rd k2, r' \<mapsto> Pipe_wr k3, lost \<mapsto> stdin, sock := None)"
proof -
  from open_react_result [OF assms(1,2)] assms(3,4) obtain k where
      q: "os_bound os1 a = Some (Pid_msg (pr_pid srv) 3 # Rights [Pipe_rd k, Pipe_rd (k + 1), Pipe_wr (k + 2), stdin] # [])"
    and w: "fd_at (pr_fds srv1) = (fd_at (pr_fds srv))(w \<mapsto> Pipe_wr k, e \<mapsto> Pipe_wr (k + 1), r \<mapsto> Pipe_rd (k + 2))"
    by auto
  from obtain_result [OF assms(5) q] assms(6) obtain ns os2 cl1 where
      o: "obtain_response_stream sock (os1, cl) = Some (Inr (pr_pid srv, ns ! 0, Some (ns ! 1), Some (ns ! 2)), (os2, cl1))"
    and l: "length ns = 4" "distinct ns" "list_all (\<lambda>n. fd_at (pr_fds cl) n = None) ns"
    and t: "fd_at (pr_fds cl1) = ((fd_at (pr_fds cl))(ns [\<mapsto>] [Pipe_rd k, Pipe_rd (k + 1), Pipe_wr (k + 2), stdin]))(sock := None)"
    by auto
  from l(1) obtain x1 x2 x3 x4 where ns: "ns = [x1, x2, x3, x4]"
    by (auto simp: eval_nat_numeral length_Suc_conv)
  have h: "obtain_response_stream sock (os1, cl) = Some (Inr (pr_pid srv, x1, Some x2, Some x3), (os2, cl1))"
    using o unfolding ns by (simp add: numeral_2_eq_2)
  have g: "distinct [k, k + 1, k + 2]" "distinct [x1, x2, x3, x4]" "list_all (\<lambda>d. fd_at (pr_fds cl) d = None) [x1, x2, x3, x4]"
    "fd_at (pr_fds cl1) = (fd_at (pr_fds cl))(x1 \<mapsto> Pipe_rd k, x2 \<mapsto> Pipe_rd (k + 1), x3 \<mapsto> Pipe_wr (k + 2), x4 \<mapsto> stdin, sock := None)"
    using l t unfolding ns by simp_all
  show ?thesis by (intro exI conjI, rule h, rule w) (rule g)+
qed

definition asked :: os_state where
  "asked = \<lparr>os_bound = [NUL # ''tmp/a'' \<mapsto> []], os_pipes = 7\<rparr>"

definition asker :: process where
  "asker = \<lparr>pr_pid = 300, pr_limit = 16, pr_fds = [Some (Pipe_rd 0), Some (Pipe_wr 1), Some (Pipe_wr 1),
     Some (Sock (Some (NUL # ''tmp/a'')))]\<rparr>"

definition runner :: process where
  "runner = \<lparr>pr_pid = 400, pr_limit = 16, pr_fds = [Some (Pipe_rd 2), None, Some (Pipe_wr 3)]\<rparr>"

theorem write_pipe_connects_witness:
  "\<exists>os1 srv1 k rd lost os2 cl1. open_write_anon_pipe ''/tmp/a'' (asked, runner) = (Inr 4, (os1, srv1)) \<and>
     obtain_response_stream 3 (os1, asker) = Some (Inr (400, rd, None, None), (os2, cl1)) \<and>
     fd_at (pr_fds srv1) 4 = Some (Pipe_wr k) \<and> fd_at (pr_fds cl1) rd = Some (Pipe_rd k) \<and>
     fd_at (pr_fds cl1) lost = Some (Pipe_rd 2) \<and> rd \<noteq> lost"
proof -
  let ?r = "open_write_anon_pipe ''/tmp/a'' (asked, runner)"
  have "fst ?r = Inr 4" by code_simp
  then obtain os1 srv1 where o: "?r = (Inr 4, (os1, srv1))" by (cases ?r) auto
  have a: "sock_addr ''/tmp/a'' = Some (NUL # ''tmp/a'')" by code_simp
  from write_pipe_connects [OF o _ a, of "Pipe_rd 2" asker 3] obtain k rd lost os2 cl1 where
      c: "obtain_response_stream 3 (os1, asker) = Some (Inr (400, rd, None, None), (os2, cl1))"
    and w: "fd_at (pr_fds srv1) = (fd_at (pr_fds runner))(4 \<mapsto> Pipe_wr k)"
    and d: "distinct [rd, lost]" "fd_at (pr_fds asker) rd = None" "fd_at (pr_fds asker) lost = None"
    and t: "fd_at (pr_fds cl1) = (fd_at (pr_fds asker))(rd \<mapsto> Pipe_rd k, lost \<mapsto> Pipe_rd 2, 3 := None)"
    by (auto simp: asked_def asker_def runner_def fd_at_def)
  have "fd_at (pr_fds asker) 3 \<noteq> None" by (simp add: asker_def fd_at_def)
  with d have "rd \<noteq> 3" "lost \<noteq> 3" by metis+
  with o c w d(1) show ?thesis by (fastforce simp: t)
qed

theorem react_pipes_connect_witness:
  "\<exists>w e r os1 srv1 k1 k2 k3 w' e' r' os2 cl1.
     open_react_anon_pipes ''/tmp/a'' (asked, runner) = (Inr (w, e, r), (os1, srv1)) \<and>
     obtain_response_stream 3 (os1, asker) = Some (Inr (400, w', Some e', Some r'), (os2, cl1)) \<and>
     distinct [k1, k2, k3] \<and> fd_at (pr_fds srv1) r = Some (Pipe_rd k3) \<and> fd_at (pr_fds cl1) r' = Some (Pipe_wr k3)"
proof -
  let ?r = "open_react_anon_pipes ''/tmp/a'' (asked, runner)"
  have "case fst ?r of Inl e \<Rightarrow> False | Inr a \<Rightarrow> True" by code_simp
  then obtain w e r os1 srv1 where o: "?r = (Inr (w, e, r), (os1, srv1))"
    by (cases ?r) (auto split: sum.splits)
  have a: "sock_addr ''/tmp/a'' = Some (NUL # ''tmp/a'')" by code_simp
  from react_pipes_connect [OF o _ a, of "Pipe_rd 2" asker 3] obtain k1 k2 k3 w' e' r' lost os2 cl1 where
      c: "obtain_response_stream 3 (os1, asker) = Some (Inr (400, w', Some e', Some r'), (os2, cl1))"
    and d: "distinct [k1, k2, k3]"
    and v: "fd_at (pr_fds srv1) = (fd_at (pr_fds runner))(w \<mapsto> Pipe_wr k1, e \<mapsto> Pipe_wr k2, r \<mapsto> Pipe_rd k3)"
    and d': "distinct [w', e', r', lost]" "list_all (\<lambda>d. fd_at (pr_fds asker) d = None) [w', e', r', lost]"
    and t: "fd_at (pr_fds cl1) = (fd_at (pr_fds asker))(w' \<mapsto> Pipe_rd k1, e' \<mapsto> Pipe_rd k2, r' \<mapsto> Pipe_wr k3, lost \<mapsto> Pipe_rd 2, 3 := None)"
    by (auto simp: asked_def asker_def runner_def fd_at_def)
  have "fd_at (pr_fds asker) 3 \<noteq> None" by (simp add: asker_def fd_at_def)
  with d'(2) have "r' \<noteq> 3" unfolding list.pred_inject by metis
  then have "fd_at (pr_fds cl1) r' = Some (Pipe_wr k3)" using d' by (simp add: t)
  moreover have "fd_at (pr_fds srv1) r = Some (Pipe_rd k3)" by (simp add: v)
  ultimately show ?thesis using o c d by blast
qed

end
