(* ===== verification/SessionState.thy ===== *)
theory SessionState
  imports ProgramPath
begin

text \<open>
  The data of \<open>session-state.h\<close> and the constructor, the configuration handler and the copy
  operations of \<open>session-state.cpp\<close>. A shared pointer to a vector is an option of a list, the
  owned JVM handles are options of numbers.
\<close>

section \<open>Method descriptors\<close>

text \<open>\<open>enum class WhichMethod : short\<close>; a value is read from a stream by a cast, so any short can occur.\<close>

type_synonym which_method = "16 word"

abbreviation WM_NONE :: which_method where "WM_NONE \<equiv> 0"
abbreviation WM_MAIN :: which_method where "WM_MAIN \<equiv> 1"
abbreviation WM_GET_STATUS :: which_method where "WM_GET_STATUS \<equiv> 2"
abbreviation WM_SUPERVISOR_SHUTDOWN :: which_method where "WM_SUPERVISOR_SHUTDOWN \<equiv> 3"
abbreviation WM_CHILD_NOTIFY :: which_method where "WM_CHILD_NOTIFY \<equiv> 4"
abbreviation WM_CHILD_COMPLETION_NOTIFY :: which_method where "WM_CHILD_COMPLETION_NOTIFY \<equiv> 5"
abbreviation WM_SUPERVISOR_DO_CMD :: which_method where "WM_SUPERVISOR_DO_CMD \<equiv> 6"
abbreviation WM_CHILD_DO_CMD :: which_method where "WM_CHILD_DO_CMD \<equiv> 7"
abbreviation WM_GET_CMD_DISPATCH_INFO :: which_method where "WM_GET_CMD_DISPATCH_INFO \<equiv> 8"

record method_descriptor =
  isStaticMethod :: bool
  whichMethod :: which_method
  fullMethodName :: string
  descriptor :: string

record method_descriptor_cmd = method_descriptor +
  command :: string
  jvmOptionsCommandLine :: string

definition md_default :: method_descriptor where
  "md_default = \<lparr>isStaticMethod = True, whichMethod = WM_NONE, fullMethodName = [], descriptor = []\<rparr>"

definition mdc_default :: method_descriptor_cmd where
  "mdc_default = \<lparr>isStaticMethod = True, whichMethod = WM_NONE, fullMethodName = [], descriptor = [],
     command = [], jvmOptionsCommandLine = []\<rparr>"

definition methodDescriptor :: "string \<Rightarrow> string \<Rightarrow> bool \<Rightarrow> which_method \<Rightarrow> method_descriptor" where
  "methodDescriptor full_method_name desc is_static_method which =
     \<lparr>isStaticMethod = is_static_method, whichMethod = which, fullMethodName = full_method_name, descriptor = desc\<rparr>"

definition methodDescriptorCmd ::
  "string \<Rightarrow> string \<Rightarrow> string \<Rightarrow> string \<Rightarrow> bool \<Rightarrow> which_method \<Rightarrow> method_descriptor_cmd" where
  "methodDescriptorCmd full_method_name desc cmd jvm_optns is_static_method which =
     \<lparr>isStaticMethod = is_static_method, whichMethod = which, fullMethodName = full_method_name, descriptor = desc,
      command = cmd, jvmOptionsCommandLine = jvm_optns\<rparr>"

definition md_empty :: "('a) method_descriptor_scheme \<Rightarrow> bool" where
  "md_empty md = (fullMethodName md = [])"

section \<open>sessionState\<close>

record session_state =
  supervisor_pid :: "32 word"
  child_process_max_count :: "16 word"
  spartanMainEntryPoint :: method_descriptor
  spartanGetStatusEntryPoint :: method_descriptor
  spartanSupervisorShutdownEntryPoint :: method_descriptor
  spartanChildNotifyEntryPoint :: method_descriptor
  spartanChildCompletionNotifyEntryPoint :: method_descriptor
  spartanSupervisorEntryPoint :: method_descriptor
  spartanChildProcessorEntryPoint :: method_descriptor
  spartanChildProcessorCommands :: string
  systemClassPath :: string
  spSpartanSupervisorCommands :: "method_descriptor_cmd list option"
  spSpartanChildProcessorCommands :: "method_descriptor_cmd list option"
  spSerializedSystemProperties :: "string list option"
  spartanLoggingLevel :: string
  jvmlib_path :: string
  libjvm_sp :: "nat option"
  jvm_sp :: "nat option"
  env_sp :: "nat option"

definition ss_default :: session_state where
  "ss_default = \<lparr>supervisor_pid = 0, child_process_max_count = 0, spartanMainEntryPoint = md_default,
     spartanGetStatusEntryPoint = md_default, spartanSupervisorShutdownEntryPoint = md_default,
     spartanChildNotifyEntryPoint = md_default, spartanChildCompletionNotifyEntryPoint = md_default,
     spartanSupervisorEntryPoint = md_default, spartanChildProcessorEntryPoint = md_default,
     spartanChildProcessorCommands = [], systemClassPath = [], spSpartanSupervisorCommands = None,
     spSpartanChildProcessorCommands = None, spSerializedSystemProperties = None, spartanLoggingLevel = [],
     jvmlib_path = [], libjvm_sp = None, jvm_sp = None, env_sp = None\<rparr>"

definition clone_info_part :: "session_state \<Rightarrow> session_state \<Rightarrow> session_state" where
  "clone_info_part self ss = self\<lparr>
     supervisor_pid := supervisor_pid ss,
     child_process_max_count := child_process_max_count ss,
     spartanMainEntryPoint := spartanMainEntryPoint ss,
     spartanGetStatusEntryPoint := spartanGetStatusEntryPoint ss,
     spartanSupervisorShutdownEntryPoint := spartanSupervisorShutdownEntryPoint ss,
     spartanChildNotifyEntryPoint := spartanChildNotifyEntryPoint ss,
     spartanChildCompletionNotifyEntryPoint := spartanChildCompletionNotifyEntryPoint ss,
     spartanSupervisorEntryPoint := spartanSupervisorEntryPoint ss,
     spartanChildProcessorEntryPoint := spartanChildProcessorEntryPoint ss,
     spartanChildProcessorCommands := spartanChildProcessorCommands ss,
     systemClassPath := systemClassPath ss,
     spSpartanSupervisorCommands := spSpartanSupervisorCommands ss,
     spSpartanChildProcessorCommands := spSpartanChildProcessorCommands ss,
     spSerializedSystemProperties := spSerializedSystemProperties ss,
     spartanLoggingLevel := spartanLoggingLevel ss,
     jvmlib_path := jvmlib_path ss\<rparr>"

definition move_assign :: "session_state \<Rightarrow> session_state \<Rightarrow> session_state \<times> session_state" where
  \<comment> \<open>\<open>operator=(sessionState &&)\<close>: the new left side and what is left of the right one\<close>
  "move_assign self ss =
     (let self = clone_info_part self ss;
          self = self\<lparr>libjvm_sp := libjvm_sp ss, jvm_sp := jvm_sp ss, env_sp := env_sp ss\<rparr>;
          ss = ss\<lparr>libjvm_sp := None, jvm_sp := None, env_sp := None\<rparr>
      in (self, ss))"

section \<open>The library path option\<close>

text \<open>\<open>popt\<close>'s \<open>poptParseArgvString\<close> is a parameter; \<open>None\<close> is a non-zero return code.\<close>

type_synonym popt_parser = "string \<Rightarrow> string list option"

definition PATH_SEPARATOR :: char where "PATH_SEPARATOR = CHR '':''"

definition java_lib_path_optn_str :: string where
  "java_lib_path_optn_str = ''-djava.library.path=''"

definition compare_argv_str :: "string \<Rightarrow> string \<Rightarrow> string option" where
  "compare_argv_str str1 str2 =
     (let argv_str_dup = map tolower str1 in map_option (\<lambda>k. drop k str1) (strstr argv_str_dup str2))"

definition replace_lib_path :: "string \<Rightarrow> string \<Rightarrow> string \<Rightarrow> string option" where
  \<comment> \<open>the rewritten line for the option text \<open>p\<close> found in an argument; \<open>None\<close> is the null
      dereference when the text is not in the unparsed line\<close>
  "replace_lib_path executable_dir jvm_cmd_line_args p =
     (let java_lib_path_optn = p;
          name = takeWhile (\<lambda>c. c \<noteq> CHR ''='') java_lib_path_optn;
          val = tl (dropWhile (\<lambda>c. c \<noteq> CHR ''='') java_lib_path_optn);
          strbuf1 = name @ ''='' @ executable_dir @ [PATH_SEPARATOR] @ val
      in case strstr jvm_cmd_line_args java_lib_path_optn of
           None \<Rightarrow> None
         | Some n \<Rightarrow> Some (take n jvm_cmd_line_args @ strbuf1 @
                           drop (n + length java_lib_path_optn) jvm_cmd_line_args))"

fun lib_path_loop :: "string \<Rightarrow> string \<Rightarrow> string list \<Rightarrow> string option option" where
  \<comment> \<open>the loop over \<open>argv\<close>; the outer \<open>None\<close>: no argument has the option\<close>
  "lib_path_loop executable_dir line [] = None"
| "lib_path_loop executable_dir line (a # argv) =
     (case compare_argv_str a java_lib_path_optn_str of
        Some p \<Rightarrow>
          (if CHR ''='' \<in> set (tl p) then Some (replace_lib_path executable_dir line p)
           else lib_path_loop executable_dir line argv)
      | None \<Rightarrow> lib_path_loop executable_dir line argv)"

definition prepend_to_java_library_path :: "popt_parser \<Rightarrow> string \<Rightarrow> string \<Rightarrow> string option" where
  "prepend_to_java_library_path popt executable_dir jvm_cmd_line_args =
     (let synthesized = Some (jvm_cmd_line_args @ '' '' @ java_lib_path_optn_str @ executable_dir) in
      case popt jvm_cmd_line_args of
        None \<Rightarrow> synthesized
      | Some argv \<Rightarrow>
          (case lib_path_loop executable_dir jvm_cmd_line_args argv of
             Some r \<Rightarrow> r
           | None \<Rightarrow> synthesized))"

section \<open>Configuration settings\<close>

datatype stoi_result = Stoi_ok int | Stoi_invalid | Stoi_out_of_range

definition stoi :: "string \<Rightarrow> stoi_result" where
  \<comment> \<open>\<open>std::stoi\<close> in base 10\<close>
  "stoi s =
     (let t = dropWhile isspace s;
          (neg, u) = (case t of [] \<Rightarrow> (False, t)
                      | c # v \<Rightarrow> if c = CHR ''-'' then (True, v) else if c = CHR ''+'' then (False, v) else (False, t));
          ds = takeWhile isdigit u;
          v = (if neg then - int (read_nat ds) else int (read_nat ds))
      in if ds = [] then Stoi_invalid
         else if v < - (2 ^ 31) \<or> v > 2 ^ 31 - 1 then Stoi_out_of_range
         else Stoi_ok v)"

record cfg_state =
  cfg_ss :: session_state
  s_jvm_cmd_line_args :: "string option option" \<comment> \<open>unset, set, or set through a null dereference\<close>
  cfg_logger :: logger

definition dots_to_slashes :: "string \<Rightarrow> string" where
  "dots_to_slashes s = map (\<lambda>c. if c = CHR ''.'' then CHR ''/'' else c) s"

definition invalid_count_msg :: "string \<Rightarrow> string \<Rightarrow> int \<Rightarrow> string" where
  "invalid_count_msg name e_what default_value =
     ''invalid value for setting '' @ name @ '' - '' @ e_what @ [NL, CHR 0x09] @ ''defaulting to '' @
     show_int default_value"

definition set_child_max :: "string \<Rightarrow> string \<Rightarrow> cfg_state \<Rightarrow> cfg_state" where
  "set_child_max name value_cstr st =
     (let st = st\<lparr>cfg_ss := (cfg_ss st)\<lparr>child_process_max_count := 40\<rparr>\<rparr> in
      case stoi value_cstr of
        Stoi_ok v \<Rightarrow> st\<lparr>cfg_ss := (cfg_ss st)\<lparr>child_process_max_count := word_of_int v\<rparr>\<rparr>
      | _ \<Rightarrow> st\<lparr>cfg_logger := log_msg WARN (invalid_count_msg name ''stoi''
               (sint (child_process_max_count (cfg_ss st)))) (cfg_logger st)\<rparr>)"

definition cfg_jvm :: "popt_parser \<Rightarrow> string \<Rightarrow> string \<Rightarrow> string \<Rightarrow> cfg_state \<Rightarrow> cfg_state" where
  "cfg_jvm popt executable_dir name value_cstr st =
     (if strcaseeq name ''CommandLineArgs''
      then st\<lparr>s_jvm_cmd_line_args := Some (prepend_to_java_library_path popt executable_dir value_cstr)\<rparr>
      else st)"

definition cfg_supervisor :: "string \<Rightarrow> string \<Rightarrow> session_state \<Rightarrow> session_state" where
  "cfg_supervisor name value_cstr ss =
     (if strcaseeq name ''MainEntryPoint'' then
        (let val = value_cstr in
         if val \<noteq> [] then ss\<lparr>spartanMainEntryPoint :=
           methodDescriptor (dots_to_slashes val @ ''/main'') ''([Ljava/lang/String;)V'' True WM_MAIN\<rparr> else ss)
      else if strcaseeq name ''GetStatusEntryPoint'' then
        (let val = value_cstr in
         if val \<noteq> [] then ss\<lparr>spartanGetStatusEntryPoint :=
           methodDescriptor (dots_to_slashes val) ''(Ljava/io/PrintStream;)V'' False WM_GET_STATUS\<rparr> else ss)
      else if strcaseeq name ''SupervisorShutdownEntryPoint'' then
        (let val = value_cstr in
         if val \<noteq> [] then ss\<lparr>spartanSupervisorShutdownEntryPoint :=
           methodDescriptor (dots_to_slashes val) ''()V'' False WM_SUPERVISOR_SHUTDOWN\<rparr> else ss)
      else if strcaseeq name ''ChildNotifyEntryPoint'' then
        (let val = value_cstr in
         if val \<noteq> [] then ss\<lparr>spartanChildNotifyEntryPoint :=
           methodDescriptor (dots_to_slashes val) ''(ILjava/lang/String;)V'' False WM_CHILD_NOTIFY\<rparr> else ss)
      else if strcaseeq name ''ChildCompletionNotifyEntryPoint'' then
        (let val = value_cstr in
         if val \<noteq> [] then ss\<lparr>spartanChildCompletionNotifyEntryPoint :=
           methodDescriptor (dots_to_slashes val) ''(I)V'' False WM_CHILD_COMPLETION_NOTIFY\<rparr> else ss)
      else if strcaseeq name ''SupervisorEntryPoint'' then
        (let val = [] :: string in \<comment> \<open>tested before it is assigned\<close>
         if val \<noteq> [] then (let val = value_cstr in ss\<lparr>spartanSupervisorEntryPoint :=
           methodDescriptor (dots_to_slashes val) ''([Ljava/lang/String;Ljava/io/PrintStream;)V'' False
             WM_SUPERVISOR_DO_CMD\<rparr>) else ss)
      else ss)"

definition cfg_child :: "string \<Rightarrow> string \<Rightarrow> cfg_state \<Rightarrow> cfg_state" where
  "cfg_child name value_cstr st =
     (if strcaseeq name ''ChildProcessMaxCount'' then set_child_max name value_cstr st
      else if strcaseeq name ''ChildProcessorEntryPoint'' then
        (let val = value_cstr in
         if val \<noteq> [] then st\<lparr>cfg_ss := (cfg_ss st)\<lparr>spartanChildProcessorEntryPoint :=
           methodDescriptor (dots_to_slashes val) ''([Ljava/lang/String;Ljava/io/PrintStream;)V'' True
             WM_CHILD_DO_CMD\<rparr>\<rparr> else st)
      else if strcaseeq name ''ChildProcessorCommands'' then
        st\<lparr>cfg_ss := (cfg_ss st)\<lparr>spartanChildProcessorCommands := value_cstr\<rparr>\<rparr>
      else st)"

definition cfg_logging :: "string \<Rightarrow> string \<Rightarrow> cfg_state \<Rightarrow> cfg_state" where
  "cfg_logging name value_cstr st =
     (if strcaseeq name ''LoggingLevel''
      then st\<lparr>cfg_logger := set_level (str_to_level value_cstr) (cfg_logger st),
              cfg_ss := (cfg_ss st)\<lparr>spartanLoggingLevel := value_cstr\<rparr>\<rparr>
      else st)"

definition cfg_handler :: "popt_parser \<Rightarrow> string \<Rightarrow> cfg_state cfg_parse_handler" where
  \<comment> \<open>the lambda the constructor passes to \<open>process_config\<close>\<close>
  "cfg_handler popt executable_dir st sect name value_cstr =
     ((if strcaseeq sect ''JvmSettings'' then cfg_jvm popt executable_dir name value_cstr st
       else if strcaseeq sect ''SupervisorProcessSettings''
       then st\<lparr>cfg_ss := cfg_supervisor name value_cstr (cfg_ss st)\<rparr>
       else if strcaseeq sect ''ChildProcessSettings'' then cfg_child name value_cstr st
       else if strcaseeq sect ''LoggingSettings'' then cfg_logging name value_cstr st
       else st), 1)"

section \<open>The constructor\<close>

datatype session_error =
    Invalid_initialization string
  | Open_jvm_runtime string
  | Undefined_behaviour

record ctor_env =
  ce_files :: file_env
  ce_lstat :: "string \<Rightarrow> 32 word option"
  ce_getenv :: "string \<Rightarrow> string option"
  ce_executable_dir :: string
  ce_progpath :: string
  ce_popt :: popt_parser
  ce_open_jvm :: "string \<Rightarrow> session_error + nat" \<comment> \<open>\<open>open_jvm_runtime_module\<close>\<close>

definition entry_class :: "string \<Rightarrow> string" where
  "entry_class full_entry_point_name =
     (case strrsplit CHR ''/'' full_entry_point_name of
        None \<Rightarrow> []
      | Some (cls, m) \<Rightarrow> if m = [] then [] else cls)"

definition default_class :: "session_state \<Rightarrow> string" where
  "default_class ss =
     (let class_name = (if \<not> md_empty (spartanMainEntryPoint ss)
                        then entry_class (fullMethodName (spartanMainEntryPoint ss)) else [])
      in if class_name = [] then ''spartan/SpartanBase'' else dots_to_slashes class_name)"

definition default_entry :: "method_descriptor \<Rightarrow> string \<Rightarrow> string \<Rightarrow> string \<Rightarrow> bool \<Rightarrow> which_method \<Rightarrow> method_descriptor" where
  "default_entry md class_name method desc is_static which =
     (if md_empty md then methodDescriptor (class_name @ method) desc is_static which else md)"

definition default_entries :: "session_state \<Rightarrow> session_state" where
  "default_entries ss =
     (let class_name = default_class ss in ss\<lparr>
        spartanGetStatusEntryPoint := default_entry (spartanGetStatusEntryPoint ss) class_name
          ''/status'' ''(Ljava/io/PrintStream;)V'' False WM_GET_STATUS,
        spartanSupervisorShutdownEntryPoint := default_entry (spartanSupervisorShutdownEntryPoint ss) class_name
          ''/supervisorShutdown'' ''()V'' False WM_SUPERVISOR_SHUTDOWN,
        spartanChildNotifyEntryPoint := default_entry (spartanChildNotifyEntryPoint ss) class_name
          ''/childProcessNotify'' ''(ILjava/lang/String;)V'' False WM_CHILD_NOTIFY,
        spartanChildCompletionNotifyEntryPoint := default_entry (spartanChildCompletionNotifyEntryPoint ss) class_name
          ''/childProcessCompletionNotify'' ''(I)V'' False WM_CHILD_COMPLETION_NOTIFY,
        spartanSupervisorEntryPoint := default_entry (spartanSupervisorEntryPoint ss) class_name
          ''/supervisorDoCommand'' ''([Ljava/lang/String;Ljava/io/PrintStream;)V'' False WM_SUPERVISOR_DO_CMD\<rparr>)"

definition finish_entries :: "string \<Rightarrow> session_state \<Rightarrow> session_error + session_state" where
  "finish_entries cfg_file ss =
     (let class_name = default_class ss; ss = default_entries ss in
      if \<not> md_empty (spartanChildProcessorEntryPoint ss) \<and> spartanChildProcessorCommands ss = []
      then Inl (Invalid_initialization (format2str
             ([DQUOTE] @ cfg_file @ [DQUOTE] @ '' missing required setting '' @ [DQUOTE] @
              ''ChildProcessorCommands'' @ [DQUOTE])))
      else if md_empty (spartanChildProcessorEntryPoint ss)
      then Inr (ss\<lparr>spartanChildProcessorEntryPoint := methodDescriptor (class_name @ ''/childWorkerDoCommand'')
             ''([Ljava/lang/String;Ljava/io/PrintStream;)V'' True WM_CHILD_DO_CMD\<rparr>)
      else Inr ss)"

definition cfg_start :: "logger \<Rightarrow> string \<Rightarrow> cfg_state" where
  "cfg_start lg lib = \<lparr>cfg_ss = ss_default\<lparr>jvmlib_path := lib\<rparr>, s_jvm_cmd_line_args = None, cfg_logger = lg\<rparr>"

definition sessionState :: "ctor_env \<Rightarrow> logger \<Rightarrow> string \<Rightarrow> string \<Rightarrow> session_error + cfg_state" where
  "sessionState env lg cfg_file lib =
     (case get_cfg_dir (ce_files env) (ce_lstat env) (ce_getenv env) (ce_executable_dir env) (ce_progpath env) cfg_file of
        None \<Rightarrow> Inl Undefined_behaviour
      | Some cfg_dir \<Rightarrow>
          (case process_config (ce_files env) cfg_dir cfg_file (cfg_handler (ce_popt env) (ce_executable_dir env))
                  (cfg_start lg lib) of
             (st, Inl (Process_cfg_exception what)) \<Rightarrow>
               Inl (Invalid_initialization (format2str (''failure attempting to process '' @ [DQUOTE] @ cfg_file @
                 [DQUOTE, CHR '':'', NL, CHR 0x09] @ ''process_cfg_exception: '' @ what)))
           | (st, Inr False) \<Rightarrow>
               Inl (Invalid_initialization (format2str ([DQUOTE] @ cfg_file @ [DQUOTE] @ '' not found'')))
           | (st, Inr True) \<Rightarrow>
               (if s_jvm_cmd_line_args st = Some None then Inl Undefined_behaviour
                else bind_r (finish_entries cfg_file (cfg_ss st)) (\<lambda>ss.
                     bind_r (ce_open_jvm env (jvmlib_path ss)) (\<lambda>h.
                     Inr (st\<lparr>cfg_ss := ss\<lparr>libjvm_sp := Some h\<rparr>\<rparr>))))))"

section \<open>The entry points\<close>

definition typed_as :: "method_descriptor \<Rightarrow> bool \<Rightarrow> which_method \<Rightarrow> string \<Rightarrow> bool" where
  "typed_as md st w d = (isStaticMethod md = st \<and> whichMethod md = w \<and> descriptor md = d)"

definition slot_ok :: "method_descriptor \<Rightarrow> bool \<Rightarrow> which_method \<Rightarrow> string \<Rightarrow> bool" where
  "slot_ok md st w d = (md_empty md \<or> typed_as md st w d)"

definition slots :: "session_state \<Rightarrow> (method_descriptor \<times> bool \<times> which_method \<times> string) list" where
  "slots ss =
     [(spartanGetStatusEntryPoint ss, False, WM_GET_STATUS, ''(Ljava/io/PrintStream;)V''),
      (spartanSupervisorShutdownEntryPoint ss, False, WM_SUPERVISOR_SHUTDOWN, ''()V''),
      (spartanChildNotifyEntryPoint ss, False, WM_CHILD_NOTIFY, ''(ILjava/lang/String;)V''),
      (spartanChildCompletionNotifyEntryPoint ss, False, WM_CHILD_COMPLETION_NOTIFY, ''(I)V''),
      (spartanSupervisorEntryPoint ss, False, WM_SUPERVISOR_DO_CMD, ''([Ljava/lang/String;Ljava/io/PrintStream;)V''),
      (spartanChildProcessorEntryPoint ss, True, WM_CHILD_DO_CMD, ''([Ljava/lang/String;Ljava/io/PrintStream;)V'')]"

definition entries_inv :: "session_state \<Rightarrow> bool" where
  "entries_inv ss =
     ((\<forall>(md, st, w, d)\<in>set (slots ss). slot_ok md st w d) \<and> md_empty (spartanSupervisorEntryPoint ss) \<and>
      slot_ok (spartanMainEntryPoint ss) True WM_MAIN ''([Ljava/lang/String;)V'')"

lemma entries_inv_supervisor [inv_intros]: "entries_inv ss \<Longrightarrow> entries_inv (cfg_supervisor n v ss)"
  by (simp add: cfg_supervisor_def entries_inv_def slots_def slot_ok_def typed_as_def methodDescriptor_def Let_def)

lemma entries_inv_count: "entries_inv (ss\<lparr>child_process_max_count := k\<rparr>) = entries_inv ss"
  "entries_inv (ss\<lparr>spartanChildProcessorCommands := c\<rparr>) = entries_inv ss"
  "entries_inv (ss\<lparr>spartanLoggingLevel := l\<rparr>) = entries_inv ss"
  by (simp_all add: entries_inv_def slots_def)

lemma entries_inv_child [inv_intros]: "entries_inv (cfg_ss st) \<Longrightarrow> entries_inv (cfg_ss (cfg_child n v st))"
  by (auto simp: cfg_child_def set_child_max_def entries_inv_count Let_def split: stoi_result.splits)
    (auto simp: entries_inv_def slots_def slot_ok_def typed_as_def methodDescriptor_def)

lemma entries_inv_handler [inv_intros]:
  "entries_inv (cfg_ss st) \<Longrightarrow> entries_inv (cfg_ss (fst (cfg_handler popt exe st sect n v)))"
  by (auto simp: cfg_handler_def cfg_jvm_def cfg_logging_def entries_inv_count intro: inv_intros)

text \<open>An invariant of the handler's state that every call keeps holds after parsing any file.\<close>

definition handler_keeps :: "('u \<Rightarrow> bool) \<Rightarrow> 'u cfg_parse_handler \<Rightarrow> bool" where
  "handler_keeps P h = (\<forall>u s n v. P u \<longrightarrow> P (fst (h u s n v)))"

lemma ini_line_keeps: "handler_keeps P h \<Longrightarrow> P (user st) \<Longrightarrow> P (user (ini_line h line st))"
  by (auto simp: ini_line_def ini_section_line_def ini_name_line_def report_eilseq_def handler_keeps_def Let_def
      split: list.splits option.splits prod.splits) (metis fst_conv)+

lemma ini_loop_keeps: "handler_keeps P h \<Longrightarrow> P (user st) \<Longrightarrow> P (user (ini_loop h inp st))"
proof (induction h inp st rule: ini_loop.induct)
  case (1 h inp st)
  then show ?case
    by (cases "fgets INI_MAX_LINE inp")
       (auto simp: ini_loop.simps [of h inp st] ini_line_keeps Let_def)
qed

lemma process_config_keeps:
  assumes "handler_keeps P h" and "P u"
  shows "P (fst (process_config env d f h u))"
proof -
  have "P (fst (ini_parse h t ce u))" for t ce
    using ini_loop_keeps [OF assms(1), of "ini_start u"] assms(2)
    by (auto simp: ini_parse_def ini_parse_file_core_def Let_def ini_start_def split: sum.splits)
  then show ?thesis using assms(2)
    by (auto simp: process_config_def Let_def split: option.splits prod.splits) (metis fst_conv)
qed

lemma default_entry_ok:
  assumes "slot_ok md st w d" and "m \<noteq> []"
  shows "\<not> md_empty (default_entry md c m d st w)" "typed_as (default_entry md c m d st w) st w d"
  using assms by (auto simp: default_entry_def slot_ok_def typed_as_def methodDescriptor_def md_empty_def)

lemma methodDescriptor_ok:
  "m \<noteq> [] \<Longrightarrow> \<not> md_empty (methodDescriptor (c @ m) d st w)" "typed_as (methodDescriptor n d st w) st w d"
  by (simp_all add: typed_as_def methodDescriptor_def md_empty_def)

lemma finish_entries_ready:
  assumes "entries_inv ss" and "finish_entries cfg_file ss = Inr ss'"
  shows "(\<forall>(md, st, w, d)\<in>set (slots ss'). \<not> md_empty md \<and> typed_as md st w d) \<and>
     spartanSupervisorEntryPoint ss' = methodDescriptor (default_class ss @ ''/supervisorDoCommand'')
       ''([Ljava/lang/String;Ljava/io/PrintStream;)V'' False WM_SUPERVISOR_DO_CMD"
proof (cases "md_empty (spartanChildProcessorEntryPoint ss)")
  case True
  then have "ss' = (default_entries ss)\<lparr>spartanChildProcessorEntryPoint :=
      methodDescriptor (default_class ss @ ''/childWorkerDoCommand'')
        ''([Ljava/lang/String;Ljava/io/PrintStream;)V'' True WM_CHILD_DO_CMD\<rparr>"
    using assms(2) by (simp add: finish_entries_def default_entries_def Let_def)
  with assms(1) show ?thesis
    by (simp add: entries_inv_def slots_def default_entries_def default_entry_ok methodDescriptor_ok Let_def)
       (simp add: default_entry_def)
next
  case False
  then have "ss' = default_entries ss"
    using assms(2) by (simp add: finish_entries_def default_entries_def Let_def split: if_splits)
  with assms(1) False show ?thesis
    by (simp add: entries_inv_def slots_def default_entries_def default_entry_ok Let_def)
       (simp add: default_entry_def slot_ok_def)
qed

lemma sessionState_ready:
  assumes "sessionState env lg cfg_file lib = Inr st"
  shows "(\<forall>(md, s, w, d)\<in>set (slots (cfg_ss st)). \<not> md_empty md \<and> typed_as md s w d) \<and>
     (\<exists>c. spartanSupervisorEntryPoint (cfg_ss st) = methodDescriptor (c @ ''/supervisorDoCommand'')
       ''([Ljava/lang/String;Ljava/io/PrintStream;)V'' False WM_SUPERVISOR_DO_CMD)"
proof -
  obtain cfg_dir st0 ss h where p: "process_config (ce_files env) cfg_dir cfg_file
        (cfg_handler (ce_popt env) (ce_executable_dir env)) (cfg_start lg lib) = (st0, Inr True)"
    and f: "finish_entries cfg_file (cfg_ss st0) = Inr ss" and st: "st = st0\<lparr>cfg_ss := ss\<lparr>libjvm_sp := Some h\<rparr>\<rparr>"
    using assms
    by (auto simp: sessionState_def bind_r_Inr split: option.splits prod.splits sum.splits cfg_error.splits
        bool.splits if_splits)
  have "handler_keeps (\<lambda>st. entries_inv (cfg_ss st)) (cfg_handler (ce_popt env) (ce_executable_dir env))"
    by (simp add: handler_keeps_def inv_intros)
  moreover have "entries_inv (cfg_ss (cfg_start lg lib))"
    by (simp add: cfg_start_def entries_inv_def slots_def slot_ok_def ss_default_def md_default_def md_empty_def)
  ultimately have "entries_inv (cfg_ss (fst (process_config (ce_files env) cfg_dir cfg_file
        (cfg_handler (ce_popt env) (ce_executable_dir env)) (cfg_start lg lib))))"
    by (rule process_config_keeps)
  then have "entries_inv (cfg_ss st0)" by (simp add: p)
  from finish_entries_ready [OF this f] show ?thesis by (auto simp: st slots_def)
qed


definition example_cfg :: string where
  "example_cfg = ini_text [Ini_section ''ChildProcessSettings'', Ini_entry ''ChildProcessMaxCount'' ''7'',
     Ini_section ''SupervisorProcessSettings'', Ini_entry ''SupervisorEntryPoint'' ''a.B.cmd'']"

definition example_env :: ctor_env where
  "example_env = \<lparr>ce_files = \<lparr>stat_mode = (\<lambda>p. Some 0x81A4), file_text = (\<lambda>p. Inr example_cfg), fclose_errno = (\<lambda>p. 0)\<rparr>,
     ce_lstat = (\<lambda>p. Some 0x81ED), ce_getenv = (\<lambda>v. None), ce_executable_dir = ''/opt'', ce_progpath = ''/opt/app'',
     ce_popt = (\<lambda>s. None), ce_open_jvm = (\<lambda>p. Inr 3)\<rparr>"

lemma example_ctor: "\<exists>st. sessionState example_env logger_init ''config.ini'' ''libjvm.so'' = Inr st"
proof -
  have "(case sessionState example_env logger_init ''config.ini'' ''libjvm.so'' of Inr st \<Rightarrow> True | Inl e \<Rightarrow> False)"
    by code_simp
  then show ?thesis by (auto split: sum.splits)
qed


text \<open>
  The setting \<open>SupervisorEntryPoint\<close> has no effect: with any configuration file the
  supervisor's command method is \<open>supervisorDoCommand\<close> of some class, because the handler
  tests its local \<open>value\<close> before assigning it.
\<close>

theorem supervisor_entry_point_ignored:
  assumes "sessionState env lg cfg_file lib = Inr st"
  shows "\<exists>c. spartanSupervisorEntryPoint (cfg_ss st) = methodDescriptor (c @ ''/supervisorDoCommand'')
     ''([Ljava/lang/String;Ljava/io/PrintStream;)V'' False WM_SUPERVISOR_DO_CMD"
  using sessionState_ready [OF assms] by blast

theorem supervisor_entry_point_ignored_witness:
  "\<exists>st c. sessionState example_env logger_init ''config.ini'' ''libjvm.so'' = Inr st \<and>
     spartanSupervisorEntryPoint (cfg_ss st) = methodDescriptor (c @ ''/supervisorDoCommand'')
     ''([Ljava/lang/String;Ljava/io/PrintStream;)V'' False WM_SUPERVISOR_DO_CMD"
  using example_ctor supervisor_entry_point_ignored by blast

section \<open>The maximum child count\<close>

lemma isdigit_hd: "s \<noteq> [] \<Longrightarrow> \<forall>c\<in>set s. isdigit c \<Longrightarrow> \<not> isspace (hd s) \<and> hd s \<noteq> CHR ''-'' \<and> hd s \<noteq> CHR ''+''"
  by (cases s) (auto dest: isdigit_cases)

lemma stoi_show: "- (2 ^ 31) \<le> v \<Longrightarrow> v < 2 ^ 31 \<Longrightarrow> stoi (show_int v) = Stoi_ok v"
proof -
  assume v: "- (2 ^ 31) \<le> v" "v < 2 ^ 31"
  have t: "takeWhile isdigit (show_nat n) = show_nat n" for n
    using show_nat_digits [of n] by simp
  have d: "show_nat n \<noteq> [] \<and> \<not> isspace (hd (show_nat n)) \<and> hd (show_nat n) \<noteq> CHR ''-'' \<and> hd (show_nat n) \<noteq> CHR ''+''" for n
    using isdigit_hd [OF show_nat_ne show_nat_digits] by simp
  show ?thesis
  proof (cases "v < 0")
    case True
    have "\<not> isspace CHR ''-''" by code_simp
    with True v show ?thesis by (simp add: stoi_def show_int_def Let_def t del: takeWhile_eq_all_conv)
  next
    case False
    obtain c cs where c: "show_nat (nat v) = c # cs" by (cases "show_nat (nat v)") auto
    with d [of "nat v"] have "\<not> isspace c" "c \<noteq> CHR ''-''" "c \<noteq> CHR ''+''" by auto
    moreover have tw: "takeWhile isdigit (c # cs) = c # cs" using t [of "nat v"] by (simp only: c)
    moreover have rd: "read_nat (c # cs) = nat v" using read_show_nat [of "nat v"] by (simp only: c)
    ultimately show ?thesis using False v
      by (simp add: stoi_def show_int_def Let_def c tw rd del: takeWhile.simps takeWhile_eq_all_conv)
  qed
qed

text \<open>
  A numeric \<open>ChildProcessMaxCount\<close> is taken as it is when it fits a short; any other
  32-bit number is silently reduced modulo 65536, so that a large setting can become zero or
  negative; and a value that is no 32-bit number gives the default 40.
\<close>

theorem child_max_count:
  "(stoi v = Stoi_ok n \<longrightarrow> sint (child_process_max_count (cfg_ss (set_child_max name v st))) = (n + 2 ^ 15) mod 2 ^ 16 - 2 ^ 15) \<and>
   (stoi v = Stoi_invalid \<or> stoi v = Stoi_out_of_range \<longrightarrow>
      sint (child_process_max_count (cfg_ss (set_child_max name v st))) = 40) \<and>
   (- (2 ^ 15) \<le> n \<and> n < 2 ^ 15 \<longrightarrow>
      sint (child_process_max_count (cfg_ss (set_child_max name (show_int n) st))) = n)"
proof -
  have s: "sint (word_of_int n :: 16 word) = (n + 2 ^ 15) mod 2 ^ 16 - 2 ^ 15" for n
    by (simp add: signed_of_int signed_take_bit_eq_take_bit_shift take_bit_eq_mod)
  have "- (2 ^ 15) \<le> n \<and> n < 2 ^ 15 \<longrightarrow>
      sint (child_process_max_count (cfg_ss (set_child_max name (show_int n) st))) = n"
    by (auto simp: set_child_max_def stoi_show s)
  then show ?thesis by (auto simp: set_child_max_def s)
qed

theorem child_max_count_witness:
  "sint (child_process_max_count (cfg_ss (set_child_max ''ChildProcessMaxCount'' ''40000'' (cfg_start logger_init [])))) = -25536"
proof -
  have "stoi ''40000'' = Stoi_ok 40000"
    by (simp add: stoi_def isspace_def isdigit_def digit_val_def read_nat_def)
  from conjunct1 [OF child_max_count, rule_format, OF this] show ?thesis by simp
qed

section \<open>The rewritten command line\<close>

lemma map_append_split: "map f p = x @ y \<Longrightarrow> \<exists>n w. p = n @ w \<and> map f n = x \<and> map f w = y"
  by (auto simp: map_eq_append_conv)

lemma optn_split:
  assumes "compare_argv_str a java_lib_path_optn_str = Some p"
  shows "\<exists>n v. p = n @ CHR ''='' # v \<and> strcaseeq n ''-Djava.library.path'' \<and> CHR ''='' \<notin> set n \<and> CHR ''='' \<in> set (tl p)"
proof -
  define opt where "opt = ''-djava.library.path''"
  obtain k where k: "strstr (map tolower a) java_lib_path_optn_str = Some k" and p: "p = drop k a"
    using assms by (auto simp: compare_argv_str_def Let_def)
  obtain t where t: "map tolower a = take k (map tolower a) @ java_lib_path_optn_str @ t"
    and le: "k + length java_lib_path_optn_str \<le> length (map tolower a)"
    using strstr_Some [OF k] by blast
  have "map tolower p = drop k (map tolower a)" by (simp add: p drop_map)
  also have "\<dots> = java_lib_path_optn_str @ t"
    using t le by (metis add_leD1 append_eq_conv_conj length_take min.absorb2)
  finally have m: "map tolower p = opt @ CHR ''='' # t" by (simp add: java_lib_path_optn_str_def opt_def)
  obtain n w where p': "p = n @ w" and n: "map tolower n = opt" and w: "map tolower w = CHR ''='' # t"
    using map_append_split [OF m] by (elim exE conjE) (rule that)
  obtain c v where w': "w = c # v" and c: "tolower c = CHR ''=''" using w by auto
  have ceq: "tolower c = CHR ''='' \<Longrightarrow> c = CHR ''=''" for c
  proof -
    assume "tolower c = CHR ''=''"
    then have "(of_char (tolower c) :: nat) = 61" by simp
    then have "(of_char c :: nat) = of_char CHR ''=''" by (auto simp: of_char_tolower split: if_splits)
    then show "c = CHR ''=''" by (simp only: of_char_eq_iff)
  qed
  have lo: "map tolower ''-Djava.library.path'' = opt" unfolding opt_def by code_simp
  have te: "tolower CHR ''='' = CHR ''=''" by code_simp
  have ne: "CHR ''='' \<notin> set n"
  proof
    assume "CHR ''='' \<in> set n"
    then have "tolower CHR ''='' \<in> set (map tolower n)" by auto
    then show False by (simp only: n te) (simp add: opt_def)
  qed
  moreover have "n \<noteq> []" using n by (auto simp: opt_def)
  ultimately show ?thesis using p' w' ceq [OF c] n lo by (auto simp: strcaseeq_def neq_Nil_conv)
qed

lemma lib_path_loop_cases:
  "lib_path_loop exe line argv = None \<Longrightarrow> \<forall>a\<in>set argv. compare_argv_str a java_lib_path_optn_str = None"
  "lib_path_loop exe line argv = Some r \<Longrightarrow>
     \<exists>a\<in>set argv. \<exists>p. compare_argv_str a java_lib_path_optn_str = Some p \<and> r = replace_lib_path exe line p"
  by (induction argv) (auto split: option.splits if_splits dest: optn_split)

text \<open>
  A \<open>CommandLineArgs\<close> setting that names the option \<open>-Djava.library.path=\<close>, in any letter
  case, has the launcher's directory inserted right after the option's equals sign and is
  otherwise unchanged. In a line without it, the option that is appended is spelled in lower
  case, which the JVM does not know.
\<close>

theorem prepend_lib_path_result:
  assumes "prepend_to_java_library_path popt exe line = Some r"
  shows "(\<exists>a n v b. line = a @ n @ CHR ''='' # v @ b \<and> strcaseeq n ''-Djava.library.path'' \<and>
            r = a @ n @ CHR ''='' # exe @ CHR '':'' # v @ b) \<or>
         (\<forall>argv. popt line = Some argv \<longrightarrow> (\<forall>a\<in>set argv. compare_argv_str a java_lib_path_optn_str = None)) \<and>
          r = line @ '' -djava.library.path='' @ exe"
proof (cases "\<exists>argv r'. popt line = Some argv \<and> lib_path_loop exe line argv = Some r'")
  case True
  then obtain argv r' where pa: "popt line = Some argv" and l: "lib_path_loop exe line argv = Some r'" by blast
  with assms have "r' = Some r" by (simp add: prepend_to_java_library_path_def)
  with lib_path_loop_cases(2) [OF l] obtain a p where c: "compare_argv_str a java_lib_path_optn_str = Some p"
    and r: "replace_lib_path exe line p = Some r" by auto
  obtain n v where p: "p = n @ CHR ''='' # v" and n: "strcaseeq n ''-Djava.library.path''" "CHR ''='' \<notin> set n"
    using optn_split [OF c] by blast
  obtain k where k: "strstr line p = Some k" using r by (auto simp: replace_lib_path_def Let_def split: option.splits)
  obtain t where t: "line = take k line @ p @ t" and le: "k + length p \<le> length line" using strstr_Some [OF k] by blast
  have "drop (k + length p) line = t"
    using t le by (metis add_leD1 append_assoc append_eq_conv_conj length_append length_take min.absorb2)
  then have "r = take k line @ n @ CHR ''='' # exe @ CHR '':'' # v @ t"
    using r k n(2) by (simp add: replace_lib_path_def p PATH_SEPARATOR_def)
  with t n(1) p show ?thesis by (metis append_Cons append_assoc)
next
  case False
  then have "\<forall>argv. popt line = Some argv \<longrightarrow> lib_path_loop exe line argv = None" by auto
  with assms lib_path_loop_cases(1) show ?thesis
    by (auto simp: prepend_to_java_library_path_def java_lib_path_optn_str_def Let_def split: option.splits)
qed

theorem prepend_lib_path_result_witness:
  "\<exists>r. prepend_to_java_library_path (\<lambda>s. Some [s]) ''/opt'' ''-DJava.Library.Path=/usr'' = Some r \<and>
    ((\<exists>a n v b. ''-DJava.Library.Path=/usr'' = a @ n @ CHR ''='' # v @ b \<and> strcaseeq n ''-Djava.library.path'' \<and>
            r = a @ n @ CHR ''='' # ''/opt'' @ CHR '':'' # v @ b) \<or>
         (\<forall>argv. Some [''-DJava.Library.Path=/usr''] = Some argv \<longrightarrow>
            (\<forall>a\<in>set argv. compare_argv_str a java_lib_path_optn_str = None)) \<and>
          r = ''-DJava.Library.Path=/usr'' @ '' -djava.library.path='' @ ''/opt'')"
proof -
  have "prepend_to_java_library_path (\<lambda>s. Some [s]) ''/opt'' ''-DJava.Library.Path=/usr'' =
      Some ''-DJava.Library.Path=/opt:/usr''" by code_simp
  from prepend_lib_path_result [OF this] this show ?thesis by blast
qed

end
