(* ===== verification/IOStream.thy ===== *)
theory IOStream
  imports CString
begin

text \<open>
  The part of the C++ standard streams the program serialises with: an input stream is its
  unread characters and its \<open>eofbit\<close> and \<open>failbit\<close>; an output stream is the text written.
\<close>

record istream =
  ibuf :: string
  ieof :: bool
  ifail :: bool

definition istr :: "string \<Rightarrow> istream" where
  \<comment> \<open>a good stream over a text\<close>
  "istr s = \<lparr>ibuf = s, ieof = False, ifail = False\<rparr>"

definition good :: "istream \<Rightarrow> bool" where
  "good i = (\<not> ieof i \<and> \<not> ifail i)"

definition std_getline :: "istream \<Rightarrow> string \<Rightarrow> char \<Rightarrow> string \<times> istream" where
  \<comment> \<open>\<open>std::getline(is, str, delim)\<close> on a string holding the second argument\<close>
  "std_getline i str delim =
     (if \<not> good i then (str, i\<lparr>ifail := True\<rparr>)
      else if delim \<in> set (ibuf i)
      then (takeWhile (\<lambda>c. c \<noteq> delim) (ibuf i), i\<lparr>ibuf := tl (dropWhile (\<lambda>c. c \<noteq> delim) (ibuf i))\<rparr>)
      else (ibuf i, i\<lparr>ibuf := [], ieof := True, ifail := (ibuf i = [])\<rparr>))"

definition getline1 :: "istream \<Rightarrow> istream" where
  \<comment> \<open>\<open>is.getline(&c, 1)\<close>: takes a newline when it is next, fails otherwise\<close>
  "getline1 i =
     (if \<not> good i then i\<lparr>ifail := True\<rparr>
      else (case ibuf i of
              [] \<Rightarrow> i\<lparr>ieof := True, ifail := True\<rparr>
            | c # s \<Rightarrow> if c = NL then i\<lparr>ibuf := s\<rparr> else i\<lparr>ifail := True\<rparr>))"

definition sentry_ws :: "istream \<Rightarrow> istream \<times> bool" where
  \<comment> \<open>the sentry of a formatted extraction, which skips blanks\<close>
  "sentry_ws i =
     (if \<not> good i then (i\<lparr>ifail := True\<rparr>, False)
      else (let s = dropWhile isspace (ibuf i) in
            if s = [] then (i\<lparr>ibuf := [], ieof := True, ifail := True\<rparr>, False) else (i\<lparr>ibuf := s\<rparr>, True)))"

definition scan_sign :: "string \<Rightarrow> bool \<times> string" where
  "scan_sign s =
     (case s of [] \<Rightarrow> (False, s)
      | c # t \<Rightarrow> if c = CHR ''-'' then (True, t) else if c = CHR ''+'' then (False, t) else (False, s))"

definition scan_digits :: "istream \<Rightarrow> bool \<times> string \<times> istream" where
  \<comment> \<open>the sign, the digits and the stream after them\<close>
  "scan_digits i =
     (let (neg, s) = scan_sign (ibuf i); rest = dropWhile isdigit s
      in (neg, takeWhile isdigit s, i\<lparr>ibuf := rest, ieof := (rest = [])\<rparr>))"

definition read_signed :: "int \<Rightarrow> int \<Rightarrow> int \<Rightarrow> istream \<Rightarrow> int \<times> istream" where
  \<comment> \<open>\<open>is >> n\<close> for a signed type with these bounds and the variable's old value\<close>
  "read_signed lo hi old i =
     (case sentry_ws i of (i, ok) \<Rightarrow>
      if \<not> ok then (old, i)
      else
        (case scan_digits i of (neg, ds, i) \<Rightarrow>
         if ds = [] then (0, i\<lparr>ifail := True\<rparr>)
         else
           (let v = (if neg then - int (read_nat ds) else int (read_nat ds)) in
            if v < lo then (lo, i\<lparr>ifail := True\<rparr>)
            else if v > hi then (hi, i\<lparr>ifail := True\<rparr>)
            else (v, i))))"

definition read_bool :: "bool \<Rightarrow> istream \<Rightarrow> bool \<times> istream" where
  \<comment> \<open>\<open>is >> b\<close> without \<open>boolalpha\<close>: read as a \<open>long\<close>, only 0 and 1 are accepted\<close>
  "read_bool old i =
     (case read_signed (- (2 ^ 63)) (2 ^ 63 - 1) (if old then 1 else 0) i of (v, j) \<Rightarrow>
      if v = 0 then (False, j) else if v = 1 then (True, j) else (True, j\<lparr>ifail := True\<rparr>))"

definition read_size :: "nat \<Rightarrow> istream \<Rightarrow> nat \<times> istream" where
  \<comment> \<open>\<open>is >> n\<close> for a 64-bit \<open>size_t\<close>: a minus sign negates modulo 2^64\<close>
  "read_size old i =
     (case sentry_ws i of (i, ok) \<Rightarrow>
      if \<not> ok then (old, i)
      else
        (case scan_digits i of (neg, ds, i) \<Rightarrow>
         if ds = [] then (0, i\<lparr>ifail := True\<rparr>)
         else if read_nat ds \<ge> 2 ^ 64 then (2 ^ 64 - 1, i\<lparr>ifail := True\<rparr>)
         else ((if neg then (2 ^ 64 - read_nat ds) mod 2 ^ 64 else read_nat ds), i)))"

section \<open>Reading back what was written\<close>

lemma good_istr [simp]: "good (istr s)"
  by (simp add: good_def istr_def)

lemma istr_simps [simp]: "ibuf (istr s) = s" "istr s\<lparr>ibuf := t\<rparr> = istr t" "ieof (istr s) = False"
  "ifail (istr s) = False" "istr s\<lparr>ibuf := t, ieof := False\<rparr> = istr t"
  by (simp_all add: istr_def)

lemma std_getline_istr [simp]:
  "d \<notin> set l \<Longrightarrow> std_getline (istr (l @ d # s)) old d = (l, istr s)"
  "std_getline (istr (d # s)) old d = ([], istr s)"
  by (simp_all add: std_getline_def)

lemma getline1_istr [simp]: "getline1 (istr (NL # s)) = istr s"
  by (simp add: getline1_def)

lemma sentry_istr: "w \<noteq> [] \<Longrightarrow> \<not> isspace (hd w) \<Longrightarrow> sentry_ws (istr (w @ s)) = (istr (w @ s), True)"
  by (cases w) (auto simp: sentry_ws_def Let_def)

lemma scan_digits_istr:
  assumes "c = NL"
  shows "scan_digits (istr (show_nat n @ c # s)) = (False, show_nat n, istr (c # s))"
    "scan_digits (istr (CHR ''-'' # show_nat n @ c # s)) = (True, show_nat n, istr (c # s))"
proof -
  have nl: "\<not> isdigit NL" by (simp add: isdigit_def)
  have d: "takeWhile isdigit (show_nat n @ c # s) = show_nat n" "dropWhile isdigit (show_nat n @ c # s) = c # s"
    using nl assms by (simp_all add: show_nat_digits takeWhile_append2 dropWhile_append2 show_nat_set)
  obtain x xs where x: "show_nat n = x # xs" by (cases "show_nat n") auto
  have "isdigit x" using show_nat_digits [of n] by (simp add: x)
  then have "x \<noteq> CHR ''-''" "x \<noteq> CHR ''+''" using isdigit_cases by blast+
  then have sg: "scan_sign (show_nat n @ c # s) = (False, show_nat n @ c # s)" by (simp add: scan_sign_def x)
  show "scan_digits (istr (show_nat n @ c # s)) = (False, show_nat n, istr (c # s))"
    by (simp add: scan_digits_def sg) (simp add: d istr_def, simp add: nl assms)
  show "scan_digits (istr (CHR ''-'' # show_nat n @ c # s)) = (True, show_nat n, istr (c # s))"
    by (simp add: scan_digits_def scan_sign_def) (simp add: d istr_def, simp add: nl assms)
qed

lemma show_nat_hd: "\<not> isspace (hd (show_nat n))"
  using show_nat_digits [of n] isdigit_cases by (cases "show_nat n") auto

lemma read_signed_istr [simp]:
  assumes "lo \<le> v" and "v \<le> hi"
  shows "read_signed lo hi old (istr (show_int v @ NL # s)) = (v, istr (NL # s))"
proof (cases "v < 0")
  case True
  then have "sentry_ws (istr (show_int v @ NL # s)) = (istr (show_int v @ NL # s), True)"
    by (intro sentry_istr) (simp_all add: show_int_def isspace_def)
  with True assms show ?thesis by (simp add: read_signed_def show_int_def scan_digits_istr)
next
  case False
  then have "sentry_ws (istr (show_int v @ NL # s)) = (istr (show_int v @ NL # s), True)"
    by (intro sentry_istr) (simp_all add: show_int_def show_nat_hd)
  with False assms show ?thesis by (simp add: read_signed_def show_int_def scan_digits_istr)
qed

definition show_bool :: "bool \<Rightarrow> string" where
  "show_bool b = (if b then ''1'' else ''0'')"

lemma show_bool_int: "show_bool b = show_int (if b then 1 else 0)"
  by (cases b; simp; code_simp)

lemma read_bool_istr [simp]: "read_bool old (istr (show_bool b @ NL # s)) = (b, istr (NL # s))"
  by (simp add: read_bool_def show_bool_int)

lemma read_size_istr [simp]:
  "n < 2 ^ 64 \<Longrightarrow> read_size old (istr (show_nat n @ NL # s)) = (n, istr (NL # s))"
  using sentry_istr [of "show_nat n" "NL # s"] show_nat_hd [of n]
  by (simp add: read_size_def scan_digits_istr)

end
