(* ===== verification/SessionCodec.thy ===== *)
theory SessionCodec
  imports SessionState IOStream
begin

text \<open>
  The stream operators of \<open>session-state.cpp\<close>: the text the supervisor stores in shared memory
  and what a child process reads back from it. A variable that is read into without having
  been initialised starts from an arbitrary number, the argument \<open>junk\<close>.
\<close>

section \<open>Method descriptors\<close>

definition typeid_methodDescriptor :: string where
  "typeid_methodDescriptor = ''16methodDescriptor''"

definition typeid_methodDescriptorCmd :: string where
  "typeid_methodDescriptorCmd = ''19methodDescriptorCmd''"

definition typeid_sessionState :: string where
  "typeid_sessionState = ''12sessionState''"

definition typeid_vec_cmd :: string where
  "typeid_vec_cmd = ''St6vectorI19methodDescriptorCmdSaIS0_EE''"

definition typeid_vec_string :: string where
  "typeid_vec_string = ''St6vectorINSt7__cxx1112basic_stringIcSt11char_traitsIcESaIcEEESaIS5_EE''"

definition md_out :: "'a method_descriptor_scheme \<Rightarrow> string" where
  "md_out self =
     typeid_methodDescriptor @ NL # show_bool (isStaticMethod self) @ NL # show_int (sint (whichMethod self)) @ NL #
     fullMethodName self @ NL # descriptor self @ [NL]"

definition mdc_out :: "method_descriptor_cmd \<Rightarrow> string" where
  "mdc_out self =
     typeid_methodDescriptorCmd @ NL # md_out self @ command self @ NL # jvmOptionsCommandLine self @ [NL]"

definition md_in :: "int \<Rightarrow> istream \<Rightarrow> 'a method_descriptor_scheme \<Rightarrow> 'a method_descriptor_scheme \<times> istream" where
  "md_in junk i self =
     (let (type_name, i) = std_getline i [] NL;
          (b, i) = read_bool (isStaticMethod self) i;
          self = self\<lparr>isStaticMethod := b\<rparr>;
          i = getline1 i;
          (sh, i) = read_signed (- (2 ^ 15)) (2 ^ 15 - 1) junk i;
          self = self\<lparr>whichMethod := word_of_int sh\<rparr>;
          i = getline1 i;
          (n, i) = std_getline i (fullMethodName self) NL;
          self = self\<lparr>fullMethodName := n\<rparr>;
          (d, i) = std_getline i (descriptor self) NL
      in (self\<lparr>descriptor := d\<rparr>, i))"

definition mdc_in :: "int \<Rightarrow> istream \<Rightarrow> method_descriptor_cmd \<Rightarrow> method_descriptor_cmd \<times> istream" where
  "mdc_in junk i self =
     (let (type_name, i) = std_getline i [] NL;
          (self, i) = md_in junk i self;
          (c, i) = std_getline i (command self) NL;
          self = self\<lparr>command := c\<rparr>;
          (o', i) = std_getline i (jvmOptionsCommandLine self) NL
      in (self\<lparr>jvmOptionsCommandLine := o'\<rparr>, i))"

section \<open>Vectors\<close>

text \<open>
  The templates, over the text of an element with its delimiter, the reader of an element,
  and what a move leaves in the variable the elements are read into. A count of 2^32 or more
  does not return: the index of the loop is an \<open>unsigned int\<close>.
\<close>

definition stream_vec_out :: "string \<Rightarrow> ('a \<Rightarrow> string) \<Rightarrow> char \<Rightarrow> 'a list option \<Rightarrow> string" where
  "stream_vec_out type_name elem_out delim self =
     type_name @ NL #
     (case self of
        Some v \<Rightarrow> show_nat (length v) @ NL # concat (map (\<lambda>e. elem_out e @ [delim]) v)
      | None \<Rightarrow> show_nat 0 @ [NL]) @ [NL]"

primrec vec_in_loop ::
  "(istream \<Rightarrow> 'a \<Rightarrow> 'a \<times> istream) \<Rightarrow> ('a \<Rightarrow> 'a) \<Rightarrow> nat \<Rightarrow> istream \<Rightarrow> 'a \<Rightarrow> 'a list \<Rightarrow> 'a list \<times> istream" where
  "vec_in_loop elem_in moved 0 i t v = (v, i)"
| "vec_in_loop elem_in moved (Suc n) i t v =
     (let (t, i) = elem_in i t in vec_in_loop elem_in moved n i (moved t) (v @ [t]))"

definition stream_vec_in ::
  "(istream \<Rightarrow> 'a \<Rightarrow> 'a \<times> istream) \<Rightarrow> ('a \<Rightarrow> 'a) \<Rightarrow> 'a \<Rightarrow> istream \<Rightarrow> 'a list option \<Rightarrow>
   ('a list option \<times> istream) option" where
  "stream_vec_in elem_in moved t0 i self =
     (let (vec_type, i) = std_getline i [] NL;
          (count, i) = read_size 0 i;
          i = getline1 i
      in if count \<ge> 2 ^ 32 then None
         else if count > 0
         then (let (v, i) = vec_in_loop elem_in moved count i t0 [] in Some (Some v, getline1 i))
         else Some (self, getline1 i))"

definition cmd_elem_in :: "int \<Rightarrow> istream \<Rightarrow> method_descriptor_cmd \<Rightarrow> method_descriptor_cmd \<times> istream" where
  \<comment> \<open>\<open>stream_in_vec_elm\<close>\<close>
  "cmd_elem_in junk i t = (let (t, i) = mdc_in junk i t in (t, getline1 i))"

definition cmd_moved :: "method_descriptor_cmd \<Rightarrow> method_descriptor_cmd" where
  "cmd_moved t = t\<lparr>fullMethodName := [], descriptor := [], command := [], jvmOptionsCommandLine := []\<rparr>"

definition prop_elem_in :: "istream \<Rightarrow> string \<Rightarrow> string \<times> istream" where
  "prop_elem_in i str = std_getline i [] CR"

section \<open>The session state\<close>

definition ss_out :: "session_state \<Rightarrow> string" where
  "ss_out self =
     typeid_sessionState @ NL #
     show_int (sint (supervisor_pid self)) @ NL #
     show_int (sint (child_process_max_count self)) @ NL #
     md_out (spartanMainEntryPoint self) @ NL #
     md_out (spartanGetStatusEntryPoint self) @ NL #
     md_out (spartanSupervisorShutdownEntryPoint self) @ NL #
     md_out (spartanChildNotifyEntryPoint self) @ NL #
     md_out (spartanChildCompletionNotifyEntryPoint self) @ NL #
     md_out (spartanSupervisorEntryPoint self) @ NL #
     md_out (spartanChildProcessorEntryPoint self) @ NL #
     spartanChildProcessorCommands self @ NL #
     systemClassPath self @ NL #
     stream_vec_out typeid_vec_cmd mdc_out NL (spSpartanSupervisorCommands self) @ NL #
     stream_vec_out typeid_vec_cmd mdc_out NL (spSpartanChildProcessorCommands self) @ NL #
     stream_vec_out typeid_vec_string (\<lambda>s. s) CR (spSerializedSystemProperties self) @ NL #
     spartanLoggingLevel self @ NL #
     jvmlib_path self @ [NL]"

definition md_line_in :: "int \<Rightarrow> istream \<Rightarrow> method_descriptor \<Rightarrow> method_descriptor \<times> istream" where
  \<comment> \<open>\<open>is >> self.x; is.getline(&newline, 1)\<close>\<close>
  "md_line_in junk i md = (let (md, i) = md_in junk i md in (md, getline1 i))"

definition ss_in_entries :: "int \<Rightarrow> istream \<Rightarrow> session_state \<Rightarrow> session_state \<times> istream" where
  "ss_in_entries junk i self =
     (let (m, i) = md_line_in junk i (spartanMainEntryPoint self);
          self = self\<lparr>spartanMainEntryPoint := m\<rparr>;
          (m, i) = md_line_in junk i (spartanGetStatusEntryPoint self);
          self = self\<lparr>spartanGetStatusEntryPoint := m\<rparr>;
          (m, i) = md_line_in junk i (spartanSupervisorShutdownEntryPoint self);
          self = self\<lparr>spartanSupervisorShutdownEntryPoint := m\<rparr>;
          (m, i) = md_line_in junk i (spartanChildNotifyEntryPoint self);
          self = self\<lparr>spartanChildNotifyEntryPoint := m\<rparr>;
          (m, i) = md_line_in junk i (spartanChildCompletionNotifyEntryPoint self);
          self = self\<lparr>spartanChildCompletionNotifyEntryPoint := m\<rparr>;
          (m, i) = md_line_in junk i (spartanSupervisorEntryPoint self);
          self = self\<lparr>spartanSupervisorEntryPoint := m\<rparr>;
          (m, i) = md_line_in junk i (spartanChildProcessorEntryPoint self);
          self = self\<lparr>spartanChildProcessorEntryPoint := m\<rparr>
      in (self, i))"

definition ss_in :: "int \<Rightarrow> istream \<Rightarrow> session_state \<Rightarrow> (session_state \<times> istream) option" where
  "ss_in junk i self =
     (let (type_name, i) = std_getline i [] NL;
          (p, i) = read_signed (- (2 ^ 31)) (2 ^ 31 - 1) (sint (supervisor_pid self)) i;
          self = self\<lparr>supervisor_pid := word_of_int p\<rparr>;
          i = getline1 i;
          (c, i) = read_signed (- (2 ^ 15)) (2 ^ 15 - 1) (sint (child_process_max_count self)) i;
          self = self\<lparr>child_process_max_count := word_of_int c\<rparr>;
          i = getline1 i;
          (self, i) = ss_in_entries junk i self;
          (s, i) = std_getline i (spartanChildProcessorCommands self) NL;
          self = self\<lparr>spartanChildProcessorCommands := s\<rparr>;
          (s, i) = std_getline i (systemClassPath self) NL;
          self = self\<lparr>systemClassPath := s\<rparr>
      in case stream_vec_in (cmd_elem_in junk) cmd_moved mdc_default i (spSpartanSupervisorCommands self) of
           None \<Rightarrow> None
         | Some (v, i) \<Rightarrow>
        (let self = self\<lparr>spSpartanSupervisorCommands := v\<rparr>; i = getline1 i in
         case stream_vec_in (cmd_elem_in junk) cmd_moved mdc_default i (spSpartanChildProcessorCommands self) of
           None \<Rightarrow> None
         | Some (v, i) \<Rightarrow>
        (let self = self\<lparr>spSpartanChildProcessorCommands := v\<rparr>; i = getline1 i in
         case stream_vec_in prop_elem_in (\<lambda>s. []) [] i (spSerializedSystemProperties self) of
           None \<Rightarrow> None
         | Some (v, i) \<Rightarrow>
        (let self = self\<lparr>spSerializedSystemProperties := v\<rparr>;
             i = getline1 i;
             (s, i) = std_getline i (spartanLoggingLevel self) NL;
             self = self\<lparr>spartanLoggingLevel := s\<rparr>;
             (s, i) = std_getline i (jvmlib_path self) NL
         in Some (self\<lparr>jvmlib_path := s\<rparr>, i)))))"

section \<open>Elements with a codec\<close>

text \<open>
  What the vector templates need of the operators of their element type: reading back a
  written element, whatever follows it and whatever the variable held.
\<close>

locale elem_codec =
  fixes elem_text :: "'a \<Rightarrow> string" and elem_in :: "istream \<Rightarrow> 'a \<Rightarrow> 'a \<times> istream" and ok :: "'a \<Rightarrow> bool"
  assumes elem_roundtrip: "ok a \<Longrightarrow> elem_in (istr (elem_text a @ s)) t = (a, istr s)"
begin

lemma vec_in_loop_roundtrip:
  "(\<forall>a\<in>set as. ok a) \<Longrightarrow>
     vec_in_loop elem_in moved (length as) (istr (concat (map elem_text as) @ s)) t v = (v @ as, istr s)"
proof (induction as arbitrary: t v)
  case (Cons a as)
  then show ?case using elem_roundtrip [of a "concat (map elem_text as) @ s" t] by simp
qed simp

lemma stream_vec_in_roundtrip:
  assumes "case v of None \<Rightarrow> True | Some as \<Rightarrow> (\<forall>a\<in>set as. ok a) \<and> length as < 2 ^ 32"
    and "NL \<notin> set type_name" and "\<And>a. elem_text a = elem_out a @ [delim]"
  shows "stream_vec_in elem_in moved t (istr (stream_vec_out type_name elem_out delim v @ s)) old =
     Some (if v = None \<or> v = Some [] then old else v, istr s)"
proof (cases "v = None \<or> v = Some []")
  case True
  then show ?thesis using assms(2)
    by (auto simp: stream_vec_in_def stream_vec_out_def Let_def)
next
  case False
  then obtain as where v: "v = Some as" and ne: "as \<noteq> []" by auto
  have out: "stream_vec_out type_name elem_out delim (Some as) @ s =
      type_name @ NL # show_nat (length as) @ NL # concat (map elem_text as) @ NL # s"
    by (simp add: stream_vec_out_def ext [of elem_text, OF assms(3)])
  from assms(1) v ne show ?thesis using assms(2)
    by (simp add: out stream_vec_in_def vec_in_loop_roundtrip)
qed

end

definition md_text_ok :: "'a method_descriptor_scheme \<Rightarrow> bool" where
  "md_text_ok md = (NL \<notin> set (fullMethodName md) \<and> NL \<notin> set (descriptor md))"

definition mdc_text_ok :: "method_descriptor_cmd \<Rightarrow> bool" where
  "mdc_text_ok md = (md_text_ok md \<and> NL \<notin> set (command md) \<and> NL \<notin> set (jvmOptionsCommandLine md))"

lemma typeid_NL [simp]: "NL \<notin> set typeid_methodDescriptor" "NL \<notin> set typeid_methodDescriptorCmd"
  "NL \<notin> set typeid_sessionState" "NL \<notin> set typeid_vec_cmd" "NL \<notin> set typeid_vec_string"
  by (simp_all add: typeid_methodDescriptor_def typeid_methodDescriptorCmd_def typeid_sessionState_def
      typeid_vec_cmd_def typeid_vec_string_def)

lemma sint_bounds16: "- (2 ^ 15) \<le> sint (w :: 16 word)" "sint (w :: 16 word) \<le> 2 ^ 15 - 1"
  using sint_range_size [of w] by (auto simp: word_size)

lemma sint_bounds32: "- (2 ^ 31) \<le> sint (w :: 32 word)" "sint (w :: 32 word) \<le> 2 ^ 31 - 1"
  using sint_range_size [of w] by (auto simp: word_size)

lemma md_in_out:
  "md_text_ok md \<Longrightarrow> md_in junk (istr (md_out md @ s)) old =
     (old\<lparr>isStaticMethod := isStaticMethod md, whichMethod := whichMethod md,
          fullMethodName := fullMethodName md, descriptor := descriptor md\<rparr>, istr s)"
  using sint_bounds16 [of "whichMethod md"]
  by (simp add: md_in_def md_out_def md_text_ok_def)

lemma md_in_out_md [simp]:
  "md_text_ok (md :: method_descriptor) \<Longrightarrow> md_in junk (istr (md_out md @ s)) old = (md, istr s)"
  by (simp add: md_in_out)

lemma mdc_in_out:
  "mdc_text_ok md \<Longrightarrow> mdc_in junk (istr (mdc_out md @ s)) old = (md, istr s)"
  by (simp add: mdc_in_def mdc_out_def mdc_text_ok_def md_in_out)

definition cmd_text :: "method_descriptor_cmd \<Rightarrow> string" where
  "cmd_text e = mdc_out e @ [NL]"

definition prop_text :: "string \<Rightarrow> string" where
  "prop_text e = e @ [CR]"

interpretation cmdvec: elem_codec cmd_text "cmd_elem_in junk" mdc_text_ok for junk
  by unfold_locales (simp add: cmd_text_def cmd_elem_in_def mdc_in_out)

interpretation sysprop: elem_codec prop_text prop_elem_in "\<lambda>p. CR \<notin> set p"
  by unfold_locales (simp add: prop_text_def prop_elem_in_def)

section \<open>The round trip\<close>

definition entry_list :: "session_state \<Rightarrow> method_descriptor list" where
  "entry_list ss = spartanMainEntryPoint ss # map fst (slots ss)"

definition vec_ok :: "('a \<Rightarrow> bool) \<Rightarrow> 'a list option \<Rightarrow> bool" where
  "vec_ok ok v = (case v of None \<Rightarrow> True | Some as \<Rightarrow> (\<forall>a\<in>set as. ok a) \<and> length as < 2 ^ 32)"

definition ss_text_ok :: "session_state \<Rightarrow> bool" where
  "ss_text_ok ss =
     ((\<forall>md\<in>set (entry_list ss). md_text_ok md) \<and>
      vec_ok mdc_text_ok (spSpartanSupervisorCommands ss) \<and>
      vec_ok mdc_text_ok (spSpartanChildProcessorCommands ss) \<and>
      vec_ok (\<lambda>p. CR \<notin> set p) (spSerializedSystemProperties ss) \<and>
      NL \<notin> set (spartanChildProcessorCommands ss) \<and> NL \<notin> set (systemClassPath ss) \<and>
      NL \<notin> set (spartanLoggingLevel ss) \<and> NL \<notin> set (jvmlib_path ss))"

definition vec_read :: "'a list option \<Rightarrow> 'a list option \<Rightarrow> 'a list option" where
  \<comment> \<open>an absent vector and an empty one are written alike and leave the reader's unchanged\<close>
  "vec_read v old = (if v = None \<or> v = Some [] then old else v)"

definition ss_read :: "session_state \<Rightarrow> session_state \<Rightarrow> session_state" where
  "ss_read ss old = (clone_info_part old ss)\<lparr>
     spSpartanSupervisorCommands := vec_read (spSpartanSupervisorCommands ss) (spSpartanSupervisorCommands old),
     spSpartanChildProcessorCommands := vec_read (spSpartanChildProcessorCommands ss) (spSpartanChildProcessorCommands old),
     spSerializedSystemProperties := vec_read (spSerializedSystemProperties ss) (spSerializedSystemProperties old)\<rparr>"

lemma md_line_in_out [simp]:
  "md_text_ok md \<Longrightarrow> md_line_in junk (istr (md_out md @ NL # s)) old = (md, istr s)"
  by (simp add: md_line_in_def)

lemma cmd_vec_in [simp]:
  "vec_ok mdc_text_ok v \<Longrightarrow>
     stream_vec_in (cmd_elem_in junk) cmd_moved t (istr (stream_vec_out typeid_vec_cmd mdc_out NL v @ s)) old =
     Some (vec_read v old, istr s)"
  unfolding vec_read_def by (rule cmdvec.stream_vec_in_roundtrip) (simp_all add: vec_ok_def cmd_text_def)

lemma prop_vec_in [simp]:
  "vec_ok (\<lambda>p. CR \<notin> set p) v \<Longrightarrow>
     stream_vec_in prop_elem_in m t (istr (stream_vec_out typeid_vec_string (\<lambda>s. s) CR v @ s)) old =
     Some (vec_read v old, istr s)"
  unfolding vec_read_def by (rule sysprop.stream_vec_in_roundtrip) (simp_all add: vec_ok_def prop_text_def)

lemma ss_in_entries_out:
  assumes "\<forall>md\<in>set (entry_list ss). md_text_ok md"
  shows "ss_in_entries junk (istr (
     md_out (spartanMainEntryPoint ss) @ NL #
     md_out (spartanGetStatusEntryPoint ss) @ NL #
     md_out (spartanSupervisorShutdownEntryPoint ss) @ NL #
     md_out (spartanChildNotifyEntryPoint ss) @ NL #
     md_out (spartanChildCompletionNotifyEntryPoint ss) @ NL #
     md_out (spartanSupervisorEntryPoint ss) @ NL #
     md_out (spartanChildProcessorEntryPoint ss) @ NL # s)) old =
   (old\<lparr>spartanMainEntryPoint := spartanMainEntryPoint ss,
        spartanGetStatusEntryPoint := spartanGetStatusEntryPoint ss,
        spartanSupervisorShutdownEntryPoint := spartanSupervisorShutdownEntryPoint ss,
        spartanChildNotifyEntryPoint := spartanChildNotifyEntryPoint ss,
        spartanChildCompletionNotifyEntryPoint := spartanChildCompletionNotifyEntryPoint ss,
        spartanSupervisorEntryPoint := spartanSupervisorEntryPoint ss,
        spartanChildProcessorEntryPoint := spartanChildProcessorEntryPoint ss\<rparr>, istr s)"
  using assms by (simp add: ss_in_entries_def entry_list_def slots_def)

lemma ss_in_out:
  assumes "ss_text_ok ss"
  shows "ss_in junk (istr (ss_out ss @ s)) old = Some (ss_read ss old, istr s)"
proof -
  have e: "\<forall>md\<in>set (entry_list ss). md_text_ok md" using assms by (simp add: ss_text_ok_def)
  note b = sint_bounds16 [of "child_process_max_count ss"] sint_bounds32 [of "supervisor_pid ss"]
  show ?thesis using assms b
    by (simp add: ss_in_def ss_out_def ss_in_entries_out [OF e] ss_text_ok_def ss_read_def clone_info_part_def)
qed

text \<open>
  C3. What a child process reads from the text of a session state is that state: every field
  of the information part is recovered whatever the reading variable held and whatever text
  follows, provided no string holds a newline and no system property a carriage return. The
  only loss is that a present but empty vector reads back as the reader's own.
\<close>

theorem session_state_roundtrip:
  assumes "ss_text_ok ss"
  shows "ss_in junk (istr (ss_out ss @ s)) old = Some (ss_read ss old, istr s)"
  by (rule ss_in_out [OF assms])

definition example_state :: session_state where
  "example_state = ss_default\<lparr>supervisor_pid := - 1, child_process_max_count := 40,
     spartanMainEntryPoint := methodDescriptor ''a/B/main'' ''([Ljava/lang/String;)V'' True WM_MAIN,
     spSpartanSupervisorCommands := Some [methodDescriptorCmd ''a/B/run'' ''()V'' ''RUN'' ''-Xmx1g'' False 6],
     spSerializedSystemProperties := Some [''k=v'', ''os.name=Linux'']\<rparr>"

theorem session_state_roundtrip_witness:
  "ss_in 7 (istr (ss_out example_state @ ''tail'')) ss_default = Some (example_state, istr ''tail'')"
proof -
  have "ss_text_ok example_state"
    by (simp add: ss_text_ok_def entry_list_def slots_def vec_ok_def mdc_text_ok_def md_text_ok_def example_state_def
        ss_default_def md_default_def methodDescriptor_def methodDescriptorCmd_def)
  from session_state_roundtrip [OF this, of 7 "''tail''" ss_default] show ?thesis
    by (simp add: ss_read_def clone_info_part_def vec_read_def example_state_def ss_default_def)
qed


end
