(* ===== verification/SharedMem.thy ===== *)
theory SharedMem
  imports SessionCodec
begin

text \<open>
  Shared memory: the allocator of \<open>shm.cpp\<close> over the mapped region, and the layout of the
  region written and read in \<open>process-cmd-dispatch-info.cpp\<close>. A region is its list of bytes,
  an address in it an offset. \<open>int\<close> and \<open>size_t\<close> are words of 32 and 64 bits.
\<close>

section \<open>The allocator\<close>

datatype shm_error = Shared_mem_exception string

record shm_allocator =
  max_size :: "64 word"
  curr_offset :: "32 word"
  shm_bytes :: string

text \<open>The format says \<open>%ul\<close>: an \<open>unsigned int\<close>, the low half of the \<open>size_t\<close>, and then the letter.\<close>

definition alloc_error :: "string \<Rightarrow> 64 word \<Rightarrow> shm_error" where
  "alloc_error shm_name excess = Shared_mem_exception (format2str
     (''shared memory space of '' @ [DQUOTE] @ shm_name @ [DQUOTE] @ '' exceeded by '' @ show_nat (unat (ucast excess :: 32 word)) @ ''l bytes''))"

definition shm_alloc :: "string \<Rightarrow> 64 word \<Rightarrow> shm_allocator \<Rightarrow> shm_error + 64 word \<times> shm_allocator" where
  \<comment> \<open>\<open>ShmAllocator::alloc\<close>: the offset of the returned address and the new state\<close>
  "shm_alloc shm_name sz a =
     (let new_offset = scast (curr_offset a) + sz in
      if new_offset > max_size a then Inl (alloc_error shm_name (new_offset - max_size a))
      else Inr (scast (curr_offset a), a\<lparr>curr_offset := ucast new_offset\<rparr>))"

definition shm_page_length :: "32 word \<Rightarrow> 64 word \<Rightarrow> 64 word" where
  \<comment> \<open>\<open>allocate\<close>: \<open>pages * pg_size\<close> in \<open>long\<close>\<close>
  "shm_page_length pages pg_size = scast pages * pg_size"

definition shm_make :: "32 word \<Rightarrow> 64 word \<Rightarrow> shm_allocator" where
  "shm_make pages pg_size =
     (let len = shm_page_length pages pg_size
      in \<lparr>max_size = len, curr_offset = 0, shm_bytes = replicate (unat len) NUL\<rparr>)"

definition getUtilizedMemBuf :: "shm_allocator \<Rightarrow> 64 word" where
  "getUtilizedMemBuf a = scast (curr_offset a)"

definition getRemainingMemBuf :: "shm_allocator \<Rightarrow> 64 word \<times> 64 word" where
  "getRemainingMemBuf a = (scast (curr_offset a), max_size a - scast (curr_offset a))"

definition shm_inv :: "shm_allocator \<Rightarrow> bool" where
  "shm_inv a = (uint (max_size a) < 2 ^ 31 \<and> 0 \<le> sint (curr_offset a) \<and>
     sint (curr_offset a) \<le> uint (max_size a) \<and> length (shm_bytes a) = unat (max_size a))"

lemma scast_offset: "0 \<le> sint (w :: 32 word) \<Longrightarrow> uint (scast w :: 64 word) = sint w"
proof -
  assume "0 \<le> sint w"
  moreover have "sint w < 2 ^ 31" using sint_bounds32(2) [of w] by simp
  ultimately show ?thesis unfolding scast_eq uint_word_of_int by (intro mod_pos_pos_trivial) simp_all
qed

lemma ucast_offset: "uint (x :: 64 word) < 2 ^ 31 \<Longrightarrow> sint (ucast x :: 32 word) = uint x"
proof -
  assume x: "uint x < 2 ^ 31"
  have "sint (ucast x :: 32 word) = (uint x + 2 ^ 31) mod 2 ^ 32 - 2 ^ 31"
    unfolding ucast_eq signed_of_int signed_take_bit_eq_take_bit_shift take_bit_eq_mod by simp
  also have "(uint x + 2 ^ 31) mod 2 ^ 32 = uint x + 2 ^ 31"
    using x by (intro mod_pos_pos_trivial) simp_all
  finally show ?thesis by simp
qed

lemma shm_alloc_ok:
  assumes "shm_inv a" and "uint sz < 2 ^ 63"
  shows "shm_alloc n sz a =
    (if sint (curr_offset a) + uint sz \<le> uint (max_size a)
     then Inr (scast (curr_offset a), a\<lparr>curr_offset := ucast (scast (curr_offset a) + sz)\<rparr>)
     else Inl (alloc_error n (scast (curr_offset a) + sz - max_size a)))"
    and "uint (scast (curr_offset a) + sz) = sint (curr_offset a) + uint sz"
proof -
  have c: "uint (scast (curr_offset a) :: 64 word) = sint (curr_offset a)"
    using assms(1) by (intro scast_offset) (simp add: shm_inv_def)
  have "sint (curr_offset a) < 2 ^ 31" using assms(1) by (simp add: shm_inv_def)
  then show u: "uint (scast (curr_offset a) + sz) = sint (curr_offset a) + uint sz"
    using assms c by (simp add: uint_word_ariths shm_inv_def)
  show "shm_alloc n sz a =
    (if sint (curr_offset a) + uint sz \<le> uint (max_size a)
     then Inr (scast (curr_offset a), a\<lparr>curr_offset := ucast (scast (curr_offset a) + sz)\<rparr>)
     else Inl (alloc_error n (scast (curr_offset a) + sz - max_size a)))"
    by (auto simp: shm_alloc_def Let_def word_less_def u)
qed

lemma shm_alloc_step:
  assumes "shm_inv a" and "uint sz < 2 ^ 63" and "shm_alloc n sz a = Inr (p, a')"
  shows "shm_inv a' \<and> uint p = sint (curr_offset a) \<and> sint (curr_offset a') = uint p + uint sz \<and>
     uint p + uint sz \<le> uint (max_size a) \<and> max_size a' = max_size a \<and> shm_bytes a' = shm_bytes a"
proof -
  note s = shm_alloc_ok [OF assms(1,2)]
  have le: "sint (curr_offset a) + uint sz \<le> uint (max_size a)" and p: "p = scast (curr_offset a)"
    and a': "a' = a\<lparr>curr_offset := ucast (scast (curr_offset a) + sz)\<rparr>"
    using assms(3) by (auto simp: s(1) split: if_splits)
  have pu: "uint p = sint (curr_offset a)" unfolding p using assms(1) by (intro scast_offset) (simp add: shm_inv_def)
  have "sint (curr_offset a') = sint (curr_offset a) + uint sz"
    using le assms(1) by (simp add: a' ucast_offset s(2) shm_inv_def)
  then show ?thesis using assms(1) le pu by (simp add: a' shm_inv_def)
qed

section \<open>Many allocations\<close>

fun shm_allocs :: "string \<Rightarrow> 64 word list \<Rightarrow> shm_allocator \<Rightarrow> shm_error + (64 word \<times> 64 word) list \<times> shm_allocator" where
  \<comment> \<open>placement \<open>new\<close> for each size: the addresses with their sizes\<close>
  "shm_allocs n [] a = Inr ([], a)"
| "shm_allocs n (sz # szs) a =
     bind_r (shm_alloc n sz a) (\<lambda>(p, a). bind_r (shm_allocs n szs a) (\<lambda>(ps, a). Inr ((p, sz) # ps, a)))"

definition block_range :: "64 word \<times> 64 word \<Rightarrow> int set" where
  "block_range b = {uint (fst b) ..< uint (fst b) + uint (snd b)}"

fun blocks_disjoint :: "(64 word \<times> 64 word) list \<Rightarrow> bool" where
  "blocks_disjoint [] = True"
| "blocks_disjoint (b # bs) = (list_all (\<lambda>c. uint (fst b) + uint (snd b) \<le> uint (fst c)) bs \<and> blocks_disjoint bs)"

lemma shm_allocs_inv:
  "shm_inv a \<Longrightarrow> (\<forall>sz\<in>set szs. uint sz < 2 ^ 63) \<Longrightarrow> shm_allocs n szs a = Inr (ps, a') \<Longrightarrow>
     shm_inv a' \<and> blocks_disjoint ps \<and>
     (\<forall>b\<in>set ps. sint (curr_offset a) \<le> uint (fst b) \<and> uint (fst b) + uint (snd b) \<le> uint (max_size a))"
proof (induction szs arbitrary: a ps a')
  case Nil
  then show ?case by simp
next
  case (Cons sz szs)
  from Cons.prems(3) obtain p a1 qs where s: "shm_alloc n sz a = Inr (p, a1)"
    and r: "shm_allocs n szs a1 = Inr (qs, a')" and ps: "ps = (p, sz) # qs"
    by (auto simp: bind_r_Inr)
  note st = shm_alloc_step [OF Cons.prems(1) _ s]
  have st': "shm_inv a1" "uint p = sint (curr_offset a)" "sint (curr_offset a1) = uint p + uint sz"
     "uint p + uint sz \<le> uint (max_size a)" "max_size a1 = max_size a"
    using st Cons.prems(2) by auto
  from Cons.IH [OF st'(1) _ r] Cons.prems(2) have ih: "shm_inv a'" "blocks_disjoint qs"
    "\<forall>b\<in>set qs. sint (curr_offset a1) \<le> uint (fst b) \<and> uint (fst b) + uint (snd b) \<le> uint (max_size a1)" by auto
  have sz: "0 \<le> uint sz" by simp
  have "\<forall>b\<in>set qs. sint (curr_offset a) \<le> uint (fst b) \<and> uint p + uint sz \<le> uint (fst b)"
  proof
    fix b assume "b \<in> set qs"
    then have "sint (curr_offset a1) \<le> uint (fst b)" using ih(3) by blast
    then show "sint (curr_offset a) \<le> uint (fst b) \<and> uint p + uint sz \<le> uint (fst b)"
      using st'(2,3) uint_ge_0 [of sz] by linarith
  qed
  then show ?case using ih st' sz by (auto simp: ps list_all_iff)
qed

text \<open>
  C38. The blocks a sequence of placement allocations returns lie inside the mapped region and
  do not overlap, as long as the region is smaller than 2 GiB and no size is negative as a
  signed number; the allocator's own offset stays inside the region.
\<close>

theorem shm_allocs_sound:
  assumes "shm_inv a" and "list_all (\<lambda>sz. uint sz < 2 ^ 63) szs" and "shm_allocs n szs a = Inr (ps, a')"
  shows "shm_inv a' \<and> blocks_disjoint ps \<and> list_all (\<lambda>b. uint (fst b) + uint (snd b) \<le> uint (max_size a)) ps"
  using shm_allocs_inv [OF assms(1) _ assms(3)] assms(2) by (auto simp: list_all_iff)

theorem shm_allocs_sound_witness:
  "\<exists>ps a'. shm_allocs ''/app'' [100, 4000 - 4] (shm_make 1 4096) = Inr (ps, a') \<and> shm_inv a' \<and> blocks_disjoint ps \<and>
     list_all (\<lambda>b. uint (fst b) + uint (snd b) \<le> 4096) ps"
proof -
  have i: "shm_inv (shm_make 1 4096)" by (simp add: shm_inv_def shm_make_def shm_page_length_def Let_def)
  have "\<exists>r. shm_allocs ''/app'' [100, 4000 - 4] (shm_make 1 4096) = Inr r"
    by (simp add: shm_alloc_def shm_make_def shm_page_length_def Let_def)
  then obtain ps a' where r: "shm_allocs ''/app'' [100, 4000 - 4] (shm_make 1 4096) = Inr (ps, a')" by force
  have "list_all (\<lambda>sz. uint sz < 2 ^ 63) [100, 4000 - 4 :: 64 word]" by simp
  from shm_allocs_sound [OF i this r] r show ?thesis
    by (auto simp: shm_make_def shm_page_length_def Let_def)
qed

text \<open>
  The bounds check adds in 64 bits without looking for a carry: after an allocation of
  \<open>k\<close> bytes, a request that wraps the sum around is granted, and the next block overlaps the
  first.
\<close>

theorem shm_alloc_wraps:
  assumes "shm_inv a" and "0 < k" and "k \<le> sint (curr_offset a)"
  shows "\<exists>a'. shm_alloc n (word_of_int (- k)) a = Inr (scast (curr_offset a), a') \<and>
     sint (curr_offset a') = sint (curr_offset a) - k"
proof -
  let ?c = "scast (curr_offset a) :: 64 word"
  have c: "uint ?c = sint (curr_offset a)"
    using assms(1) by (intro scast_offset) (simp add: shm_inv_def)
  have w: "?c + word_of_int (- k) = word_of_int (sint (curr_offset a) - k)"
    unfolding scast_eq by simp
  have r: "0 \<le> sint (curr_offset a) - k" "sint (curr_offset a) - k < 2 ^ 31"
    using assms by (auto simp: shm_inv_def)
  have u: "uint (?c + word_of_int (- k)) = sint (curr_offset a) - k"
    unfolding w uint_word_of_int using r by (intro mod_pos_pos_trivial) simp_all
  then have "\<not> ?c + word_of_int (- k) > max_size a" using assms by (simp add: word_less_def shm_inv_def)
  moreover have "sint (ucast (?c + word_of_int (- k)) :: 32 word) = sint (curr_offset a) - k"
    using ucast_offset [of "?c + word_of_int (- k)"] r by (simp only: u) 
  ultimately show ?thesis by (simp add: shm_alloc_def Let_def)
qed

definition one_block :: shm_allocator where
  "one_block = \<lparr>max_size = 4096, curr_offset = 100, shm_bytes = replicate 4096 NUL\<rparr>"

theorem shm_alloc_wraps_witness:
  "shm_alloc ''/app'' 100 (shm_make 1 4096) = Inr (0, one_block) \<and>
   (\<exists>a'. shm_alloc ''/app'' (word_of_int (- 60)) one_block = Inr (100, a') \<and> sint (curr_offset a') = 40)"
proof
  show "shm_alloc ''/app'' 100 (shm_make 1 4096) = Inr (0, one_block)"
    by (simp add: shm_alloc_def shm_make_def shm_page_length_def one_block_def Let_def)
  have "shm_inv one_block" by (simp add: shm_inv_def one_block_def)
  from shm_alloc_wraps [OF this, of 60 "''/app''"]
  show "\<exists>a'. shm_alloc ''/app'' (word_of_int (- 60)) one_block = Inr (100, a') \<and> sint (curr_offset a') = 40"
    by (simp add: one_block_def)
qed

end
