(* ===== verification/CmdDispatch.thy ===== *)
theory CmdDispatch
  imports SharedMem
begin

text \<open>
  \<open>process-cmd-dispatch-info.cpp\<close>: the annotation information the Java side hands over is
  applied to the session state, laid out in shared memory with the state's own text, and read
  back by the child processes. The Java objects are given as data: the classes and fields
  looked up through JNI exist, strings are their UTF-8 bytes.
\<close>

section \<open>What Java hands over\<close>

record meth_info =
  mi_className :: string
  mi_methodName :: string
  mi_descriptor :: string

record cmd_info = meth_info +
  ci_cmd :: string

record child_cmd_info = cmd_info +
  cc_jvmArgs :: "string list"

record dispatch_info =
  di_systemClassPath :: "string list"
  di_mainEntryPoint :: "meth_info option"
  di_supervisorCommands :: "cmd_info list"
  di_childWorkerCommands :: "child_cmd_info list"

section \<open>Applying it to the session state\<close>

fun join_nonempty :: "char \<Rightarrow> string \<Rightarrow> string list \<Rightarrow> string" where
  \<comment> \<open>the loops that append to a string with a separator unless it is still empty\<close>
  "join_nonempty c acc [] = acc"
| "join_nonempty c acc (s # ss) = join_nonempty c ((if acc \<noteq> [] then acc @ [c] else acc) @ s) ss"

definition extract_method_info :: "'a meth_info_scheme \<Rightarrow> string \<times> string" where
  "extract_method_info mi = (dots_to_slashes (mi_className mi) @ ''/'' @ mi_methodName mi, mi_descriptor mi)"

definition supervisor_cmd :: "cmd_info \<Rightarrow> method_descriptor_cmd" where
  "supervisor_cmd ci =
     (let (m, d) = extract_method_info ci in methodDescriptorCmd m d (ci_cmd ci) [] False WM_SUPERVISOR_DO_CMD)"

definition child_worker_cmd :: "child_cmd_info \<Rightarrow> method_descriptor_cmd" where
  "child_worker_cmd ci =
     (let (m, d) = extract_method_info ci
      in methodDescriptorCmd m d (ci_cmd ci) (join_nonempty CHR '' '' [] (cc_jvmArgs ci)) True WM_CHILD_DO_CMD)"

definition main_class_prefix :: "string \<Rightarrow> string" where
  \<comment> \<open>the class of the main method, with the slash after it\<close>
  "main_class_prefix full_entry_point_name =
     (case strrsplit CHR ''/'' full_entry_point_name of
        None \<Rightarrow> []
      | Some (cls, m) \<Rightarrow> if m = [] then [] else cls @ ''/'')"

definition adjust_entry :: "string \<Rightarrow> method_descriptor \<Rightarrow> method_descriptor" where
  "adjust_entry entry_points_class md =
     (if \<not> strncaseeq (fullMethodName md) entry_points_class (length entry_points_class)
      then (let parts = str_split (fullMethodName md) CHR ''/'' 0 in
            if length parts < 1 then md
            else md\<lparr>fullMethodName := entry_points_class @ parts ! (length parts - 1)\<rparr>)
      else md)"

definition extract_main_entry_method_info :: "meth_info option \<Rightarrow> session_state \<Rightarrow> session_error + session_state" where
  "extract_main_entry_method_info mi ss =
     (case mi of
        None \<Rightarrow> Inl (Invalid_initialization
          ''no main() entry method defined in either config.ini or via @SupervisorMain annotation'')
      | Some mi \<Rightarrow>
          (let (m, d) = extract_method_info mi;
               ss = ss\<lparr>spartanMainEntryPoint := methodDescriptor m d True WM_MAIN\<rparr>;
               cls_name_str = main_class_prefix (fullMethodName (spartanMainEntryPoint ss));
               entry_points_class = (if cls_name_str = [] then ''spartan/SpartanBase/'' else cls_name_str)
           in Inr (ss\<lparr>
                spartanGetStatusEntryPoint := adjust_entry entry_points_class (spartanGetStatusEntryPoint ss),
                spartanSupervisorShutdownEntryPoint :=
                  adjust_entry entry_points_class (spartanSupervisorShutdownEntryPoint ss),
                spartanChildNotifyEntryPoint := adjust_entry entry_points_class (spartanChildNotifyEntryPoint ss),
                spartanChildCompletionNotifyEntryPoint :=
                  adjust_entry entry_points_class (spartanChildCompletionNotifyEntryPoint ss),
                spartanSupervisorEntryPoint := adjust_entry entry_points_class (spartanSupervisorEntryPoint ss)\<rparr>)))"

definition apply_cmd_dsp_info_to_session_state ::
  "string list \<Rightarrow> dispatch_info \<Rightarrow> session_state \<Rightarrow> session_error + session_state" where
  "apply_cmd_dsp_info_to_session_state sys_prop_strs di ss =
     (let ss = (if sys_prop_strs \<noteq> [] then ss\<lparr>spSerializedSystemProperties := Some sys_prop_strs\<rparr> else ss);
          ss = ss\<lparr>systemClassPath := join_nonempty CHR '':'' [] (di_systemClassPath di)\<rparr>
      in bind_r (if md_empty (spartanMainEntryPoint ss)
                 then extract_main_entry_method_info (di_mainEntryPoint di) ss else Inr ss) (\<lambda>ss.
         let ss = (if di_supervisorCommands di \<noteq> []
                   then ss\<lparr>spSpartanSupervisorCommands := Some (map supervisor_cmd (di_supervisorCommands di))\<rparr> else ss);
             ss = (if di_childWorkerCommands di \<noteq> []
                   then ss\<lparr>spSpartanChildProcessorCommands := Some (map child_worker_cmd (di_childWorkerCommands di))\<rparr>
                   else ss)
         in Inr ss))"

section \<open>The shared memory region\<close>

text \<open>\<open>int32_t\<close> is stored in the byte order of the machine, little-endian here.\<close>

definition int32_bytes :: "32 word \<Rightarrow> string" where
  "int32_bytes w = map (\<lambda>k. char_of (unat w div 256 ^ k)) [0, 1, 2, 3]"

definition int32_at :: "string \<Rightarrow> nat \<Rightarrow> 32 word option" where
  \<comment> \<open>\<open>None\<close>: the access leaves the region\<close>
  "int32_at mem p =
     (if p + 4 \<le> length mem
      then Some (word_of_nat (of_char (mem ! p) + 256 * of_char (mem ! (p + 1)) +
             65536 * of_char (mem ! (p + 2)) + 16777216 * of_char (mem ! (p + 3))))
      else None)"

definition mem_write :: "nat \<Rightarrow> string \<Rightarrow> string \<Rightarrow> string" where
  "mem_write p bs mem = take p mem @ bs @ drop (p + length bs) mem"

definition pages_for :: "nat \<Rightarrow> nat \<Rightarrow> nat" where
  "pages_for shm_required_size pg_size =
     (let pgs = shm_required_size div pg_size; rem = shm_required_size mod pg_size
      in if rem \<noteq> 0 then pgs + 1 else pgs)"

definition serialize_session_state_to_membuf :: "session_state \<Rightarrow> string" where
  "serialize_session_state_to_membuf ss = ss_out ss"

definition layout_region :: "nat \<Rightarrow> string \<Rightarrow> string \<Rightarrow> string" where
  \<comment> \<open>the fresh region (zero bytes) after the writes of \<open>process_initial_cmd_dispatch_info\<close>\<close>
  "layout_region pg_size ser_info membuf =
     (let shm_required_size = 4 + length ser_info + 4 + length membuf;
          mem = replicate (pages_for shm_required_size pg_size * pg_size) NUL;
          pos = 0;
          mem = mem_write pos (int32_bytes (word_of_nat (length ser_info))) mem;
          pos = pos + 4;
          mem = mem_write pos ser_info mem;
          pos = pos + length ser_info;
          mem = mem_write pos (int32_bytes (word_of_nat (length membuf))) mem;
          pos = pos + 4
      in mem_write pos membuf mem)"

definition process_initial_cmd_dispatch_info ::
  "nat \<Rightarrow> string \<Rightarrow> string list \<Rightarrow> dispatch_info \<Rightarrow> session_state \<Rightarrow> session_error + session_state \<times> string" where
  "process_initial_cmd_dispatch_info pg_size ser_info sys_prop_strs di ss =
     (let mainEntryPoint_save = spartanMainEntryPoint ss in
      bind_r (apply_cmd_dsp_info_to_session_state sys_prop_strs di ss) (\<lambda>ss.
      let ss = (if \<not> md_empty mainEntryPoint_save then ss\<lparr>spartanMainEntryPoint := mainEntryPoint_save\<rparr> else ss)
      in Inr (ss, layout_region pg_size ser_info (serialize_session_state_to_membuf ss))))"

definition get_session_state_buf_info :: "string \<Rightarrow> (nat \<times> nat) option" where
  \<comment> \<open>position and size of the state's text; negative block sizes are excluded as bad accesses\<close>
  "get_session_state_buf_info mem =
     (case int32_at mem 0 of
        None \<Rightarrow> None
      | Some block_size \<Rightarrow>
          (if sint block_size < 0 then None
           else
             (let pos = 4 + nat (sint block_size) in
              case int32_at mem pos of
                None \<Rightarrow> None
              | Some block_size \<Rightarrow> if sint block_size < 0 then None else Some (pos + 4, nat (sint block_size)))))"

definition get_cmd_dispatch_info :: "int \<Rightarrow> string \<Rightarrow> session_state \<Rightarrow> (session_state \<times> istream) option" where
  "get_cmd_dispatch_info junk mem ss =
     (case get_session_state_buf_info mem of
        None \<Rightarrow> None
      | Some (pos, len) \<Rightarrow>
          (if pos + len \<le> length mem then ss_in junk (istr (take len (drop pos mem))) ss else None))"

section \<open>The commands of the child processes\<close>

datatype cmds_error = Null_string \<comment> \<open>\<open>std::string\<close> built from the null pointer\<close>

definition get_child_processor_commands :: "session_state \<Rightarrow> cmds_error + string set" where
  "get_child_processor_commands ss =
     (let from_annotations =
        (case spSpartanChildProcessorCommands ss of
           None \<Rightarrow> {}
         | Some v \<Rightarrow> set (map (\<lambda>md. map tolower (cstr (command md))) v))
      in if spartanChildProcessorCommands ss = []
         then Inr from_annotations
         else (let cmds = map tolower (cstr (spartanChildProcessorCommands ss)) in
               case strtok_r '','' cmds of
                 None \<Rightarrow> Inl Null_string
               | Some (t, save) \<Rightarrow> Inr ({t} \<union> set (strtoks '','' save) \<union> from_annotations)))"

section \<open>The region reads back\<close>

lemma bytes4: "n < 2 ^ 32 \<Longrightarrow> n mod 256 + 256 * (n div 256 mod 256) + 65536 * (n div 65536 mod 256) +
    16777216 * (n div 16777216 mod 256) = (n :: nat)"
proof -
  assume n: "n < 2 ^ 32"
  have "n = 256 * (n div 256) + n mod 256"
    "n div 256 = 256 * (n div 65536) + n div 256 mod 256"
    "n div 65536 = 256 * (n div 16777216) + n div 65536 mod 256"
    using mult_div_mod_eq [of 256 n] mult_div_mod_eq [of 256 "n div 256"] mult_div_mod_eq [of 256 "n div 65536"]
    by (simp_all add: div_mult2_eq [symmetric])
  moreover have "n div 16777216 mod 256 = n div 16777216" using n by simp
  ultimately show ?thesis by linarith
qed

lemma int32_bytes_length [simp]: "length (int32_bytes w) = 4"
  by (simp add: int32_bytes_def)

lemma int32_at_bytes: "int32_at (p @ int32_bytes w @ s) (length p) = Some w"
proof -
  have "unat w < 2 ^ 32" using unsigned_less [of w] by simp
  moreover from this have "unat w div 16777216 mod 256 = unat w div 16777216" by simp
  ultimately show ?thesis using bytes4 [of "unat w"]
    by (simp add: int32_at_def int32_bytes_def nth_append numeral_2_eq_2 numeral_3_eq_3 del: of_nat_add of_nat_mult)
qed

lemma mem_write_append: "mem_write (length p) bs (p @ m) = p @ bs @ drop (length bs) m"
  by (simp add: mem_write_def)

lemma pages_enough: "0 < pg \<Longrightarrow> n \<le> pages_for n pg * pg"
  by (auto simp: pages_for_def Let_def) (metis div_mult_mod_eq add_le_cancel_left less_imp_le mod_less_divisor add.commute)+

lemma layout_region_eq:
  assumes "0 < pg"
  shows "\<exists>pad. layout_region pg info membuf =
     int32_bytes (word_of_nat (length info)) @ info @ int32_bytes (word_of_nat (length membuf)) @ membuf @ pad"
proof -
  let ?n = "4 + length info + 4 + length membuf"
  let ?m = "replicate (pages_for ?n pg * pg) NUL"
  let ?a = "int32_bytes (word_of_nat (length info))" and ?b = "int32_bytes (word_of_nat (length membuf))"
  have w1: "mem_write 0 ?a ?m = ?a @ drop 4 ?m" using mem_write_append [of "[]"] by simp
  have w2: "mem_write 4 info (?a @ m) = ?a @ info @ drop (length info) m" for m
    using mem_write_append [of ?a info m] by simp
  have w3: "mem_write (4 + length info) ?b (?a @ info @ m) = ?a @ info @ ?b @ drop 4 m" for m
    using mem_write_append [of "?a @ info" ?b m] by simp
  have w4: "mem_write (4 + length info + 4) membuf (?a @ info @ ?b @ m) =
      ?a @ info @ ?b @ membuf @ drop (length membuf) m" for m
    using mem_write_append [of "?a @ info @ ?b" membuf m] by simp
  show ?thesis unfolding layout_region_def Let_def by (simp only: add_0 w1 w2 w3 w4) blast
qed

lemma sint_word_of_nat: "n < 2 ^ 31 \<Longrightarrow> sint (word_of_nat n :: 32 word) = int n"
proof -
  assume n: "n < 2 ^ 31"
  have "sint (word_of_int (int n) :: 32 word) = (int n + 2 ^ 31) mod 2 ^ 32 - 2 ^ 31"
    unfolding signed_of_int signed_take_bit_eq_take_bit_shift take_bit_eq_mod by simp
  also have "(int n + 2 ^ 31) mod 2 ^ 32 = int n + 2 ^ 31"
    using n by (intro mod_pos_pos_trivial) simp_all
  finally show ?thesis by simp
qed

lemma get_layout_region:
  assumes "0 < pg" and "length info < 2 ^ 31" and "length membuf < 2 ^ 31"
  shows "get_session_state_buf_info (layout_region pg info membuf) = Some (8 + length info, length membuf)"
    and "take (length membuf) (drop (8 + length info) (layout_region pg info membuf)) = membuf"
    and "8 + length info + length membuf \<le> length (layout_region pg info membuf)"
proof -
  let ?a = "int32_bytes (word_of_nat (length info))" and ?b = "int32_bytes (word_of_nat (length membuf))"
  obtain pad where l: "layout_region pg info membuf = ?a @ info @ ?b @ membuf @ pad"
    using layout_region_eq [OF assms(1)] by blast
  have i1: "int32_at (layout_region pg info membuf) 0 = Some (word_of_nat (length info))"
    using int32_at_bytes [of "[]"] by (simp add: l)
  have i2: "int32_at (layout_region pg info membuf) (4 + length info) = Some (word_of_nat (length membuf))"
    using int32_at_bytes [of "?a @ info"] by (simp add: l)
  show "get_session_state_buf_info (layout_region pg info membuf) = Some (8 + length info, length membuf)"
    using assms by (simp add: get_session_state_buf_info_def i1 i2 sint_word_of_nat Let_def)
  show "take (length membuf) (drop (8 + length info) (layout_region pg info membuf)) = membuf"
    by (simp add: l)
  show "8 + length info + length membuf \<le> length (layout_region pg info membuf)"
    by (simp add: l)
qed

lemma layout_roundtrip:
  assumes "ss_text_ok ss" and "0 < pg" and "length info < 2 ^ 31" and "length (ss_out ss) < 2 ^ 31"
  shows "get_cmd_dispatch_info junk (layout_region pg info (ss_out ss)) old = Some (ss_read ss old, istr [])"
  using get_layout_region [OF assms(2,3,4)] ss_in_out [OF assms(1), of junk "[]" old]
  by (simp add: get_cmd_dispatch_info_def)

text \<open>
  What the supervisor puts in shared memory is what every child process gets out of it:
  the session state with the annotations applied, whatever the size of the serialized
  dispatch information before it and the page size, below 2 GiB.
\<close>

theorem shared_state_roundtrip:
  assumes "process_initial_cmd_dispatch_info pg ser_info props di ss = Inr (ss', mem)"
    and "ss_text_ok ss'" and "0 < pg" and "length ser_info < 2 ^ 31" and "length (ss_out ss') < 2 ^ 31"
  shows "get_cmd_dispatch_info junk mem old = Some (ss_read ss' old, istr [])"
proof -
  have "mem = layout_region pg ser_info (ss_out ss')"
    using assms(1) by (auto simp: process_initial_cmd_dispatch_info_def bind_r_Inr Let_def
        serialize_session_state_to_membuf_def)
  with layout_roundtrip [OF assms(2-5)] show ?thesis by simp
qed

definition example_di :: dispatch_info where
  "example_di = \<lparr>di_systemClassPath = [''a.jar'', ''b.jar''], di_mainEntryPoint = None,
     di_supervisorCommands = [], di_childWorkerCommands =
       [\<lparr>mi_className = ''p.Q'', mi_methodName = ''gen'', mi_descriptor = ''([Ljava/lang/String;Ljava/io/PrintStream;)V'', ci_cmd = ''GENETIC'',
         cc_jvmArgs = [''-Xms1g'', ''-Xmx2g'']\<rparr>]\<rparr>"

definition example_shared :: session_state where
  "example_shared = example_state\<lparr>spSerializedSystemProperties := Some [''u=v''], systemClassPath := ''a.jar:b.jar'',
     spSpartanChildProcessorCommands := Some [methodDescriptorCmd ''p/Q/gen'' ''([Ljava/lang/String;Ljava/io/PrintStream;)V'' ''GENETIC'' ''-Xms1g -Xmx2g'' True 7]\<rparr>"

lemma example_shared_ok: "ss_text_ok example_shared"
  by (simp add: ss_text_ok_def entry_list_def slots_def vec_ok_def mdc_text_ok_def md_text_ok_def example_state_def
      example_shared_def ss_default_def md_default_def methodDescriptor_def methodDescriptorCmd_def)

lemma example_shared_length: "int (length (ss_out example_shared)) < 2 ^ 31"
  by code_simp

definition example_region :: string where
  "example_region = layout_region 4096 ''serialized'' (ss_out example_shared)"

lemma example_region_read:
  "get_cmd_dispatch_info junk example_region ss_default = Some (ss_read example_shared ss_default, istr [])"
  using example_shared_length unfolding example_region_def by (intro layout_roundtrip [OF example_shared_ok]) simp_all

lemma example_processed:
  "process_initial_cmd_dispatch_info 4096 ''serialized'' [''u=v''] example_di example_state =
     Inr (example_shared, layout_region 4096 ''serialized'' (ss_out example_shared))"
  by (simp add: process_initial_cmd_dispatch_info_def apply_cmd_dsp_info_to_session_state_def example_di_def
      example_state_def example_shared_def md_empty_def methodDescriptor_def child_worker_cmd_def
      ss_default_def extract_method_info_def dots_to_slashes_def serialize_session_state_to_membuf_def Let_def)

theorem shared_state_roundtrip_witness:
  "get_cmd_dispatch_info 0 (layout_region 4096 ''serialized'' (ss_out example_shared)) ss_default =
     Some (ss_read example_shared ss_default, istr [])"
  using example_shared_length by (intro shared_state_roundtrip [OF example_processed example_shared_ok]) simp_all

section \<open>Entry points and commands\<close>

definition has_class :: "string \<Rightarrow> method_descriptor \<Rightarrow> bool" where
  "has_class prefix md = strncaseeq (fullMethodName md) prefix (length prefix)"

lemma adjust_entry_class:
  "strtoks ''/'' (fullMethodName md) \<noteq> [] \<Longrightarrow> has_class prefix (adjust_entry prefix md)"
  by (auto simp: adjust_entry_def has_class_def str_split_strtoks strncaseeq_def Let_def)

lemma adjust_entry_method:
  assumes "strrsplit CHR ''/'' (fullMethodName md) = Some (a, m)" and "m \<noteq> []" and "prefix = p @ ''/''"
  shows "\<exists>b. strrsplit CHR ''/'' (fullMethodName (adjust_entry prefix md)) = Some (b, m)"
proof -
  have l: "last (strtoks ''/'' (fullMethodName md)) = m" "strtoks ''/'' (fullMethodName md) \<noteq> []"
    using strtoks_last [OF assms(1,2)] by auto
  have m: "CHR ''/'' \<notin> set m" using assms(1) by (simp add: strrsplit_Some)
  show ?thesis
  proof (cases "strncaseeq (fullMethodName md) prefix (length prefix)")
    case True
    with assms(1) show ?thesis by (simp add: adjust_entry_def)
  next
    case False
    then have "fullMethodName (adjust_entry prefix md) = p @ CHR ''/'' # m"
      using l assms(3) by (simp add: adjust_entry_def str_split_strtoks Let_def last_conv_nth Suc_le_eq)
    with m show ?thesis by simp
  qed
qed

lemma extract_main_entries:
  assumes "extract_main_entry_method_info (Some mi) ss = Inr ss'"
  shows "\<exists>prefix p. prefix = p @ ''/'' \<and>
     spartanGetStatusEntryPoint ss' = adjust_entry prefix (spartanGetStatusEntryPoint ss) \<and>
     spartanSupervisorShutdownEntryPoint ss' = adjust_entry prefix (spartanSupervisorShutdownEntryPoint ss) \<and>
     spartanChildNotifyEntryPoint ss' = adjust_entry prefix (spartanChildNotifyEntryPoint ss) \<and>
     spartanChildCompletionNotifyEntryPoint ss' = adjust_entry prefix (spartanChildCompletionNotifyEntryPoint ss) \<and>
     spartanSupervisorEntryPoint ss' = adjust_entry prefix (spartanSupervisorEntryPoint ss) \<and>
     prefix = (if main_class_prefix (fullMethodName (spartanMainEntryPoint ss')) = [] then ''spartan/SpartanBase/''
               else main_class_prefix (fullMethodName (spartanMainEntryPoint ss')))"
proof -
  let ?c = "main_class_prefix (fullMethodName (spartanMainEntryPoint ss'))"
  have "\<exists>p. (if ?c = [] then ''spartan/SpartanBase/'' else ?c) = p @ ''/''"
    by (auto simp: main_class_prefix_def split: option.splits intro: exI [where x = "''spartan/SpartanBase''"])
  with assms show ?thesis
    by (auto simp: extract_main_entry_method_info_def Let_def split: prod.splits)
qed

definition other_entries :: "session_state \<Rightarrow> method_descriptor list" where
  "other_entries ss = [spartanGetStatusEntryPoint ss, spartanSupervisorShutdownEntryPoint ss,
     spartanChildNotifyEntryPoint ss, spartanChildCompletionNotifyEntryPoint ss, spartanSupervisorEntryPoint ss]"

definition method_of :: "method_descriptor \<Rightarrow> string option" where
  "method_of md = map_option snd (strrsplit CHR ''/'' (fullMethodName md))"

lemma method_of_adjust:
  assumes "method_of md = Some m" and "m \<noteq> []" and "prefix = p @ ''/''"
  shows "method_of (adjust_entry prefix md) = Some m \<and> has_class prefix (adjust_entry prefix md)"
proof -
  from assms(1) obtain a where a: "strrsplit CHR ''/'' (fullMethodName md) = Some (a, m)"
    by (auto simp: method_of_def)
  have "strtoks ''/'' (fullMethodName md) \<noteq> []" using strtoks_last [OF a assms(2)] by simp
  then show ?thesis using adjust_entry_method [OF a assms(2,3)] adjust_entry_class [of md prefix]
    by (auto simp: method_of_def)
qed

text \<open>
  When the main method comes from the annotation, the five supervisor entry points are
  moved to the class of the main method, or to \<open>spartan/SpartanBase\<close> when that class cannot be
  told, and each keeps its own method.
\<close>

theorem extract_main_entry_moves_class:
  assumes "extract_main_entry_method_info (Some mi) ss = Inr ss'"
    and "list_all (\<lambda>md. method_of md \<notin> {None, Some []}) (other_entries ss)"
  shows "(let c = main_class_prefix (fullMethodName (spartanMainEntryPoint ss'));
              prefix = (if c = [] then ''spartan/SpartanBase/'' else c)
          in list_all (has_class prefix) (other_entries ss')) \<and>
         map method_of (other_entries ss') = map method_of (other_entries ss)"
proof -
  let ?c = "main_class_prefix (fullMethodName (spartanMainEntryPoint ss'))"
  obtain prefix p where pre: "prefix = p @ ''/''" and c: "prefix = (if ?c = [] then ''spartan/SpartanBase/'' else ?c)"
    and e: "other_entries ss' = map (adjust_entry prefix) (other_entries ss)"
    using extract_main_entries [OF assms(1)] by (auto simp: other_entries_def)
  have "method_of (adjust_entry prefix md) = method_of md \<and> has_class prefix (adjust_entry prefix md)"
    if "md \<in> set (other_entries ss)" for md
    using that assms(2) method_of_adjust [OF _ _ pre, of md] by (cases "method_of md") (auto simp: list_all_iff)
  then have "map method_of (other_entries ss') = map method_of (other_entries ss)"
    and "list_all (has_class prefix) (other_entries ss')"
    by (auto simp: e list_all_iff)
  then show ?thesis by (simp add: c [symmetric] Let_def)
qed

definition example_entries :: session_state where
  "example_entries = default_entries ss_default"

theorem extract_main_entry_moves_class_witness:
  "\<exists>ss'. extract_main_entry_method_info
      (Some \<lparr>mi_className = ''app.Main'', mi_methodName = ''main'', mi_descriptor = ''()V''\<rparr>) example_entries = Inr ss' \<and>
     list_all (has_class ''app/Main/'') (other_entries ss') \<and>
     map method_of (other_entries ss') = map method_of (other_entries example_entries)"
proof -
  let ?mi = "\<lparr>mi_className = ''app.Main'', mi_methodName = ''main'', mi_descriptor = ''()V''\<rparr>"
  have "\<exists>ss'. extract_main_entry_method_info (Some ?mi) example_entries = Inr ss'"
    unfolding extract_main_entry_method_info_def by (simp only: option.case Let_def case_prod_beta) blast
  then obtain ss' where s: "extract_main_entry_method_info (Some ?mi) example_entries = Inr ss'" ..
  have "list_all (\<lambda>md. method_of md \<notin> {None, Some []}) (other_entries example_entries)" by code_simp
  note m = extract_main_entry_moves_class [OF s this]
  have "fullMethodName (spartanMainEntryPoint ss') = ''app/Main/main''"
    using s by (auto simp: extract_main_entry_method_info_def extract_method_info_def dots_to_slashes_def
        methodDescriptor_def Let_def)
  moreover have "main_class_prefix ''app/Main/main'' = ''app/Main/''" by code_simp
  ultimately show ?thesis using m s by (auto simp: Let_def)
qed

lemma strtoks_Cons_None: "strtok_r ds s = None \<Longrightarrow> strtoks ds s = []"
  by (simp add: strtoks.simps)

text \<open>
  The set of child commands is the lower-case form of the comma-separated tokens of the
  setting and of the annotated commands, blanks around a token included; a setting of nothing
  but commas makes the program build a string from a null pointer.
\<close>

theorem child_processor_commands_set:
  "get_child_processor_commands ss =
     (let setting = spartanChildProcessorCommands ss;
          tokens = strtoks '','' (map tolower (cstr setting))
      in if setting \<noteq> [] \<and> tokens = [] then Inl Null_string
         else Inr (set tokens \<union> (\<lambda>md. map tolower (cstr (command md))) `
                (case spSpartanChildProcessorCommands ss of None \<Rightarrow> {} | Some v \<Rightarrow> set v)))"
proof -
  let ?t = "map tolower (cstr (spartanChildProcessorCommands ss))"
  have nil: "strtoks '','' (map tolower (cstr [])) = []" by (simp add: cstr_def strtoks_Nil)
  show ?thesis
  proof (cases "strtok_r '','' ?t")
    case None
    then show ?thesis
      by (auto simp: get_child_processor_commands_def strtoks_Cons_None nil Let_def split: option.splits)
  next
    case (Some ts)
    then have "strtoks '','' ?t = fst ts # strtoks '','' (snd ts)" by (simp add: strtoks.simps [of _ ?t] case_prod_beta)
    with Some show ?thesis
      by (cases ts) (auto simp: get_child_processor_commands_def nil Let_def split: option.splits)
  qed
qed

end
