(* ===== verification/LaunchProgram.thy ===== *)
theory LaunchProgram
  imports UdsPipes CmdDispatch
begin

text \<open>
  Running a command from Java: the rest of \<open>launch-program.cpp\<close>. The program forks a client of
  itself with the command line, gives it the name of a socket to answer to, and turns the
  descriptors that come back into a Java response object. What the other processes do between
  two calls is a parameter, as are the answers of \<open>fork\<close>, \<open>waitpid\<close>, \<open>kill\<close>, \<open>open\<close> and of the
  JNI calls. Messages of exceptions are left out.
\<close>

section \<open>Socket names\<close>

lemma init_sockaddr_length: "length (fst (init_sockaddr n)) = sun_path_size"
  by (simp add: init_sockaddr_def Let_def)

lemma sock_addr_eq:
  "sock_addr n = (if n = [] \<or> length n > sun_path_size then None
     else Some (NUL # tl (take 107 n) @ (if length n = sun_path_size then [NUL] else [])))"
proof (cases "n = [] \<or> length n > sun_path_size")
  case True
  then show ?thesis by (auto simp: sock_addr_def init_sockaddr_def Let_def)
next
  case False
  then obtain c m where n: "n = c # m" and l: "length m \<le> 107" by (cases n) auto
  have "take (Suc (length m)) ((take 107 (c # m) @ replicate (106 - length m) NUL @ [NUL])[107 := NUL, 0 := NUL]) =
      NUL # tl (take 107 (c # m)) @ (if length m = 107 then [NUL] else [])"
  proof (cases "length m = 107")
    case True
    then show ?thesis by (simp add: list_update_append take_Cons')
  next
    case False
    with l have m: "length m \<le> 106" by simp
    then have "(take 107 (c # m) @ replicate (106 - length m) NUL @ [NUL])[107 := NUL, 0 := NUL] =
        NUL # m @ replicate (106 - length m) NUL @ [NUL]"
      by (simp add: list_update_append take_Cons')
    with m False show ?thesis by (simp add: take_Cons')
  qed
  with n l show ?thesis by (simp add: sock_addr_def init_sockaddr_def Let_def)
qed

lemma sock_addr_inj:
  assumes "sock_addr a = sock_addr b" and "a \<noteq> []" and "b \<noteq> []" and "length a \<le> 107" and "length b \<le> 107"
  shows "tl a = tl b"
  using assms by (simp add: sock_addr_eq)

lemma show_nat_inj: "show_nat a = show_nat b \<Longrightarrow> a = b"
  by (metis read_show_nat)

lemma show_int_inj: "show_int a = show_int b \<Longrightarrow> a = b"
proof -
  have d: "show_nat n \<noteq> CHR ''-'' # show_nat m" for n m
    using show_nat_set [of "CHR ''-''" n] isdigit_cases [of "CHR ''-''"] by auto
  assume "show_int a = show_int b"
  then show "a = b"
    using d [of "nat a" "nat (- b)"] d [of "nat b" "nat (- a)"]
    by (auto simp: show_int_def dest!: show_nat_inj split: if_splits)
qed

lemma show_int_no_sep: "CHR ''_'' \<notin> set (show_int i)"
  by (auto simp: show_int_def isdigit_def dest!: show_nat_set)

lemma split_at_inj: "c \<notin> set a \<Longrightarrow> c \<notin> set b \<Longrightarrow> a @ c # x = b @ c # y \<Longrightarrow> a = b \<and> x = y"
  by (metis takeWhile_not_append dropWhile_not_append list.inject)

text \<open>
  The abstract addresses of two sockets named by the same program are the same only for the
  same process and the same random number, as long as the names fit an address; a name longer
  than the 108 bytes of \<open>sun_path\<close> has none.
\<close>

theorem uds_names_distinct:
  assumes "sock_addr (fifo_text prog base pid r) = sock_addr (fifo_text prog base pid' r')"
    and "length (fifo_text prog base pid r) \<le> 107" and "length (fifo_text prog base pid' r') \<le> 107"
  shows "pid = pid' \<and> r = r'"
proof -
  have "tl (fifo_text prog base pid r) = tl (fifo_text prog base pid' r')"
    by (rule sock_addr_inj [OF assms(1) _ _ assms(2,3)]) (simp_all add: fifo_text_def)
  then have "show_int pid @ CHR ''_'' # show_int (int r) = show_int pid' @ CHR ''_'' # show_int (int r')"
    by (simp add: fifo_text_def)
  then have "show_int pid = show_int pid' \<and> show_int (int r) = show_int (int r')"
    by (rule split_at_inj [OF show_int_no_sep show_int_no_sep])
  then show ?thesis by (auto dest!: show_int_inj)
qed

theorem uds_names_distinct_witness:
  "sock_addr (fifo_text ''app'' ''JLauncher_UDS'' 12 34) \<noteq> sock_addr (fifo_text ''app'' ''JLauncher_UDS'' 12 35)"
proof
  assume "sock_addr (fifo_text ''app'' ''JLauncher_UDS'' 12 34) = sock_addr (fifo_text ''app'' ''JLauncher_UDS'' 12 35)"
  from uds_names_distinct [OF this] show False
    by (simp add: fifo_text_def show_int_def show_nat.simps)
qed

section \<open>fork2main\<close>

definition pipe_optn_arg :: "string \<Rightarrow> string" where
  "pipe_optn_arg uds_socket_name = format2str (''-pipe='' @ uds_socket_name)"

definition fork2main_argv :: "string \<Rightarrow> string \<Rightarrow> string list \<Rightarrow> string list" where
  "fork2main_argv prog_path uds_socket_name argv = prog_path # pipe_optn_arg uds_socket_name # tl argv"

datatype fork_result = Fork_failed | Forked int

record launch_env =
  le_rand :: rand_fn
  le_seed :: nat
  le_progpath :: string \<comment> \<open>\<open>progpath()\<close>\<close>
  le_files :: file_env
  le_getenv :: "string \<Rightarrow> string option"
  le_fork :: fork_result
  le_others :: "string list \<Rightarrow> os_state \<Rightarrow> os_state"
    \<comment> \<open>what the forked client with its command line, and those it talks to, do until they answer\<close>

datatype 'a launched = Returns "launch_error + 'a" sys | Does_not_return | Null_pointer

definition fork2main :: "launch_env \<Rightarrow> string list \<Rightarrow> string \<Rightarrow> sys \<Rightarrow> (int \<times> nat \<times> string) launched" where
  \<comment> \<open>in the parent: the pid of the client, the socket and its name. The name has the whole
      program path in it\<close>
  "fork2main env argv prog_path s =
     (case make_fifo_pipe_name (le_rand env) (le_seed env) (pr_pid (snd s)) (le_progpath env) ''JLauncher_UDS'' of
        None \<Rightarrow> Does_not_return
      | Some (Inl e) \<Rightarrow> Returns (Inl Make_fifo_pipe_name) s
      | Some (Inr (uds_socket_name, seed)) \<Rightarrow>
          (case uds_bound uds_socket_name s of
             (Inl e, s) \<Rightarrow> Returns (Inl e) s
           | (Inr fd, s) \<Rightarrow>
               (case le_fork env of
                  Fork_failed \<Rightarrow> Returns (Inl Fork_error) (snd (fd_cleanup (int fd) s))
                | Forked pid \<Rightarrow>
                    (let (os, p) = s; os = le_others env (fork2main_argv prog_path uds_socket_name argv) os
                     in Returns (Inr (pid, fd, uds_socket_name)) (os, p)))))"

datatype wait_status = Wait_error | Exited int | Signaled int | Stopped int | Continued

fun wait_launcher :: "wait_status list \<Rightarrow> (launch_error + unit) option" where
  \<comment> \<open>the answers of \<open>waitpid\<close> one after the other\<close>
  "wait_launcher [] = None"
| "wait_launcher (Wait_error # ws) = Some (Inl Fork_error)"
| "wait_launcher (Signaled n # ws) = Some (Inl Interrupted)"
| "wait_launcher (Stopped n # ws) = Some (Inl Interrupted)"
| "wait_launcher (Exited n # ws) = Some (Inr ())"
| "wait_launcher (Continued # ws) = wait_launcher ws"

definition resolve_prog_path :: "launch_env \<Rightarrow> string \<Rightarrow> launch_error + string" where
  "resolve_prog_path env prog_name =
     (if CHR ''/'' \<notin> set prog_name \<and> CHR 0x5C \<notin> set prog_name
      then find_program_path (le_files env) (le_getenv env) prog_name ''PATH''
      else if is_file_or_link (le_files env) prog_name then Inr prog_name
      else Inl (Find_program_path (format2str (''specified program path '' @ CHR 0x27 # prog_name @ CHR 0x27 # '' invalid''))))"

definition close_opt :: "nat option \<Rightarrow> sys \<Rightarrow> sys" where
  "close_opt fd s = (case fd of None \<Rightarrow> s | Some fd \<Rightarrow> snd (fd_cleanup (int fd) s))"

definition launch_program_helper ::
  "launch_env \<Rightarrow> wait_status list \<Rightarrow> string list \<Rightarrow> string \<Rightarrow> bool \<Rightarrow> sys \<Rightarrow>
   (int \<times> nat \<times> nat option \<times> nat option) launched" where
  "launch_program_helper env waits argv prog_path isExtended s =
     (case resolve_prog_path env prog_path of
        Inl e \<Rightarrow> Returns (Inl e) s
      | Inr prog_path \<Rightarrow>
          (case fork2main env argv prog_path s of
             Does_not_return \<Rightarrow> Does_not_return
           | Null_pointer \<Rightarrow> Null_pointer
           | Returns (Inl e) s \<Rightarrow> Returns (Inl e) s
           | Returns (Inr (forked_child_pid, sock, uds_socket_name)) s \<Rightarrow>
               (case obtain_response_stream sock s of
                  None \<Rightarrow> Does_not_return
                | Some (Inl e, s) \<Rightarrow> Returns (Inl e) s
                | Some (Inr (child_pid, rdr, err, wrt), s) \<Rightarrow>
                    (if isExtended \<and> (err = None \<or> wrt = None) then Null_pointer
                     else (case wait_launcher waits of
                             None \<Rightarrow> Does_not_return
                           | Some (Inl e) \<Rightarrow> Returns (Inl e) (close_opt wrt (close_opt err (close_opt (Some rdr) s)))
                           | Some (Inr u) \<Rightarrow> Returns (Inr (child_pid, rdr, err, wrt)) s)))))"

section \<open>invokeCommand\<close>

datatype java_exception =
    Interrupted_exception
  | Invoke_command_exception
  | Kill_process_exception
  | Kill_process_group_exception
  | Class_not_found_exception

datatype invoke_response =
    InvokeResponse int nat \<comment> \<open>the pid and the descriptor of the input stream\<close>
  | InvokeResponseEx int nat nat nat

definition jni_items :: "bool \<Rightarrow> (bool \<times> string) list" where
  \<comment> \<open>what is looked up and allocated, in order; true for the classes\<close>
  "jni_items isExtended =
     [(True, ''java/io/FileDescriptor''), (False, ''FileDescriptor.<init>''), (False, ''rdr FileDescriptor''), (False, ''fd'')] @
     (if isExtended then [(False, ''err FileDescriptor''), (False, ''fd''), (False, ''wrt FileDescriptor''), (False, ''fd'')] else []) @
     [(True, ''java/io/FileInputStream''), (False, ''FileInputStream.<init>''), (False, ''rdr FileInputStream'')] @
     (if isExtended
      then [(False, ''err FileInputStream''), (True, ''java/io/FileOutputStream''), (False, ''FileOutputStream.<init>''),
            (False, ''wrt FileOutputStream''), (True, ''spartan/Spartan$InvokeResponseEx''), (False, ''InvokeResponseEx.<init>''),
            (False, ''InvokeResponseEx'')]
      else [(True, ''spartan/Spartan$InvokeResponse''), (False, ''InvokeResponse.<init>''), (False, ''InvokeResponse'')])"

fun jni_all :: "(string \<Rightarrow> bool) \<Rightarrow> (bool \<times> string) list \<Rightarrow> java_exception option" where
  \<comment> \<open>the first lookup that fails throws\<close>
  "jni_all ok [] = None"
| "jni_all ok ((is_cls, x) # xs) =
     (if ok x then jni_all ok xs else Some (if is_cls then Class_not_found_exception else Invoke_command_exception))"

datatype invoke_outcome = Outcome "java_exception + invoke_response" sys | Blocked | Crashed

definition invoke_spartan_subcommand ::
  "launch_env \<Rightarrow> wait_status list \<Rightarrow> (string \<Rightarrow> bool) \<Rightarrow> string \<Rightarrow> string list \<Rightarrow> bool \<Rightarrow> sys \<Rightarrow> invoke_outcome" where
  "invoke_spartan_subcommand env waits jni progName args isExtended s =
     (case launch_program_helper env waits (progName # args) progName isExtended s of
        Does_not_return \<Rightarrow> Blocked
      | Null_pointer \<Rightarrow> Crashed
      | Returns (Inl Interrupted) s \<Rightarrow> Outcome (Inl Interrupted_exception) s
      | Returns (Inl e) s \<Rightarrow> Outcome (Inl Invoke_command_exception) s
      | Returns (Inr (child_pid, rdr, err, wrt)) s \<Rightarrow>
          (let s = (if isExtended then s else close_opt wrt (close_opt err s)) in
           case jni_all jni (jni_items isExtended) of
             Some ex \<Rightarrow>
               (let s = (if isExtended then close_opt wrt (close_opt err s) else s)
                in Outcome (Inl ex) (close_opt (Some rdr) s))
           | None \<Rightarrow>
               Outcome (Inr (if isExtended then InvokeResponseEx child_pid rdr (the err) (the wrt)
                             else InvokeResponse child_pid rdr)) s))"

definition launchProgram_core_invokeCommand ::
  "launch_env \<Rightarrow> wait_status list \<Rightarrow> (string \<Rightarrow> bool) \<Rightarrow> (unit \<Rightarrow> session_state) \<Rightarrow> string list \<Rightarrow> bool \<Rightarrow> sys \<Rightarrow> invoke_outcome" where
  \<comment> \<open>the session state is read from shared memory; a command that is not one of the child
      commands is refused\<close>
  "launchProgram_core_invokeCommand env waits jni shm_session args isExtended s =
     (let run = (if jni ''program path name UTF string''
                 then invoke_spartan_subcommand env waits jni (le_progpath env) args isExtended s
                 else Outcome (Inl Invoke_command_exception) s) in
      if args \<noteq> [] then
        (case get_child_processor_commands (shm_session ()) of
           Inl Null_string \<Rightarrow> Crashed
         | Inr cmds_set \<Rightarrow>
             (if map tolower (hd args) \<notin> cmds_set then Outcome (Inl Invoke_command_exception) s else run))
      else run)"

section \<open>Signals\<close>

definition killpid_helper :: "(int \<Rightarrow> int \<Rightarrow> int) \<Rightarrow> int \<Rightarrow> int \<Rightarrow> java_exception option" where
  "killpid_helper kill pid sig = (if kill pid sig = -1 then Some Kill_process_exception else None)"

definition killpg_helper :: "(int \<Rightarrow> int) \<Rightarrow> (int \<Rightarrow> int \<Rightarrow> int) \<Rightarrow> int \<Rightarrow> int \<Rightarrow> java_exception option" where
  "killpg_helper getpgid killpg pid sig =
     (let pgid = getpgid pid in
      if pgid = -1 then Some Kill_process_exception
      else if killpg pgid sig = -1 then Some Kill_process_group_exception else None)"

section \<open>isFirstInstance\<close>

datatype pid_file_location = VAR_RUN_DIR | USER_HOME_DIR | EXE_DIR | CURR_DIR

record instance_env =
  ie_open :: "string \<Rightarrow> nat option"
  ie_home :: "string option" \<comment> \<open>\<open>getenv("HOME")\<close>\<close>
  ie_pw_dir :: "string option"
  ie_progpath :: string
  ie_pid :: int

definition pid_file_path :: "instance_env \<Rightarrow> string \<Rightarrow> pid_file_location \<Rightarrow> string option" where
  \<comment> \<open>\<open>None\<close>: the location is passed over\<close>
  "pid_file_path env prefix kind =
     (case kind of
        VAR_RUN_DIR \<Rightarrow> Some (format2str (''/var/run/'' @ prefix @ ''.pid''))
      | USER_HOME_DIR \<Rightarrow>
          (case (case ie_home env of None \<Rightarrow> ie_pw_dir env | Some h \<Rightarrow> Some h) of
             None \<Rightarrow> None
           | Some homedir \<Rightarrow> Some (path_concat homedir prefix @ ''.pid''))
      | EXE_DIR \<Rightarrow> Some (path_concat (ie_progpath env) prefix @ ''.pid'')
      | CURR_DIR \<Rightarrow> Some (format2str (''./'' @ prefix @ ''.pid'')))"

fun open_pid_file :: "instance_env \<Rightarrow> string \<Rightarrow> pid_file_location list \<Rightarrow> (string \<times> nat) option" where
  "open_pid_file env prefix [] = None"
| "open_pid_file env prefix (kind # kinds) =
     (case pid_file_path env prefix kind of
        None \<Rightarrow> open_pid_file env prefix kinds
      | Some full_path \<Rightarrow>
          (case ie_open env full_path of
             Some fd \<Rightarrow> Some (full_path, fd)
           | None \<Rightarrow> open_pid_file env prefix kinds))"

datatype flock_result = Flock_ok | Flock_would_block | Flock_error

datatype instance_result =
    Instance bool "java_exception option" "(nat \<times> string) option" \<comment> \<open>with what was written to which descriptor\<close>
  | Write_to_null

definition isFirstInstance :: "instance_env \<Rightarrow> (nat \<Rightarrow> flock_result) \<Rightarrow> (nat \<Rightarrow> nat option) \<Rightarrow> string \<Rightarrow> instance_result" where
  \<comment> \<open>when \<open>dup\<close> fails \<open>fdopen(-1)\<close> gives a null stream\<close>
  "isFirstInstance env flock dup progName =
     (case open_pid_file env progName [VAR_RUN_DIR, USER_HOME_DIR, EXE_DIR, CURR_DIR] of
        None \<Rightarrow> Instance True (Some Invoke_command_exception) None
      | Some (full_path, pid_file_fd) \<Rightarrow>
          (case flock pid_file_fd of
             Flock_would_block \<Rightarrow> Instance False None None
           | Flock_error \<Rightarrow> Instance True (Some Invoke_command_exception) None
           | Flock_ok \<Rightarrow>
               (case dup pid_file_fd of
                  None \<Rightarrow> Write_to_null
                | Some fd \<Rightarrow> Instance True None (Some (pid_file_fd, show_int (ie_pid env) @ [NL])))))"


text \<open>
  A program whose path is 86 bytes or longer can run no command: the name of its socket has
  the whole path in it and does not fit an address.
\<close>

theorem long_program_path_fails:
  assumes "86 \<le> length (le_progpath env)" and "fork2main env argv prog_path s = Returns r s'"
  shows "\<exists>e. r = Inl e"
proof (cases "make_fifo_pipe_name (le_rand env) (le_seed env) (pr_pid (snd s)) (le_progpath env) ''JLauncher_UDS''")
  case None
  with assms(2) show ?thesis by (simp add: fork2main_def)
next
  case (Some x)
  show ?thesis
  proof (cases x)
    case (Inl e)
    with assms(2) Some show ?thesis by (auto simp: fork2main_def)
  next
    case (Inr y)
    obtain name seed where y: "y = (name, seed)" by (cases y)
    from make_fifo_pipe_name_complete Some obtain k where
      "name = fifo_text (le_progpath env) ''JLauncher_UDS'' (pr_pid (snd s)) k" unfolding Inr y by blast
    then have "length name = length (le_progpath env) + length (show_int (pr_pid (snd s))) + length (show_int (int k)) + 21"
      by (simp add: fifo_text_def)
    moreover have "1 \<le> length (show_int i)" for i by (simp add: Suc_le_eq)
    from this [of "pr_pid (snd s)"] this [of "int k"] assms(1)
    have "106 < length (le_progpath env) + length (show_int (pr_pid (snd s))) + length (show_int (int k)) + 19"
      by linarith
    ultimately have "sun_path_size < length name" by linarith
    then have "sock_addr name = None" by (simp add: sock_addr_eq)
    then have "\<exists>e s1. uds_bound name s = (Inl e, s1)"
      by (auto simp: uds_bound_def bind_s_def raii_moved_def bind_socket_def split: prod.splits sum.splits)
    then obtain e s1 where "uds_bound name s = (Inl e, s1)" by blast
    with assms(2) Some show ?thesis by (auto simp: fork2main_def Inr y)
  qed
qed

definition long_env :: launch_env where
  "long_env = \<lparr>le_rand = (\<lambda>s. (5, s)), le_seed = 0, le_progpath = replicate 90 CHR ''d'',
     le_files = \<lparr>stat_mode = (\<lambda>p. None), file_text = (\<lambda>p. Inl 2), fclose_errno = (\<lambda>p. 0)\<rparr>,
     le_getenv = Map.empty, le_fork = Forked 9, le_others = (\<lambda>argv os. os)\<rparr>"

theorem long_program_path_fails_witness:
  "\<exists>r s'. fork2main long_env [''x'', ''cmd''] ''x'' (asked, asker) = Returns r s' \<and> (\<exists>e. r = Inl e)"
proof -
  have g: "get_rnd_nbr (le_rand long_env) n 1 99 = Some (1, n)" for n
    by (simp add: long_env_def get_rnd_nbr_def RAND_MAX_def rnd_loop.simps)
  let ?name = "fifo_text (le_progpath long_env) ''JLauncher_UDS'' 300 1"
  have l: "length ?name < 256" "length ?name \<noteq> 0" by (simp_all add: fifo_text_def long_env_def show_int_def show_nat.simps)
  have "fifo_fmt (le_rand long_env) (fifo_text (le_progpath long_env) ''JLauncher_UDS'' 300) 0 256 = Some (Inr (?name, 0))"
    unfolding fifo_fmt.simps [of _ _ 0] g using l by (simp add: snprintf_def)
  then have "make_fifo_pipe_name (le_rand long_env) 0 300 (le_progpath long_env) ''JLauncher_UDS'' = Some (Inr (?name, 0))"
    by (simp add: make_fifo_pipe_name_def)
  moreover have "le_seed long_env = 0" "pr_pid asker = 300" by (simp_all add: long_env_def asker_def)
  ultimately have "\<exists>r s'. fork2main long_env [''x'', ''cmd''] ''x'' (asked, asker) = Returns r s'"
    by (simp add: fork2main_def Let_def long_env_def split: prod.splits sum.splits)
  then obtain r s' where r: "fork2main long_env [''x'', ''cmd''] ''x'' (asked, asker) = Returns r s'" by blast
  have "86 \<le> length (le_progpath long_env)" by (simp add: long_env_def)
  from long_program_path_fails [OF this r] r show ?thesis by blast
qed

end
