(* ===== verification/ClientMain.thy ===== *)
theory ClientMain
  imports MsgQueue LaunchProgram
begin

text \<open>
  The client side of \<open>spartan.cpp\<close>: the program's start, the reading of its command line, and
  the requests it sends to the launcher and the supervisor. The supervisor itself and the
  echo of a response stream are parameters here. An exception is an \<open>Inl\<close>, which
  \<open>forkable_main_entry\<close> turns into the exit code 1; a call that does not return (a full
  queue) makes the whole \<open>None\<close>. Log messages are left out.
\<close>

section \<open>Commands\<close>

definition STOP_CMD :: string where "STOP_CMD = ''--STOP''"
definition SHUTDOWN_CMD :: string where "SHUTDOWN_CMD = ''--SHUTDOWN''"
definition STATUS_CMD :: string where "STATUS_CMD = ''--STATUS''"
definition CHILD_PID_NOTIFY_CMD :: string where "CHILD_PID_NOTIFY_CMD = ''--CHILD_PID_NOTIFY''"
definition CHILD_PID_COMPLETION_NOTIFY_CMD :: string where
  "CHILD_PID_COMPLETION_NOTIFY_CMD = ''--CHILD_PID_COMPLETION_NOTIFY''"
definition EXTENDED_INVOKE_CMD :: string where "EXTENDED_INVOKE_CMD = ''--EXTENDED_INVOKE''"
definition std_invoke_descriptor :: string where
  "std_invoke_descriptor = ''([Ljava/lang/String;Ljava/io/PrintStream;)V''"
definition react_invoke_descriptor :: string where
  "react_invoke_descriptor = ''([Ljava/lang/String;Ljava/io/PrintStream;Ljava/io/PrintStream;Ljava/io/InputStream;)V''"

lemmas cmd_defs = STOP_CMD_def SHUTDOWN_CMD_def STATUS_CMD_def CHILD_PID_NOTIFY_CMD_def
  CHILD_PID_COMPLETION_NOTIFY_CMD_def EXTENDED_INVOKE_CMD_def

section \<open>Start\<close>

record globals =
  g_progpath :: string
  g_progname :: string
  g_launcher_queue :: string
  g_supervisor_queue :: string

definition one_time_init_main :: "string list \<Rightarrow> globals" where
  \<comment> \<open>the statics set before \<open>forkable_main_entry\<close> is called\<close>
  "one_time_init_main argv =
     (let progpath = hd argv; progname = basename progpath
      in \<lparr>g_progpath = progpath, g_progname = progname,
          g_launcher_queue = get_jlauncher_mq_queue_name progname,
          g_supervisor_queue = get_jsupervisor_mq_queue_name progname\<rparr>)"

section \<open>Reading the command line\<close>

datatype operation = OP_NONE | OP_SERVICE | OP_INVOKED_COMMAND | OP_STATUS | OP_STOP | OP_COMMAND

record scan =
  sc_operation :: operation
  sc_pipe_option :: string
  sc_command :: string

definition srvc_optn :: string where "srvc_optn = ''service''"
definition pipe_optn :: string where "pipe_optn = ''pipe=''"
definition status_cmd :: string where "status_cmd = ''status''"
definition stop_cmd :: string where "stop_cmd = ''stop''"

definition is_pipe_arg :: "string \<Rightarrow> bool" where
  "is_pipe_arg a = (a \<noteq> [] \<and> hd a = CHR ''-'' \<and> strncaseeq (tl a) pipe_optn (length pipe_optn))"

definition scan_arg :: "scan \<Rightarrow> string \<Rightarrow> scan" where
  "scan_arg sc a =
     (if a \<noteq> [] \<and> hd a = CHR ''-'' then
        (let optn = tl a in
         if strcaseeq optn srvc_optn
         then (if sc_operation sc = OP_NONE then sc\<lparr>sc_operation := OP_SERVICE\<rparr> else sc)
         else if strncaseeq optn pipe_optn (length pipe_optn)
         then (if sc_operation sc = OP_NONE then sc\<lparr>sc_operation := OP_INVOKED_COMMAND, sc_pipe_option := a\<rparr> else sc)
         else sc)
      else if strcaseeq a status_cmd
      then (if sc_operation sc = OP_NONE then sc\<lparr>sc_operation := OP_STATUS, sc_command := status_cmd\<rparr> else sc)
      else if strcaseeq a stop_cmd
      then (if sc_operation sc = OP_NONE then sc\<lparr>sc_operation := OP_STOP, sc_command := stop_cmd\<rparr> else sc)
      else if sc_operation sc = OP_NONE then sc\<lparr>sc_operation := OP_COMMAND, sc_command := a\<rparr>
      else if sc_command sc = [] then sc\<lparr>sc_command := a\<rparr>
      else sc)"

definition scan_args :: "string list \<Rightarrow> scan" where
  "scan_args argv = foldl scan_arg \<lparr>sc_operation = OP_NONE, sc_pipe_option = [], sc_command = []\<rparr> (tl argv)"

fun pipe_filter :: "string list \<Rightarrow> string list" where
  \<comment> \<open>the callback that takes the first \<open>-pipe=\<close> option out of the array\<close>
  "pipe_filter [] = []"
| "pipe_filter (a # as) = (if is_pipe_arg a then as else a # pipe_filter as)"

section \<open>Requests\<close>

definition do_msg_fmt :: "nat \<Rightarrow> string \<Rightarrow> string" where
  \<comment> \<open>the \<open>do_msg_fmt\<close> and \<open>do_str_fmt\<close> blocks, for a buffer of the given first size\<close>
  "do_msg_fmt strbuf_size text =
     (let (n, strbuf) = snprintf strbuf_size text in
      if n \<ge> strbuf_size then (let (n, strbuf) = snprintf (n + 1) text in cstr strbuf) else cstr strbuf)"

lemma do_msg_fmt_id [simp]: "is_cstr text \<Longrightarrow> do_msg_fmt sz text = text"
  by (auto simp: do_msg_fmt_def snprintf_def Let_def)

record client_env =
  ce_globals :: globals
  ce_flag :: bool \<comment> \<open>\<open>flag != 0\<close>: signaled to terminate\<close>
  ce_shm :: "string + string" \<comment> \<open>what \<open>read_access\<close> maps, or throws\<close>
  ce_junk :: int \<comment> \<open>the value of the uninitialised locals of the stream operators\<close>
  ce_bind :: "string \<Rightarrow> string + string" \<comment> \<open>\<open>bind_uds_socket_name\<close>\<close>
  ce_echo :: "string \<Rightarrow> int" \<comment> \<open>\<open>stdout_echo_response_stream\<close> on the socket of that name\<close>
  ce_service :: "string + int \<times> int"
    \<comment> \<open>\<open>supervisor\<close>: the exit code its callbacks have set meanwhile, and its result\<close>

definition send_queue_msg :: "client_env \<Rightarrow> string \<Rightarrow> string \<Rightarrow> mq_world \<Rightarrow> (int \<times> mq_world) option" where
  \<comment> \<open>\<open>send_launcher_mq_msg\<close> and \<open>send_supervisor_mq_msg\<close>\<close>
  "send_queue_msg env queue msg w = (if ce_flag env then Some (EXIT_SUCCESS, w) else send_mq_msg msg queue w)"

definition client_status_request :: "client_env \<Rightarrow> string \<Rightarrow> mq_world \<Rightarrow> (int \<times> mq_world) option" where
  "client_status_request env uds_socket_name w =
     (let msg = do_msg_fmt 256 (STATUS_CMD @ '' '' @ uds_socket_name) in
      case send_queue_msg env (g_supervisor_queue (ce_globals env)) msg w of
        None \<Rightarrow> None
      | Some (rtn, w) \<Rightarrow> Some (if rtn = EXIT_SUCCESS then ce_echo env uds_socket_name else rtn, w))"

definition extended_invoke_arg :: "bool \<Rightarrow> string" where
  "extended_invoke_arg is_extended_invoke = EXTENDED_INVOKE_CMD @ (if is_extended_invoke then ''=true'' else ''=false'')"

definition send_flattened_argv_msg ::
  "string list \<Rightarrow> bool \<Rightarrow> string \<Rightarrow> string \<Rightarrow> mq_world \<Rightarrow> (int \<times> mq_world) option" where
  "send_flattened_argv_msg argv is_extended_invoke uds_socket_name queue_name w =
     send_flattened_argv_mq_msg argv (extended_invoke_arg is_extended_invoke) uds_socket_name queue_name pipe_filter w"

section \<open>forkable_main_entry\<close>

record client =
  cl_exit_code :: int
  cl_operation :: operation
  cl_pipe_option :: string
  cl_command :: string
  cl_uds_arg :: string
  cl_level :: logging_level
  cl_world :: mq_world

definition command_queue :: "globals \<Rightarrow> string set \<Rightarrow> string \<Rightarrow> string" where
  "command_queue g cmds_set cmd = (if cmd \<in> cmds_set then g_launcher_queue g else g_supervisor_queue g)"

definition do_command ::
  "client_env \<Rightarrow> string list \<Rightarrow> bool \<Rightarrow> client \<Rightarrow> (string + client) option" where
  \<comment> \<open>the case \<open>OP::COMMAND\<close>\<close>
  "do_command env argv is_extended_invoke cl =
     (let cl = cl\<lparr>cl_command := map tolower (cl_command cl)\<rparr> in
      case ce_shm env of
        Inl e \<Rightarrow> Some (Inl e)
      | Inr mem \<Rightarrow>
          (case get_cmd_dispatch_info (ce_junk env) mem ss_default of
             None \<Rightarrow> None
           | Some (shm_session, strm) \<Rightarrow>
               (let cl = (if spartanLoggingLevel shm_session \<noteq> []
                          then cl\<lparr>cl_level := str_to_level (spartanLoggingLevel shm_session)\<rparr> else cl) in
                case get_child_processor_commands shm_session of
                  Inl Null_string \<Rightarrow> Some (Inl ''std::logic_error'')
                | Inr cmds_set \<Rightarrow>
                    (let queue = command_queue (ce_globals env) cmds_set (cl_command cl) in
                     case (if cl_uds_arg cl = [] then ce_bind env (cl_command cl) else Inr (cl_uds_arg cl)) of
                       Inl e \<Rightarrow> Some (Inl e)
                     | Inr uds_socket_name \<Rightarrow>
                         (case send_flattened_argv_msg argv is_extended_invoke uds_socket_name queue (cl_world cl) of
                            None \<Rightarrow> None
                          | Some (rc, w) \<Rightarrow>
                              Some (Inr (cl\<lparr>cl_world := w, cl_exit_code :=
                                (if rc = EXIT_SUCCESS \<and> cl_uds_arg cl = [] then ce_echo env uds_socket_name else rc)\<rparr>)))))))"

definition client_pass ::
  "client_env \<Rightarrow> string list \<Rightarrow> bool \<Rightarrow> client \<Rightarrow> (string + bool \<times> client) option" where
  \<comment> \<open>one pass through the \<open>switch\<close>, and whether to make another\<close>
  "client_pass env argv is_extended_invoke cl =
     (case cl_operation cl of
        OP_SERVICE \<Rightarrow>
          Some (case ce_service env of
                  Inl e \<Rightarrow> Inl e
                | Inr (code, rtn_code) \<Rightarrow> Inr (False, cl\<lparr>cl_exit_code := (if code = 0 then rtn_code else code)\<rparr>))
      | OP_INVOKED_COMMAND \<Rightarrow>
          Some (Inr (if cl_command cl = [] then (False, cl\<lparr>cl_exit_code := 1\<rparr>)
                     else (True, cl\<lparr>cl_uds_arg := drop 1 (dropWhile (\<lambda>c. c \<noteq> CHR ''='') (cl_pipe_option cl)),
                                    cl_operation := OP_COMMAND\<rparr>)))
      | OP_STATUS \<Rightarrow>
          (case ce_bind env (cl_command cl) of
             Inl e \<Rightarrow> Some (Inl e)
           | Inr uds_socket_name \<Rightarrow>
               map_option (\<lambda>(rc, w). Inr (False, cl\<lparr>cl_exit_code := rc, cl_world := w\<rparr>))
                 (client_status_request env uds_socket_name (cl_world cl)))
      | OP_STOP \<Rightarrow>
          map_option (\<lambda>(rc, w). Inr (False, cl\<lparr>cl_exit_code := rc, cl_world := w\<rparr>))
            (send_queue_msg env (g_launcher_queue (ce_globals env)) STOP_CMD (cl_world cl))
      | OP_COMMAND \<Rightarrow> map_option (map_sum id (Pair False)) (do_command env argv is_extended_invoke cl)
      | OP_NONE \<Rightarrow> Some (Inr (False, cl\<lparr>cl_exit_code := 1\<rparr>)))"

lemma map_sum_Inr: "map_sum f g x = Inr y \<longleftrightarrow> (\<exists>z. x = Inr z \<and> y = g z)"
  by (cases x) auto

function client_loop ::
  "client_env \<Rightarrow> string list \<Rightarrow> bool \<Rightarrow> client \<Rightarrow> (int \<times> mq_world) option" where
  \<comment> \<open>\<open>do ... while(do_loop)\<close> inside the \<open>try\<close>: the exit code and the queues\<close>
  "client_loop env argv is_extended_invoke cl =
     (case client_pass env argv is_extended_invoke cl of
        None \<Rightarrow> None
      | Some (Inl e) \<Rightarrow> Some (1, cl_world cl)
      | Some (Inr (do_loop, cl)) \<Rightarrow>
          (if do_loop then client_loop env argv is_extended_invoke cl else Some (cl_exit_code cl, cl_world cl)))"
  by pat_completeness auto
termination
  by (relation "measure (\<lambda>(env, argv, ext, cl). if cl_operation cl = OP_INVOKED_COMMAND then 1 else 0)")
     (auto simp: client_pass_def map_sum_Inr split: operation.splits if_splits sum.splits)

declare client_loop.simps [simp del]

definition forkable_main_entry ::
  "client_env \<Rightarrow> string list \<Rightarrow> bool \<Rightarrow> logging_level \<Rightarrow> mq_world \<Rightarrow> (int \<times> mq_world) option" where
  "forkable_main_entry env argv is_extended_invoke level w =
     (if length argv > 1 then
        (let sc = scan_args argv in
         client_loop env argv is_extended_invoke
           \<lparr>cl_exit_code = EXIT_SUCCESS, cl_operation = sc_operation sc, cl_pipe_option = sc_pipe_option sc,
            cl_command = sc_command sc, cl_uds_arg = [], cl_level = level, cl_world = w\<rparr>)
      else Some (1, w))"

section \<open>The first recognised argument decides\<close>

definition arg_operation :: "string \<Rightarrow> operation" where
  \<comment> \<open>the operation an argument asks for on its own\<close>
  "arg_operation a =
     (if a \<noteq> [] \<and> hd a = CHR ''-'' then
        (if strcaseeq (tl a) srvc_optn then OP_SERVICE else if is_pipe_arg a then OP_INVOKED_COMMAND else OP_NONE)
      else if strcaseeq a status_cmd then OP_STATUS else if strcaseeq a stop_cmd then OP_STOP else OP_COMMAND)"

definition first_recognised :: "string list \<Rightarrow> string option" where
  "first_recognised as = find (\<lambda>a. arg_operation a \<noteq> OP_NONE) as"

definition plain_arg :: "string \<Rightarrow> bool" where
  "plain_arg a = (arg_operation a = OP_COMMAND)"

lemma scan_arg_set:
  "sc_operation sc = OP_NONE \<Longrightarrow> scan_arg sc a =
     (case arg_operation a of
        OP_NONE \<Rightarrow> sc
      | OP_SERVICE \<Rightarrow> sc\<lparr>sc_operation := OP_SERVICE\<rparr>
      | OP_INVOKED_COMMAND \<Rightarrow> sc\<lparr>sc_operation := OP_INVOKED_COMMAND, sc_pipe_option := a\<rparr>
      | OP_STATUS \<Rightarrow> sc\<lparr>sc_operation := OP_STATUS, sc_command := status_cmd\<rparr>
      | OP_STOP \<Rightarrow> sc\<lparr>sc_operation := OP_STOP, sc_command := stop_cmd\<rparr>
      | OP_COMMAND \<Rightarrow> sc\<lparr>sc_operation := OP_COMMAND, sc_command := a\<rparr>)"
  by (simp add: scan_arg_def arg_operation_def is_pipe_arg_def Let_def)

lemma scan_arg_later:
  "sc_operation sc \<noteq> OP_NONE \<Longrightarrow> scan_arg sc a =
     (if plain_arg a \<and> sc_command sc = [] then sc\<lparr>sc_command := a\<rparr> else sc)"
  by (simp add: scan_arg_def arg_operation_def plain_arg_def is_pipe_arg_def Let_def)

lemma scan_later:
  "sc_operation sc \<noteq> OP_NONE \<Longrightarrow> foldl scan_arg sc as =
     (if sc_command sc = [] then (case find (\<lambda>a. plain_arg a \<and> a \<noteq> []) as of None \<Rightarrow> sc | Some a \<Rightarrow> sc\<lparr>sc_command := a\<rparr>)
      else sc)"
proof (induction as arbitrary: sc)
  case Nil
  then show ?case by simp
next
  case (Cons a as)
  then show ?case
    by (cases "sc_command sc = []"; cases "plain_arg a"; cases "a = []") (auto simp: scan_arg_later split: option.splits)
qed

lemma scan_none:
  "sc_operation sc = OP_NONE \<Longrightarrow> list_all (\<lambda>a. arg_operation a = OP_NONE) as \<Longrightarrow> foldl scan_arg sc as = sc"
  by (induction as) (auto simp: scan_arg_set)

lemma scan_split:
  "list_all (\<lambda>a. arg_operation a = OP_NONE) as \<Longrightarrow>
   scan_args (p # as @ a # bs) =
     foldl scan_arg (scan_arg \<lparr>sc_operation = OP_NONE, sc_pipe_option = [], sc_command = []\<rparr> a) bs"
  by (simp add: scan_args_def scan_none)

lemma scan_args_eq:
  "scan_args (prog # args) =
     (case dropWhile (\<lambda>a. arg_operation a = OP_NONE) args of
        [] \<Rightarrow> \<lparr>sc_operation = OP_NONE, sc_pipe_option = [], sc_command = []\<rparr>
      | a # rest \<Rightarrow>
          \<lparr>sc_operation = arg_operation a,
           sc_pipe_option = (if arg_operation a = OP_INVOKED_COMMAND then a else []),
           sc_command = (if arg_operation a = OP_STATUS then status_cmd
                         else if arg_operation a = OP_STOP then stop_cmd
                         else if arg_operation a = OP_COMMAND \<and> a \<noteq> [] then a
                         else (case find (\<lambda>b. plain_arg b \<and> b \<noteq> []) rest of None \<Rightarrow> [] | Some b \<Rightarrow> b))\<rparr>)"
proof (cases "dropWhile (\<lambda>a. arg_operation a = OP_NONE) args")
  case Nil
  then have "list_all (\<lambda>a. arg_operation a = OP_NONE) args" by (simp add: dropWhile_eq_Nil_conv list_all_iff)
  then show ?thesis unfolding Nil list.case by (simp add: scan_args_def scan_none)
next
  case (Cons a rest)
  let ?pre = "takeWhile (\<lambda>a. arg_operation a = OP_NONE) args"
  have args: "args = ?pre @ a # rest" using Cons by (metis takeWhile_dropWhile_id)
  have pre: "list_all (\<lambda>a. arg_operation a = OP_NONE) ?pre" by (auto simp: list_all_iff dest: set_takeWhileD)
  have a: "arg_operation a \<noteq> OP_NONE" using Cons hd_dropWhile [of "\<lambda>a. arg_operation a = OP_NONE" args] by simp
  have ne: "status_cmd \<noteq> []" "stop_cmd \<noteq> []" by (simp_all add: status_cmd_def stop_cmd_def)
  have "scan_args (prog # args) = foldl scan_arg (scan_arg \<lparr>sc_operation = OP_NONE, sc_pipe_option = [], sc_command = []\<rparr> a) rest"
    using scan_split [OF pre, of prog a rest] args by simp
  then show ?thesis using a ne unfolding Cons list.case
    by (cases "arg_operation a") (auto simp: scan_arg_set scan_later split: option.splits)
qed

text \<open>
  The first argument that is an operation, a command or one of the known options decides what
  the program does, and unknown options are passed over; for a service or an invocation the
  command is the first plain argument after it.
\<close>

theorem scan_first_recognised:
  "scan_args (prog # args) =
     (case dropWhile (\<lambda>a. arg_operation a = OP_NONE) args of
        [] \<Rightarrow> \<lparr>sc_operation = OP_NONE, sc_pipe_option = [], sc_command = []\<rparr>
      | a # rest \<Rightarrow>
          \<lparr>sc_operation = arg_operation a,
           sc_pipe_option = (if arg_operation a = OP_INVOKED_COMMAND then a else []),
           sc_command = (if arg_operation a = OP_STATUS then status_cmd
                         else if arg_operation a = OP_STOP then stop_cmd
                         else if arg_operation a = OP_COMMAND \<and> a \<noteq> [] then a
                         else (case find (\<lambda>b. plain_arg b \<and> b \<noteq> []) rest of None \<Rightarrow> [] | Some b \<Rightarrow> b))\<rparr>)"
  by (rule scan_args_eq)

section \<open>What a client sends\<close>

definition sent_at_most_one :: "mq_world \<Rightarrow> mq_world \<Rightarrow> bool" where
  "sent_at_most_one w w' =
     (w' = w \<or> (\<exists>n q m. mq_named w n = Some q \<and> length m \<le> mq_msgsize q \<and>
        w' = w\<lparr>mq_named := (mq_named w)(n \<mapsto> q\<lparr>mq_msgs := mq_msgs q @ [m]\<rparr>)\<rparr>))"

lemma sent_refl [simp]: "sent_at_most_one w w"
  by (simp add: sent_at_most_one_def)

definition queue_full :: "mq_world \<Rightarrow> bool" where
  "queue_full w = (\<exists>n q. mq_named w n = Some q \<and> mq_maxmsg q \<le> length (mq_msgs q))"

definition ends :: "mq_world \<Rightarrow> (int \<times> mq_world) option \<Rightarrow> bool" where
  \<comment> \<open>what a request does to the queues, or why it does not return\<close>
  "ends w r = (case r of Some (rc, w') \<Rightarrow> sent_at_most_one w w' | None \<Rightarrow> queue_full w)"

lemma ends_simps [simp]: "ends w (Some (rc, w')) = sent_at_most_one w w'" "ends w None = queue_full w"
  by (simp_all add: ends_def)

lemma send_mq_msg_ends: "ends w (send_mq_msg m n w)"
  by (auto simp: ends_def send_mq_msg_eq sent_at_most_one_def queue_full_def not_less split: option.splits)

lemma send_queue_msg_ends: "ends w (send_queue_msg env n m w)"
  by (simp add: send_queue_msg_def send_mq_msg_ends)

lemma client_status_ends: "ends w (client_status_request env n w)"
  using send_queue_msg_ends [of w env "g_supervisor_queue (ce_globals env)" "do_msg_fmt 256 (STATUS_CMD @ '' '' @ n)"]
  by (auto simp: client_status_request_def Let_def split: option.splits)

lemma flatten_ne: "buf \<noteq> [] \<Longrightarrow> foldl flatten_step buf nas \<noteq> []"
  by (induction nas arbitrary: buf) (auto simp: flatten_step_def split: prod.splits)

lemma flatten_args_some: "c \<noteq> [] \<Longrightarrow> \<exists>b. flatten_args c u (c # a # as) = Some b"
  by (auto simp: flatten_args_def argv_sizes_def flatten_step_def Let_def intro!: flatten_ne)

lemma pipe_filter_length: "length as \<le> Suc (length (pipe_filter as))"
  by (induction as) auto

lemma flattened_ends:
  assumes "2 \<le> length argv"
  shows "ends w (send_flattened_argv_msg argv ext u q w)"
proof -
  let ?c = "extended_invoke_arg ext"
  have c: "?c \<noteq> []" "\<not> is_pipe_arg ?c"
    by (auto simp: extended_invoke_arg_def EXTENDED_INVOKE_CMD_def is_pipe_arg_def pipe_optn_def strncaseeq_def
        strcaseeq_def tolower_def)
  have "Suc 0 \<le> length (pipe_filter (u # tl argv))"
    using pipe_filter_length [of "u # tl argv"] assms by simp
  then obtain a as where "pipe_filter (u # tl argv) = a # as" by (cases "pipe_filter (u # tl argv)") auto
  then have "pipe_filter (argv_dup ?c u argv) = ?c # a # as" using c by (simp add: argv_dup_def)
  moreover obtain b where "flatten_args ?c u (?c # a # as) = Some b" using flatten_args_some [OF c(1)] by blast
  ultimately show ?thesis
    by (simp add: send_flattened_argv_msg_def send_flattened_argv_mq_msg_def send_mq_msg_ends)
qed

definition bad_shm :: "client_env \<Rightarrow> bool" where
  \<comment> \<open>the sizes stored in the shared memory lead outside it\<close>
  "bad_shm env = (\<exists>mem. ce_shm env = Inr mem \<and> get_cmd_dispatch_info (ce_junk env) mem ss_default = None)"

lemma do_command_ends:
  assumes "2 \<le> length argv" and "do_command env argv ext cl = r"
  shows "(r = None \<longrightarrow> queue_full (cl_world cl) \<or> bad_shm env) \<and>
     (\<forall>cl'. r = Some (Inr cl') \<longrightarrow> sent_at_most_one (cl_world cl) (cl_world cl'))"
proof -
  have e: "send_flattened_argv_msg argv ext u q (cl_world cl) = None \<Longrightarrow> queue_full (cl_world cl)"
    "send_flattened_argv_msg argv ext u q (cl_world cl) = Some (rc, w') \<Longrightarrow> sent_at_most_one (cl_world cl) w'" for u q rc w'
    using flattened_ends [OF assms(1), of "cl_world cl" ext u q] by simp_all
  show ?thesis
    unfolding assms(2) [symmetric]
    by (auto simp: do_command_def bad_shm_def Let_def split: option.splits sum.splits cmds_error.splits if_splits
        dest!: e)
qed

lemma client_pass_ends:
  assumes "2 \<le> length argv"
  shows "case client_pass env argv ext cl of
     None \<Rightarrow> queue_full (cl_world cl) \<or> bad_shm env
   | Some (Inl e) \<Rightarrow> True
   | Some (Inr (again, cl')) \<Rightarrow> if again then cl_world cl' = cl_world cl else sent_at_most_one (cl_world cl) (cl_world cl')"
proof (cases "cl_operation cl")
  case OP_STATUS
  have "ends (cl_world cl) (client_status_request env n (cl_world cl))" for n by (rule client_status_ends)
  from this [of "projr (ce_bind env (cl_command cl))"] OP_STATUS show ?thesis
    by (cases "ce_bind env (cl_command cl)")
       (auto simp: client_pass_def ends_def split: option.splits)
next
  case OP_STOP
  with send_queue_msg_ends [of "cl_world cl" env "g_launcher_queue (ce_globals env)" STOP_CMD] show ?thesis
    by (auto simp: client_pass_def ends_def split: option.splits)
next
  case OP_COMMAND
  note e = do_command_ends [OF assms refl, of env ext cl]
  show ?thesis
  proof (cases "do_command env argv ext cl")
    case None
    with e OP_COMMAND show ?thesis by (simp add: client_pass_def)
  next
    case (Some x)
    with e OP_COMMAND show ?thesis by (cases x) (simp_all add: client_pass_def)
  qed
qed (auto simp: client_pass_def split: sum.splits)

lemma client_loop_ends:
  assumes "2 \<le> length argv"
  shows "case client_loop env argv ext cl of
     None \<Rightarrow> queue_full (cl_world cl) \<or> bad_shm env | Some (rc, w') \<Rightarrow> sent_at_most_one (cl_world cl) w'"
  using assms
proof (induction env argv ext cl rule: client_loop.induct)
  case (1 env argv ext cl)
  note pass = client_pass_ends [OF "1.prems", where env = env and ext = ext and cl = cl]
  show ?case
  proof (cases "\<exists>cl1. client_pass env argv ext cl = Some (Inr (True, cl1))")
    case True
    then obtain cl1 where c: "client_pass env argv ext cl = Some (Inr (True, cl1))" by blast
    from "1.IH" [OF c refl refl] "1.prems" pass show ?thesis
      by (simp add: client_loop.simps [of env argv ext cl] c split: option.splits prod.splits)
  next
    case False
    with pass show ?thesis
      by (simp add: client_loop.simps [of env argv ext cl] split: option.splits sum.splits prod.splits bool.splits)
  qed
qed


section \<open>An invocation becomes a message\<close>

lemma tolower_lower [simp]: "tolower CHR ''p'' = CHR ''p''" "tolower CHR ''i'' = CHR ''i''" "tolower CHR ''e'' = CHR ''e''"
  "tolower CHR ''='' = CHR ''=''" "tolower CHR ''s'' = CHR ''s''"
  by (simp_all add: tolower_def)

lemma pipe_arg_operation [simp]: "is_pipe_arg (''-pipe='' @ u)" "arg_operation (''-pipe='' @ u) = OP_INVOKED_COMMAND"
  by (simp_all add: is_pipe_arg_def arg_operation_def pipe_optn_def srvc_optn_def strncaseeq_def strcaseeq_def)

lemma extended_invoke_arg_ok: "extended_invoke_arg ext \<noteq> []" "\<not> is_pipe_arg (extended_invoke_arg ext)"
  by (auto simp: extended_invoke_arg_def EXTENDED_INVOKE_CMD_def is_pipe_arg_def pipe_optn_def strncaseeq_def
      strcaseeq_def tolower_def)

lemma send_flattened_eq:
  assumes "pipe_filter (uds # args) = uds # args'"
  shows "send_flattened_argv_msg (p # args) ext uds q w =
     send_mq_msg (unwords (map quoted (filter (\<lambda>a. a \<noteq> []) (extended_invoke_arg ext # uds # args')))) q w"
proof -
  have "pipe_filter (argv_dup (extended_invoke_arg ext) uds (p # args)) = extended_invoke_arg ext # uds # args'"
    using assms extended_invoke_arg_ok [of ext] by (simp add: argv_dup_def)
  then show ?thesis
    using flatten_args_eq [OF extended_invoke_arg_ok(1) [of ext], of uds args']
    by (simp add: send_flattened_argv_msg_def send_flattened_argv_mq_msg_def)
qed

lemma invoked_command_sends:
  assumes "is_cstr uds" and "uds \<noteq> []" and "\<not> is_pipe_arg uds"
    and "ce_shm env = Inr mem" and "get_cmd_dispatch_info (ce_junk env) mem ss_default = Some (ss, strm)"
    and "get_child_processor_commands ss = Inr cmds" and "find (\<lambda>a. plain_arg a \<and> a \<noteq> []) args = Some c"
  shows "forkable_main_entry env (fork2main_argv prog_path uds (prog # args)) ext level w =
     send_mq_msg (unwords (map quoted (filter (\<lambda>a. a \<noteq> []) (extended_invoke_arg ext # uds # args))))
       (command_queue (ce_globals env) cmds (map tolower c)) w"
proof -
  have argv: "fork2main_argv prog_path uds (prog # args) = prog_path # (''-pipe='' @ uds) # args"
    using assms(1) by (simp add: fork2main_argv_def pipe_optn_arg_def format2str_def vformat2str_id is_cstr_def)
  have c: "c \<noteq> []" using assms(7) by (auto simp: find_Some_iff)
  have scan: "scan_args (prog_path # (''-pipe='' @ uds) # args) =
      \<lparr>sc_operation = OP_INVOKED_COMMAND, sc_pipe_option = ''-pipe='' @ uds, sc_command = c\<rparr>"
    unfolding scan_args_eq using assms(7) pipe_arg_operation(2) [of uds] by (simp del: pipe_arg_operation append_Cons)
  have f: "pipe_filter (uds # (''-pipe='' @ uds) # args) = uds # args"
    using assms(3) pipe_arg_operation(1) [of uds] by (simp del: pipe_arg_operation append_Cons)
  show ?thesis
    unfolding argv forkable_main_entry_def scan Let_def
    using assms(2,4,5,6) c send_flattened_eq [OF f, of prog_path ext]
    by (simp add: client_loop.simps client_pass_def do_command_def Let_def map_sum_Inr split: option.splits)
qed

text \<open>
  The client that Java's \<open>invokeCommand\<close> forks sends the command line, each argument in quotes
  and empty ones left out, behind the kind of invocation and the name of the caller's socket
  and without the \<open>-pipe=\<close> option, to the launcher for a child command and to the supervisor
  for any other; the command is the first argument that is neither an option nor a request for
  the status or a stop. Its exit code is that of the sending.
\<close>

theorem invoked_command_message:
  assumes "is_cstr uds" and "uds \<noteq> []" and "\<not> is_pipe_arg uds"
    and "ce_shm env = Inr mem" and "get_cmd_dispatch_info (ce_junk env) mem ss_default = Some (ss, strm)"
    and "get_child_processor_commands ss = Inr cmds" and "find (\<lambda>a. plain_arg a \<and> a \<noteq> []) args = Some c"
  shows "forkable_main_entry env (fork2main_argv prog_path uds (prog # args)) ext level w =
     send_mq_msg (unwords (map quoted (filter (\<lambda>a. a \<noteq> []) (extended_invoke_arg ext # uds # args))))
       (command_queue (ce_globals env) cmds (map tolower c)) w"
  by (rule invoked_command_sends [OF assms])

definition example_client :: client_env where
  "example_client = \<lparr>ce_globals = one_time_init_main [''/opt/p''], ce_flag = False, ce_shm = Inr example_region, ce_junk = 0,
     ce_bind = (\<lambda>c. Inl ''bind_uds_socket_name''), ce_echo = (\<lambda>u. 1), ce_service = Inl ''sessionState''\<rparr>"

lemma example_commands: "get_child_processor_commands (ss_read example_shared ss_default) = Inr {''genetic''}"
proof -
  let ?s = "ss_read example_shared ss_default"
  have 1: "spartanChildProcessorCommands ?s = []" by code_simp
  have 2: "map_option (map (\<lambda>md. map tolower (cstr (command md)))) (spSpartanChildProcessorCommands ?s) = Some [''genetic'']"
    by code_simp
  then obtain v where v: "spSpartanChildProcessorCommands ?s = Some v"
    and t: "map (\<lambda>md. map tolower (cstr (command md))) v = [''genetic'']" by auto
  show ?thesis unfolding get_child_processor_commands_def 1 v option.case t by (simp only: if_True list.set Let_def simp_thms)
qed

theorem invoked_command_message_witness:
  "forkable_main_entry example_client (fork2main_argv ''/opt/p'' ''/tmp/u'' [''p'', ''-x'', ''GENETIC'', ''7'']) True INFO two_queues =
     send_mq_msg (unwords [quoted ''--EXTENDED_INVOKE=true'', quoted ''/tmp/u'', quoted ''-x'', quoted ''GENETIC'', quoted ''7''])
       ''/p_JLauncher'' two_queues"
proof -
  have f: "find (\<lambda>a. plain_arg a \<and> a \<noteq> []) [''-x'', ''GENETIC'', ''7''] = Some ''GENETIC''" by code_simp
  have u: "is_cstr ''/tmp/u''" "''/tmp/u'' \<noteq> []" "\<not> is_pipe_arg ''/tmp/u''"
    by (simp_all add: is_cstr_def is_pipe_arg_def)
  have e: "ce_shm example_client = Inr example_region" "ce_junk example_client = 0" by (simp_all add: example_client_def)
  have g: "ce_globals example_client = one_time_init_main [''/opt/p'']" by (simp add: example_client_def)
  have "command_queue (one_time_init_main [''/opt/p'']) {''genetic''} (map tolower ''GENETIC'') = ''/p_JLauncher''"
    by code_simp
  then have q: "command_queue (ce_globals example_client) {''genetic''} (map tolower ''GENETIC'') = ''/p_JLauncher''"
    unfolding g .
  have m: "map quoted (filter (\<lambda>a. a \<noteq> []) (extended_invoke_arg True # ''/tmp/u'' # [''-x'', ''GENETIC'', ''7''])) =
      [quoted ''--EXTENDED_INVOKE=true'', quoted ''/tmp/u'', quoted ''-x'', quoted ''GENETIC'', quoted ''7'']" by code_simp
  show ?thesis
    by (rule invoked_command_message [OF u e(1) example_region_read [of "ce_junk example_client"] example_commands f,
          of "''/opt/p''" "''p''" True INFO two_queues, unfolded q m])
qed

end
