(* ===== verification/InvokeJava.thy ===== *)
theory InvokeJava
  imports ClientMain "HOL-Library.Multiset"
begin

text \<open>
  \<open>invoke_java_method\<close> of \<open>spartan.cpp\<close>: how an entry point of the session state becomes a call
  into the JVM. The answers of the JNI functions are a parameter, and the calls made are
  recorded. \<open>throw n\<close> carries the values \<open>class_name\<close> and \<open>method_name\<close> have at that point, for
  the error message; of the messages only those logged as errors by the function itself are
  kept, not those of \<open>jni_detach_thread\<close>. The descriptors in \<open>fds_array\<close> are closed when the function returns, except
  those a Java stream took over. The Java calls that set the class loader of the thread are
  taken not to raise.
\<close>

section \<open>The JVM as the code sees it\<close>

datatype jarg =
    Jargs "string list option" \<comment> \<open>the array of arguments, or null\<close>
  | Jprint_stream nat
  | Jinput_stream nat
  | Jint int
  | Jlevel logging_level
  | Jstring string
  | Jmethod string string

datatype java_call =
    Static_call string string string "jarg list" \<comment> \<open>class, method, descriptor, arguments\<close>
  | Instance_call string string string string "jarg list" \<comment> \<open>the class of the object first\<close>

record jni_env =
  jn_attach :: bool
  jn_detach :: bool
  jn_class :: "string \<Rightarrow> bool" \<comment> \<open>FindClass\<close>
  jn_method :: "bool \<Rightarrow> string \<Rightarrow> string \<Rightarrow> string \<Rightarrow> bool" \<comment> \<open>GetStaticMethodID when true, GetMethodID otherwise\<close>
  jn_field :: bool \<comment> \<open>the field \<open>fd\<close> of a FileDescriptor\<close>
  jn_new :: "string \<Rightarrow> bool" \<comment> \<open>NewObject, NewObjectArray, NewStringUTF\<close>
  jn_reflect :: "string \<Rightarrow> string \<Rightarrow> bool"
  jn_raises :: "java_call \<Rightarrow> bool"
  jn_describe :: string \<comment> \<open>what \<open>ExceptionDescribe\<close> prints\<close>
  jn_dispatch :: "java_call \<Rightarrow> string \<times> string list \<times> dispatch_info" \<comment> \<open>the serialized answer and what it holds\<close>
  jn_pg_size :: nat
  jn_progname :: string
  jn_level :: logging_level
  jn_pid :: int
  jn_parent_pid :: int

record jstate =
  js_obj :: "string option" \<comment> \<open>the class of the object in \<open>atomicSpartanObj\<close>\<close>
  js_calls :: "java_call list"
  js_fds :: "nat option list" \<comment> \<open>\<open>fds_array\<close>\<close>
  js_passed :: "nat list" \<comment> \<open>descriptors that Java streams own\<close>
  js_closed :: "nat list"
  js_shm :: "string option" \<comment> \<open>the region \<open>s_shm_allocator_sp\<close> holds\<close>
  js_errors :: "string list" \<comment> \<open>messages logged at level ERR\<close>

datatype jthrow = Throw_int int string string | Throw_other | Null_deref

type_synonym 'a jact = "jstate \<Rightarrow> (jthrow + 'a) \<times> jstate"

definition jreturn :: "'a \<Rightarrow> 'a jact" where
  "jreturn a st = (Inr a, st)"

definition jthrow :: "jthrow \<Rightarrow> 'a jact" where
  "jthrow e st = (Inl e, st)"

fun jrequire :: "(bool \<times> jthrow) list \<Rightarrow> unit jact" where
  \<comment> \<open>lookups in order; the first that answers null throws\<close>
  "jrequire [] st = (Inr (), st)"
| "jrequire ((ok, e) # xs) st = (if ok then jrequire xs st else (Inl e, st))"

definition jcall :: "jni_env \<Rightarrow> java_call \<Rightarrow> bool jact" where
  \<comment> \<open>the result is \<open>ExceptionCheck\<close>\<close>
  "jcall env c st = (Inr (jn_raises env c), st\<lparr>js_calls := js_calls st @ [c]\<rparr>)"

section \<open>The steps of invoke_java_method\<close>

definition ctor_name :: string where "ctor_name = ''<init>''"

definition split_method :: "string \<Rightarrow> (string \<times> string) jact" where
  \<comment> \<open>class and method; no name after the last slash is an error\<close>
  "split_method stfbuf =
     (case strrsplit (CHR ''/'') stfbuf of
        None \<Rightarrow> jthrow (Throw_int 1 stfbuf [])
      | Some (cls, str) \<Rightarrow> if str = [] then jthrow (Throw_int 1 stfbuf []) else jreturn (cls, str))"

definition make_jargs :: "jni_env \<Rightarrow> string \<Rightarrow> string \<Rightarrow> string list option \<Rightarrow> string list option jact" where
  "make_jargs env cls meth argv =
     (case argv of
        None \<Rightarrow> jreturn None
      | Some av \<Rightarrow>
          bind_s (jrequire [(jn_new env ''[Ljava/lang/String;'', Throw_int 2 cls meth)]) (\<lambda>_. jreturn (Some (tl av))))"

definition entry_lookups :: "jni_env \<Rightarrow> bool \<Rightarrow> string \<Rightarrow> string \<Rightarrow> string \<Rightarrow> (bool \<times> jthrow) list" where
  "entry_lookups env invokeAsStatic cls meth desc =
     [(jn_class env cls, Throw_int 3 cls meth), (jn_method env invokeAsStatic cls meth desc, Throw_int 4 cls meth)]"

definition spartan_object :: "jni_env \<Rightarrow> bool \<Rightarrow> string \<Rightarrow> string \<Rightarrow> string option jact" where
  \<comment> \<open>the singleton every instance method is called on\<close>
  "spartan_object env invokeAsStatic cls meth =
     (if invokeAsStatic then jreturn None
      else (\<lambda>st. case js_obj st of
              Some obj \<Rightarrow> (Inr (Some obj), st)
            | None \<Rightarrow>
                bind_s (jrequire [(jn_method env False cls ctor_name ''()V'', Throw_int 4 cls ctor_name),
                                  (jn_new env cls, Throw_int 5 cls meth)])
                  (\<lambda>_ st. (Inr (Some cls), st\<lparr>js_obj := Some cls\<rparr>)) st))"

definition class_loader_lookups :: "jni_env \<Rightarrow> string \<Rightarrow> (bool \<times> jthrow) list" where
  "class_loader_lookups env meth =
     (let ldr = ''java/lang/ClassLoader''; thrd = ''java/lang/Thread'' in
      [(jn_class env ldr, Throw_int 3 ldr meth),
       (jn_method env True ldr ''getSystemClassLoader'' ''()Ljava/lang/ClassLoader;'', Throw_int 4 ldr ''getSystemClassLoader''),
       (jn_class env thrd, Throw_int 3 thrd ''getSystemClassLoader''),
       (jn_method env True thrd ''currentThread'' ''()Ljava/lang/Thread;'', Throw_int 4 thrd ''currentThread''),
       (jn_method env False thrd ''setContextClassLoader'' ''(Ljava/lang/ClassLoader;)V'',
        Throw_int 4 thrd ''setContextClassLoader'')])"

subsection \<open>Streams\<close>

definition fdesc_lookups :: "jni_env \<Rightarrow> string \<Rightarrow> string \<Rightarrow> (bool \<times> jthrow) list" where
  "fdesc_lookups env cls meth =
     (let c = ''java/io/FileDescriptor'' in
      [(jn_class env c, Throw_int 3 c meth), (jn_method env False c ctor_name ''()V'', Throw_int 4 c ctor_name),
       (jn_new env c, Throw_int 5 c meth), (jn_field env, Throw_int (- 1) cls meth)])"

definition print_stream_lookups :: "jni_env \<Rightarrow> string \<Rightarrow> (bool \<times> jthrow) list" where
  "print_stream_lookups env meth =
     (let p = ''java/io/PrintStream''; f = ''java/io/FileOutputStream'' in
      [(jn_class env p, Throw_int 3 p meth),
       (jn_method env False p ctor_name ''(Ljava/io/OutputStream;)V'', Throw_int 4 p ctor_name),
       (jn_class env f, Throw_int 3 f meth),
       (jn_method env False f ctor_name ''(Ljava/io/FileDescriptor;)V'', Throw_int 4 f ctor_name),
       (jn_new env f, Throw_int 5 f meth), (jn_new env p, Throw_int 5 p meth)])"

definition input_stream_lookups :: "jni_env \<Rightarrow> string \<Rightarrow> (bool \<times> jthrow) list" where
  "input_stream_lookups env meth =
     (let f = ''java/io/FileInputStream'' in
      [(jn_class env f, Throw_int 3 f meth),
       (jn_method env False f ctor_name ''(Ljava/io/FileDescriptor;)V'', Throw_int 4 f ctor_name),
       (jn_new env f, Throw_int 5 f meth)])"

definition open_stream :: "(bool \<times> jthrow) list \<Rightarrow> nat \<Rightarrow> nat jact" where
  \<comment> \<open>a stream over \<open>fds_array[i]\<close>, which then gives the descriptor up\<close>
  "open_stream lookups i st =
     (case js_fds st ! i of
        None \<Rightarrow> (Inl Null_deref, st)
      | Some fd \<Rightarrow>
          bind_s (jrequire lookups)
            (\<lambda>_ st. (Inr fd, st\<lparr>js_fds := (js_fds st)[i := None], js_passed := js_passed st @ [fd]\<rparr>)) st)"

definition make_printstream :: "jni_env \<Rightarrow> string \<Rightarrow> string \<Rightarrow> nat \<Rightarrow> nat jact" where
  "make_printstream env cls meth = open_stream (fdesc_lookups env cls meth @ print_stream_lookups env meth)"

definition make_inputstream :: "jni_env \<Rightarrow> string \<Rightarrow> string \<Rightarrow> nat \<Rightarrow> nat jact" where
  "make_inputstream env cls meth = open_stream (fdesc_lookups env cls meth @ input_stream_lookups env meth)"

subsection \<open>Calls\<close>

definition command_call ::
  "jni_env \<Rightarrow> string \<Rightarrow> string \<Rightarrow> string \<Rightarrow> (jarg list \<Rightarrow> java_call) \<Rightarrow> string list option \<Rightarrow> nat \<Rightarrow> bool jact" where
  \<comment> \<open>one response stream, or the three of a reactive invocation\<close>
  "command_call env desc cls meth call jargs rsp st =
     (let is_extended_invoke = (js_fds st ! 1 \<noteq> None \<and> js_fds st ! 2 \<noteq> None \<and> desc = react_invoke_descriptor) in
      if \<not> is_extended_invoke then
        bind_s (jrequire [(desc = std_invoke_descriptor, Throw_int 6 cls meth)])
          (\<lambda>_. jcall env (call [Jargs jargs, Jprint_stream rsp])) st
      else
        bind_s (make_printstream env cls meth 1) (\<lambda>err.
        bind_s (make_inputstream env cls meth 2) (\<lambda>inp.
          jcall env (call [Jargs jargs, Jprint_stream rsp, Jprint_stream err, Jinput_stream inp]))) st)"

definition on_object :: "string option \<Rightarrow> (string \<Rightarrow> bool jact) \<Rightarrow> bool jact" where
  "on_object obj f = (case obj of None \<Rightarrow> jthrow Null_deref | Some c \<Rightarrow> f c)"

definition describe_exception :: "jni_env \<Rightarrow> method_descriptor \<Rightarrow> bool \<Rightarrow> jstate \<Rightarrow> jstate" where
  "describe_exception env md raised st =
     (if raised then st\<lparr>js_errors := js_errors st @ [''process '' @ show_int (jn_pid env) @ '' Java method '' @ fullMethodName md @
        ''() threw exception:'' @ NL # jn_describe env]\<rparr> else st)"

definition stream_call ::
  "jni_env \<Rightarrow> method_descriptor \<Rightarrow> string \<Rightarrow> string \<Rightarrow> string list option \<Rightarrow> string option \<Rightarrow> bool jact" where
  \<comment> \<open>an exception of an instance method is described, which clears it\<close>
  "stream_call env md cls meth jargs obj =
     bind_s (make_printstream env cls meth 0) (\<lambda>rsp.
       if isStaticMethod md then
         command_call env (descriptor md) cls meth (Static_call cls meth (descriptor md)) jargs rsp
       else
         on_object obj (\<lambda>c.
         bind_s (if whichMethod md = WM_GET_STATUS then jcall env (Instance_call c cls meth (descriptor md) [Jprint_stream rsp])
                 else command_call env (descriptor md) cls meth (Instance_call c cls meth (descriptor md)) jargs rsp)
           (\<lambda>raised st. (Inr False, describe_exception env md raised st))))"

definition dispatch_info_call :: "jni_env \<Rightarrow> method_descriptor \<Rightarrow> string \<Rightarrow> string \<Rightarrow> session_state option \<Rightarrow> bool jact" where
  "dispatch_info_call env md cls meth pss =
     bind_s (jrequire (entry_lookups env True cls meth (descriptor md))) (\<lambda>_.
     let ss = (case pss of None \<Rightarrow> ss_default | Some s \<Rightarrow> clone_info_part ss_default s);
         c = Static_call cls meth (descriptor md) [] in
     bind_s (jcall env c) (\<lambda>raised.
       if raised then jreturn True
       else (case jn_dispatch env c of (ser, props, di) \<Rightarrow>
          (case process_initial_cmd_dispatch_info (jn_pg_size env) ser props di ss of
             Inl e \<Rightarrow> jthrow Throw_other
           | Inr (ss, region) \<Rightarrow> (\<lambda>st. (Inr False, st\<lparr>js_shm := Some region\<rparr>))))))"

definition main_call :: "jni_env \<Rightarrow> string \<Rightarrow> string \<Rightarrow> string list option \<Rightarrow> bool jact" where
  "main_call env cls meth jargs =
     (let base = ''spartan/SpartanBase''; desc = ''(Ljava/lang/String;ILjava/lang/reflect/Method;[Ljava/lang/String;)V'';
          name = ''java/lang/String{\"program name\"}'' in
      bind_s (jrequire (entry_lookups env True base meth desc @
                [(jn_reflect env cls meth, Throw_int 4 cls meth), (jn_new env ''java/lang/String'', Throw_int 5 name meth)])) (\<lambda>_.
      jcall env (Static_call base meth desc
        [Jstring (jn_progname env), Jlevel (jn_level env), Jmethod cls meth, Jargs jargs])))"

definition jint_of :: "string \<Rightarrow> int" where
  "jint_of s = sint (word_of_int (strtol10 s) :: 32 word)"

definition notify_call :: "jni_env \<Rightarrow> method_descriptor \<Rightarrow> string \<Rightarrow> string \<Rightarrow> string list option \<Rightarrow> string option \<Rightarrow> bool jact" where
  "notify_call env md cls meth argv obj =
     (case argv of
        Some (pid # cmd_line # _) \<Rightarrow>
          bind_s (jrequire [(jn_new env ''java/lang/String'',
                             Throw_int 5 ''java/lang/String{\"child process command line arguments\"}'' meth)]) (\<lambda>_.
          on_object obj (\<lambda>c. jcall env (Instance_call c cls meth (descriptor md) [Jint (jint_of pid), Jstring cmd_line])))
      | _ \<Rightarrow> jthrow Null_deref)"

definition completion_call :: "jni_env \<Rightarrow> method_descriptor \<Rightarrow> string \<Rightarrow> string \<Rightarrow> string list option \<Rightarrow> string option \<Rightarrow> bool jact" where
  "completion_call env md cls meth argv obj =
     (case argv of
        Some (pid # _) \<Rightarrow> on_object obj (\<lambda>c. jcall env (Instance_call c cls meth (descriptor md) [Jint (jint_of pid)]))
      | _ \<Rightarrow> jthrow Null_deref)"

definition entry_call ::
  "jni_env \<Rightarrow> method_descriptor \<Rightarrow> string \<Rightarrow> string \<Rightarrow> string list option \<Rightarrow> string list option \<Rightarrow> session_state option
   \<Rightarrow> string option \<Rightarrow> bool jact" where
  "entry_call env md cls meth argv jargs pss obj =
     (let which_method = whichMethod md in
      if which_method = WM_GET_CMD_DISPATCH_INFO then dispatch_info_call env md cls meth pss
      else if which_method = WM_MAIN then main_call env cls meth jargs
      else if which_method \<in> {WM_GET_STATUS, WM_CHILD_DO_CMD, WM_SUPERVISOR_DO_CMD} then stream_call env md cls meth jargs obj
      else if which_method = WM_SUPERVISOR_SHUTDOWN then
        on_object obj (\<lambda>c. jcall env (Instance_call c cls meth (descriptor md) []))
      else if which_method = WM_CHILD_NOTIFY then notify_call env md cls meth argv obj
      else if which_method = WM_CHILD_COMPLETION_NOTIFY then completion_call env md cls meth argv obj
      else jreturn False)"

definition invoke_body ::
  "jni_env \<Rightarrow> method_descriptor \<Rightarrow> string list option \<Rightarrow> session_state option \<Rightarrow> bool jact" where
  \<comment> \<open>the \<open>try\<close> block: whether a Java exception is left\<close>
  "invoke_body env md argv pss =
     bind_s (split_method (fullMethodName md)) (\<lambda>(cls, meth).
     if \<not> jn_attach env then jthrow Null_deref
     else
       bind_s (make_jargs env cls meth argv) (\<lambda>jargs.
       bind_s (jrequire (entry_lookups env (isStaticMethod md) cls meth (descriptor md))) (\<lambda>_.
       bind_s (spartan_object env (isStaticMethod md) cls meth) (\<lambda>obj.
       bind_s (jrequire (class_loader_lookups env meth)) (\<lambda>_.
         entry_call env md cls meth argv jargs pss obj)))))"

section \<open>The function\<close>

definition invoke_errmsg :: "method_descriptor \<Rightarrow> string \<Rightarrow> int \<Rightarrow> string \<Rightarrow> string \<Rightarrow> string" where
  "invoke_errmsg md cmd which class_name method_name =
     ''invoke_java_method() '' @
     (if which = 1 then ''invalid specification of method entry point \"'' @ fullMethodName md @ ''\"''
      else if which = 2 then ''failed allocating Java args array for invoking \"'' @ fullMethodName md @ ''\"''
      else if which = 3 then ''failed finding Java class \"'' @ class_name @ ''\"''
      else if which = 4 then ''failed finding Java method \"'' @ method_name @ ''(..)\" on class \"'' @ class_name @ ''\"''
      else if which = 5 then ''failed allocating object instance of class \"'' @ class_name @ ''\"''
      else if which = 6 then ''invalid method descriptor for invoking as sub-command: '' @ cmd @ [NL, CHR 0x09] @
        fullMethodName md @ ''(..)'' @ [NL, CHR 0x09] @ ''descriptor: \"'' @ descriptor md @ ''\"''
      else ''unspecified exception invoking method \"'' @ fullMethodName md @ ''(..)\"'')"

datatype invoked =
    Invoked int bool \<comment> \<open>the result, and whether the launcher is told to stop\<close>
  | Exits_process
  | Crashes

definition close_held :: "jstate \<Rightarrow> jstate" where
  \<comment> \<open>the end of the array's lifetime\<close>
  "close_held st = st\<lparr>js_closed := js_closed st @ map the (filter (\<lambda>h. h \<noteq> None) (js_fds st)), js_fds := [None, None, None]\<rparr>"

definition invoke_java_method ::
  "jni_env \<Rightarrow> method_descriptor \<Rightarrow> string \<Rightarrow> nat option list \<Rightarrow> string list option \<Rightarrow> session_state option
   \<Rightarrow> jstate \<Rightarrow> invoked \<times> jstate" where
  "invoke_java_method env md cmd fds argv pss st =
     (case invoke_body env md argv pss (st\<lparr>js_fds := fds\<rparr>) of
        (Inr True, st) \<Rightarrow> (Invoked EXIT_FAILURE False, close_held (st\<lparr>js_errors := js_errors st @ [jn_describe env]\<rparr>))
      | (Inr False, st) \<Rightarrow> (Invoked (if jn_detach env then EXIT_SUCCESS else EXIT_FAILURE) False, close_held st)
      | (Inl (Throw_int which class_name method_name), st) \<Rightarrow>
          (Invoked EXIT_FAILURE (jn_pid env = jn_parent_pid env),
           close_held (st\<lparr>js_errors := js_errors st @ [invoke_errmsg md cmd which class_name method_name]\<rparr>))
      | (Inl Throw_other, st) \<Rightarrow> (Exits_process, st)
      | (Inl Null_deref, st) \<Rightarrow> (Crashes, st))"

section \<open>What any invocation does\<close>

text \<open>
  The descriptors a state accounts for; the states in which the function has made the calls \<open>C\<close>
  and the singleton is \<open>ob\<close>; and the calls that a method descriptor asks for.
\<close>

definition held :: "nat option list \<Rightarrow> nat list" where
  "held fds = map the (filter (\<lambda>h. h \<noteq> None) fds)"

lemma held_Cons [simp]: "held [] = []" "held (None # fds) = held fds" "held (Some fd # fds) = fd # held fds"
  by (simp_all add: held_def)

definition fd_total :: "jstate \<Rightarrow> nat multiset" where
  "fd_total st = mset (js_passed st @ js_closed st @ held (js_fds st))"

definition at :: "nat multiset \<Rightarrow> java_call list \<Rightarrow> string option \<Rightarrow> string list \<Rightarrow> jstate \<Rightarrow> bool" where
  "at T C ob er st = (fd_total st = T \<and> length (js_fds st) = 3 \<and> js_calls st = C \<and> js_obj st = ob \<and> js_errors st = er)"

definition entry_of :: "method_descriptor \<Rightarrow> string option \<Rightarrow> java_call \<Rightarrow> bool" where
  \<comment> \<open>a call of the method of the descriptor, or of the launcher's own main method with it, or of the
      method on the singleton\<close>
  "entry_of md ob c =
     (case c of
        Static_call cls meth desc args \<Rightarrow>
          (if whichMethod md = WM_MAIN then
             cls = ''spartan/SpartanBase'' \<and>
             (\<exists>cls'. Jmethod cls' meth \<in> set args \<and> fullMethodName md = cls' @ CHR ''/'' # meth)
           else fullMethodName md = cls @ CHR ''/'' # meth \<and> desc = descriptor md)
      | Instance_call obj cls meth desc args \<Rightarrow>
          \<not> isStaticMethod md \<and> ob = Some obj \<and> fullMethodName md = cls @ CHR ''/'' # meth \<and> desc = descriptor md)"

abbreviation stays :: "('s \<Rightarrow> bool) \<Rightarrow> ('s \<Rightarrow> ('e + 'a) \<times> 's) \<Rightarrow> bool" where
  "stays P m \<equiv> triple P m (\<lambda>_. P) (\<lambda>_. P)"

lemma jrequire_state: "jrequire xs st = (r, st') \<Longrightarrow> st' = st"
  by (induction xs st rule: jrequire.induct) (auto split: if_splits)

lemma jrequire_stays: "stays P (jrequire xs)"
  by (rule tripleI) (auto dest: jrequire_state)

lemma jreturn_triple: "triple P (jreturn a) (\<lambda>b st. b = a \<and> P st) E"
  by (rule tripleI) (auto simp: jreturn_def)

lemma jthrow_triple: "triple P (jthrow e) Q (\<lambda>_. P)"
  by (rule tripleI) (auto simp: jthrow_def)

lemma jcall_triple: "triple (at T C ob er) (jcall env c) (\<lambda>_. at T (C @ [c]) ob er) E"
  by (rule tripleI) (auto simp: jcall_def at_def fd_total_def)

lemma length_3: "length xs = 3 \<longleftrightarrow> (\<exists>a b c. xs = [a, b, c])"
  by (auto simp: numeral_3_eq_3 length_Suc_conv)

lemma held_release:
  assumes "fds ! i = Some fd" and "i < 3" and "length fds = 3"
  shows "add_mset fd (mset (held (fds[i := None]))) = mset (held fds)"
proof -
  obtain a b c where f: "fds = [a, b, c]" using assms(3) by (auto simp: length_3)
  from assms(2) consider "i = 0" | "i = 1" | "i = 2" by linarith
  then show ?thesis
    using assms(1) unfolding f by cases (cases a; cases b; cases c; simp)+
qed

lemma open_stream_stays:
  assumes "i < 3"
  shows "stays (at T C ob er) (open_stream ls i)"
proof (rule tripleI)
  fix st a st' assume "at T C ob er st" and "open_stream ls i st = (Inr a, st')"
  then obtain fd where fd: "js_fds st ! i = Some fd" "length (js_fds st) = 3" "at T C ob er st"
    and st': "st' = st\<lparr>js_fds := (js_fds st)[i := None], js_passed := js_passed st @ [fd]\<rparr>"
    by (auto simp: open_stream_def at_def bind_s_Inr split: option.splits dest: jrequire_state)
  with held_release [OF fd(1) assms fd(2)] show "at T C ob er st'"
    by (auto simp: at_def fd_total_def)
next
  fix st e st' assume "at T C ob er st" and "open_stream ls i st = (Inl e, st')"
  then show "at T C ob er st'"
    by (auto simp: open_stream_def bind_s_Inl split: option.splits dest: jrequire_state)
qed

text \<open>
  The outcome of one invocation: at most one call, of the entry point, and none when an integer
  is thrown.
\<close>

definition called :: "method_descriptor \<Rightarrow> nat multiset \<Rightarrow> java_call list \<Rightarrow> string option \<Rightarrow> string list \<Rightarrow> jstate \<Rightarrow> bool" where
  "called md T C ob er st =
     (\<exists>c er'. entry_of md ob c \<and> at T (C @ [c]) ob er' st \<and> (er' = er \<or> \<not> isStaticMethod md))"

definition stopped :: "nat multiset \<Rightarrow> java_call list \<Rightarrow> string option \<Rightarrow> string list \<Rightarrow> jthrow \<Rightarrow> jstate \<Rightarrow> bool" where
  "stopped T C ob er e st = (at T C ob er st \<or> e = Throw_other)"

abbreviation runs ::
  "nat multiset \<Rightarrow> java_call list \<Rightarrow> string option \<Rightarrow> string list \<Rightarrow> method_descriptor \<Rightarrow> bool jact \<Rightarrow> bool" where
  "runs T C ob er md m \<equiv> triple (at T C ob er) m (\<lambda>_. called md T C ob er) (stopped T C ob er)"

lemma stays_stopped: "stays (at T C ob er) m \<Longrightarrow> triple (at T C ob er) m (\<lambda>_. at T C ob er) (stopped T C ob er)"
  by (erule triple_weaken) (auto simp: stopped_def)

lemmas jrequire_runs = stays_stopped [OF jrequire_stays]

lemma printstream_runs:
  "i < 3 \<Longrightarrow> triple (at T C ob er) (make_printstream env cls meth i) (\<lambda>_. at T C ob er) (stopped T C ob er)"
  unfolding make_printstream_def by (rule stays_stopped [OF open_stream_stays])

lemma inputstream_runs:
  "i < 3 \<Longrightarrow> triple (at T C ob er) (make_inputstream env cls meth i) (\<lambda>_. at T C ob er) (stopped T C ob er)"
  unfolding make_inputstream_def by (rule stays_stopped [OF open_stream_stays])

lemma jcall_runs: "entry_of md ob c \<Longrightarrow> runs T C ob er md (jcall env c)"
  by (rule triple_weaken [OF jcall_triple]) (auto simp: called_def)

lemma jthrow_runs: "runs T C ob er md (jthrow e)"
  by (rule triple_weaken [OF jthrow_triple [where P = "at T C ob er"]]) (auto simp: stopped_def)

lemma command_call_runs:
  assumes "\<And>as. entry_of md ob (call as)"
  shows "runs T C ob er md (command_call env desc cls meth call jargs rsp)"
proof -
  have e: "runs T C ob er md (\<lambda>st. bind_s (make_printstream env cls meth 1) (\<lambda>err.
        bind_s (make_inputstream env cls meth 2) (\<lambda>inp.
          jcall env (call [Jargs jargs, Jprint_stream rsp, Jprint_stream err, Jinput_stream inp]))) st)"
    by (rule triple_bind [OF printstream_runs], simp, rule triple_bind [OF inputstream_runs], simp,
        rule jcall_runs, rule assms)
  have n: "runs T C ob er md (\<lambda>st. bind_s (jrequire [(desc = std_invoke_descriptor, Throw_int 6 cls meth)])
          (\<lambda>_. jcall env (call [Jargs jargs, Jprint_stream rsp])) st)"
    by (rule triple_bind [OF jrequire_runs], rule jcall_runs, rule assms)
  show ?thesis
    by (rule tripleI)
       (auto simp: command_call_def Let_def split: if_splits
         intro: triple_Inr [OF e] triple_Inr [OF n] triple_Inl [OF e] triple_Inl [OF n])
qed

lemma on_object_runs:
  assumes "\<And>c. obj = Some c \<Longrightarrow> runs T C ob er md (f c)"
  shows "runs T C ob er md (on_object obj f)"
  using assms by (cases obj) (auto simp: on_object_def jthrow_runs)

lemma called_return: "triple (called md T C ob er) (jreturn a) (\<lambda>_. called md T C ob er) E"
  by (rule triple_weaken [OF jreturn_triple [where a = a]]) auto

lemma called_describe:
  "\<not> isStaticMethod md \<Longrightarrow> triple (called md T C ob er) (\<lambda>st. (Inr False, describe_exception env md r st)) (\<lambda>_. called md T C ob er) E"
  by (rule tripleI) (auto simp: describe_exception_def called_def at_def fd_total_def)

definition receiver_ok :: "method_descriptor \<Rightarrow> string option \<Rightarrow> string option \<Rightarrow> bool" where
  \<comment> \<open>\<open>mObj\<close> against the singleton\<close>
  "receiver_ok md ob obj = (if isStaticMethod md then obj = None else obj = ob \<and> ob \<noteq> None)"

lemma instance_runs:
  assumes "fullMethodName md = cls @ CHR ''/'' # meth" and "receiver_ok md ob obj"
  shows "runs T C ob er md (on_object obj (\<lambda>c. jcall env (Instance_call c cls meth (descriptor md) args)))"
  using assms by (auto simp: entry_of_def receiver_ok_def split: if_splits intro!: on_object_runs jcall_runs)

lemma stream_call_runs:
  assumes "fullMethodName md = cls @ CHR ''/'' # meth" and "whichMethod md \<noteq> WM_MAIN" and "receiver_ok md ob obj"
  shows "runs T C ob er md (stream_call env md cls meth jargs obj)"
proof (cases "isStaticMethod md")
  case True
  then show ?thesis
    using assms unfolding stream_call_def
    by (intro triple_bind [OF printstream_runs]) (auto simp: entry_of_def intro!: command_call_runs)
next
  case False
  then show ?thesis
    using assms unfolding stream_call_def
    by (intro triple_bind [OF printstream_runs])
       (auto simp: entry_of_def receiver_ok_def intro!: on_object_runs triple_bind [OF _ called_describe] command_call_runs jcall_runs)
qed

lemma dispatch_info_call_runs:
  assumes "fullMethodName md = cls @ CHR ''/'' # meth" and "whichMethod md \<noteq> WM_MAIN"
  shows "runs T C ob er md (dispatch_info_call env md cls meth pss)"
proof -
  let ?c = "Static_call cls meth (descriptor md) []"
  let ?ss = "case pss of None \<Rightarrow> ss_default | Some s \<Rightarrow> clone_info_part ss_default s"
  have c: "entry_of md ob ?c" using assms by (simp add: entry_of_def)
  have "triple (called md T C ob er)
      (case jn_dispatch env ?c of (ser, props, di) \<Rightarrow>
          (case process_initial_cmd_dispatch_info (jn_pg_size env) ser props di ?ss of
             Inl e \<Rightarrow> jthrow Throw_other
           | Inr (ss, region) \<Rightarrow> (\<lambda>st. (Inr False, st\<lparr>js_shm := Some region\<rparr>))))
      (\<lambda>_. called md T C ob er) (stopped T C ob er)"
    by (rule tripleI)
       (auto simp: stopped_def jthrow_def called_def at_def fd_total_def split: prod.splits sum.splits)
  then show ?thesis
    unfolding dispatch_info_call_def Let_def
    by (intro triple_bind [OF jrequire_runs] triple_bind [OF jcall_runs [OF c]]) (simp add: called_return)
qed

lemma main_call_runs:
  assumes "fullMethodName md = cls @ CHR ''/'' # meth" and "whichMethod md = WM_MAIN"
  shows "runs T C ob er md (main_call env cls meth jargs)"
  using assms unfolding main_call_def Let_def
  by (intro triple_bind [OF jrequire_runs] jcall_runs) (simp add: entry_of_def)

lemma notify_call_runs:
  assumes "fullMethodName md = cls @ CHR ''/'' # meth" and "receiver_ok md ob obj"
  shows "runs T C ob er md (notify_call env md cls meth argv obj)"
  using assms unfolding notify_call_def
  by (auto split: option.splits list.splits intro!: jthrow_runs triple_bind [OF jrequire_runs] instance_runs)

lemma completion_call_runs:
  assumes "fullMethodName md = cls @ CHR ''/'' # meth" and "receiver_ok md ob obj"
  shows "runs T C ob er md (completion_call env md cls meth argv obj)"
  using assms unfolding completion_call_def
  by (auto split: option.splits list.splits intro!: jthrow_runs instance_runs)

definition known_kind :: "method_descriptor \<Rightarrow> bool" where
  "known_kind md = (whichMethod md \<in> {WM_GET_CMD_DISPATCH_INFO, WM_MAIN, WM_GET_STATUS, WM_CHILD_DO_CMD, WM_SUPERVISOR_DO_CMD,
     WM_SUPERVISOR_SHUTDOWN, WM_CHILD_NOTIFY, WM_CHILD_COMPLETION_NOTIFY})"

lemma entry_call_runs:
  assumes "fullMethodName md = cls @ CHR ''/'' # meth" and "receiver_ok md ob obj"
  shows "triple (at T C ob er) (entry_call env md cls meth argv jargs pss obj)
     (\<lambda>_ st. if known_kind md then called md T C ob er st else at T C ob er st) (stopped T C ob er)"
proof (cases "known_kind md")
  case True
  then have "runs T C ob er md (entry_call env md cls meth argv jargs pss obj)"
    unfolding known_kind_def entry_call_def Let_def
    using dispatch_info_call_runs [OF assms(1)] main_call_runs [OF assms(1)] stream_call_runs [OF assms(1) _ assms(2)]
      instance_runs [OF assms] notify_call_runs [OF assms] completion_call_runs [OF assms]
    by auto
  with True show ?thesis by simp
next
  case False
  then show ?thesis
    unfolding known_kind_def entry_call_def Let_def
    by (auto intro!: triple_weaken [OF jreturn_triple [where P = "at T C ob er" and a = False]])
qed

definition singleton_step :: "method_descriptor \<Rightarrow> string option \<Rightarrow> string option \<Rightarrow> bool" where
  \<comment> \<open>the singleton stays, or is made for the class of the first instance method\<close>
  "singleton_step md ob ob' =
     (ob' = ob \<or> ob = None \<and> \<not> isStaticMethod md \<and> (\<exists>cls meth. fullMethodName md = cls @ CHR ''/'' # meth \<and> ob' = Some cls))"

definition ran :: "method_descriptor \<Rightarrow> nat multiset \<Rightarrow> java_call list \<Rightarrow> string option \<Rightarrow> string list \<Rightarrow> jstate \<Rightarrow> bool" where
  "ran md T C ob er st =
     (\<exists>ob'. singleton_step md ob ob' \<and> (if known_kind md then called md T C ob' er st else at T C ob' er st))"

definition gave_up :: "method_descriptor \<Rightarrow> nat multiset \<Rightarrow> java_call list \<Rightarrow> string option \<Rightarrow> string list \<Rightarrow> jthrow \<Rightarrow> jstate \<Rightarrow> bool" where
  "gave_up md T C ob er e st = (e = Throw_other \<or> (\<exists>ob'. singleton_step md ob ob' \<and> at T C ob' er st))"

lemma triple_ex: "(\<And>x. c x \<Longrightarrow> triple (P x) m Q E) \<Longrightarrow> triple (\<lambda>s. \<exists>x. c x \<and> P x s) m Q E"
  unfolding triple_def by blast

lemma spartan_object_triple:
  assumes "fullMethodName md = cls @ CHR ''/'' # meth"
  shows "triple (at T C ob er) (spartan_object env (isStaticMethod md) cls meth)
     (\<lambda>obj st. \<exists>ob'. (singleton_step md ob ob' \<and> receiver_ok md ob' obj) \<and> at T C ob' er st) (\<lambda>_. at T C ob er)"
proof (rule tripleI)
  fix st obj st'
  assume s: "at T C ob er st" and r: "spartan_object env (isStaticMethod md) cls meth st = (Inr obj, st')"
  show "\<exists>ob'. (singleton_step md ob ob' \<and> receiver_ok md ob' obj) \<and> at T C ob' er st'"
  proof (cases "isStaticMethod md \<or> js_obj st \<noteq> None")
    case True
    with s r have "st' = st \<and> receiver_ok md ob obj"
      by (auto simp: spartan_object_def jreturn_def receiver_ok_def at_def split: if_splits option.splits)
    with s show ?thesis by (auto simp: singleton_step_def)
  next
    case False
    with r have "obj = Some cls" "st' = st\<lparr>js_obj := Some cls\<rparr>"
      by (auto simp: spartan_object_def bind_s_Inr simp del: jrequire.simps split: option.splits dest: jrequire_state)
    with False s assms show ?thesis
      by (auto simp: singleton_step_def receiver_ok_def at_def fd_total_def intro!: exI [of _ "Some cls"])
  qed
next
  fix st e st'
  assume "at T C ob er st" and "spartan_object env (isStaticMethod md) cls meth st = (Inl e, st')"
  then show "at T C ob er st'"
    by (auto simp: spartan_object_def bind_s_Inl jreturn_def split: if_splits option.splits dest: jrequire_state)
qed

lemma at_gave_up: "singleton_step md ob ob' \<Longrightarrow> at T C ob' er st \<Longrightarrow> gave_up md T C ob er e st"
  by (auto simp: gave_up_def)

lemma at_gave_up0: "at T C ob er st \<Longrightarrow> gave_up md T C ob er e st"
  by (rule at_gave_up) (simp_all add: singleton_step_def)

lemma stays_gave_up: "stays (at T C ob er) m \<Longrightarrow> triple (at T C ob er) m (\<lambda>_. at T C ob er) (gave_up md T C ob er)"
  by (erule triple_weaken) (auto simp: at_gave_up0)

lemma make_jargs_stays: "stays (at T C ob er) (make_jargs env cls meth argv)"
  by (rule tripleI)
     (auto simp: make_jargs_def jreturn_def bind_s_Inr bind_s_Inl split: option.splits if_splits)

lemma after_object:
  assumes "fullMethodName md = cls @ CHR ''/'' # meth" and "singleton_step md ob ob' \<and> receiver_ok md ob' obj"
  shows "triple (at T C ob' er)
     (bind_s (jrequire (class_loader_lookups env meth)) (\<lambda>_. entry_call env md cls meth argv jargs pss obj))
     (\<lambda>_. ran md T C ob er) (gave_up md T C ob er)"
proof -
  have "triple (at T C ob' er)
     (bind_s (jrequire (class_loader_lookups env meth)) (\<lambda>_. entry_call env md cls meth argv jargs pss obj))
     (\<lambda>_ st. if known_kind md then called md T C ob' er st else at T C ob' er st) (stopped T C ob' er)"
    using assms by (intro triple_bind [OF jrequire_runs] entry_call_runs) auto
  then show ?thesis
    by (rule triple_weaken) (use assms in \<open>auto simp: ran_def gave_up_def stopped_def\<close>)
qed

lemma split_method_name: "split_method name st = (Inr (cls, meth), st') \<Longrightarrow> name = cls @ CHR ''/'' # meth \<and> meth \<noteq> [] \<and> st' = st"
  by (auto simp: split_method_def jthrow_def jreturn_def strrsplit_Some split: option.splits if_splits)

lemma invoke_body_triple: "triple (at T C ob er) (invoke_body env md argv pss) (\<lambda>_. ran md T C ob er) (gave_up md T C ob er)"
  unfolding invoke_body_def
proof (rule triple_bind [where R = "\<lambda>(cls, meth) st. (fullMethodName md = cls @ CHR ''/'' # meth) \<and> at T C ob er st"])
  show "triple (at T C ob er) (split_method (fullMethodName md))
     (\<lambda>(cls, meth) st. (fullMethodName md = cls @ CHR ''/'' # meth) \<and> at T C ob er st) (gave_up md T C ob er)"
    by (rule tripleI)
       (auto simp: split_method_def strrsplit_Some jthrow_def jreturn_def at_gave_up0 split: option.splits if_splits)
next
  fix p :: "string \<times> string"
  obtain cls meth where p: "p = (cls, meth)" by (cases p)
  let ?m = "if \<not> jn_attach env then jthrow Null_deref
     else bind_s (make_jargs env cls meth argv) (\<lambda>jargs.
       bind_s (jrequire (entry_lookups env (isStaticMethod md) cls meth (descriptor md))) (\<lambda>_.
       bind_s (spartan_object env (isStaticMethod md) cls meth) (\<lambda>obj.
       bind_s (jrequire (class_loader_lookups env meth)) (\<lambda>_.
         entry_call env md cls meth argv jargs pss obj))))"
  have "triple (at T C ob er) ?m (\<lambda>_. ran md T C ob er) (gave_up md T C ob er)"
    if name: "fullMethodName md = cls @ CHR ''/'' # meth"
  proof (cases "jn_attach env")
    case True
    have "triple (at T C ob er) (spartan_object env (isStaticMethod md) cls meth)
       (\<lambda>obj st. \<exists>ob'. (singleton_step md ob ob' \<and> receiver_ok md ob' obj) \<and> at T C ob' er st) (gave_up md T C ob er)"
      by (rule triple_weaken [OF spartan_object_triple [OF name]]) (auto simp: at_gave_up0)
    then have "triple (at T C ob er) (bind_s (spartan_object env (isStaticMethod md) cls meth) (\<lambda>obj.
       bind_s (jrequire (class_loader_lookups env meth)) (\<lambda>_. entry_call env md cls meth argv jargs pss obj)))
       (\<lambda>_. ran md T C ob er) (gave_up md T C ob er)" for jargs
      by (rule triple_bind) (rule triple_ex, rule after_object [OF name])
    with True show ?thesis
      by (auto intro!: triple_bind [OF stays_gave_up [OF make_jargs_stays]] triple_bind [OF stays_gave_up [OF jrequire_stays]])
  next
    case False
    then show ?thesis by (auto intro!: triple_weaken [OF jthrow_triple [where P = "at T C ob er"]] simp: at_gave_up0)
  qed
  then show "triple (case p of (cls, meth) \<Rightarrow> \<lambda>st. fullMethodName md = cls @ CHR ''/'' # meth \<and> at T C ob er st)
      (case p of (cls, meth) \<Rightarrow> if \<not> jn_attach env then jthrow Null_deref
       else bind_s (make_jargs env cls meth argv) (\<lambda>jargs.
       bind_s (jrequire (entry_lookups env (isStaticMethod md) cls meth (descriptor md))) (\<lambda>_.
       bind_s (spartan_object env (isStaticMethod md) cls meth) (\<lambda>obj.
       bind_s (jrequire (class_loader_lookups env meth)) (\<lambda>_.
         entry_call env md cls meth argv jargs pss obj)))))
      (\<lambda>_. ran md T C ob er) (gave_up md T C ob er)"
    unfolding p prod.case by (auto simp: triple_def)
qed

lemma at_close_held:
  assumes "at T C ob er st"
  shows "mset (js_passed (close_held st) @ js_closed (close_held st)) = T"
    and "js_calls (close_held st) = C" and "js_obj (close_held st) = ob" and "js_errors (close_held st) = er"
  using assms by (auto simp: at_def fd_total_def close_held_def held_def)

lemma at_error:
  "at T C ob er st \<Longrightarrow> at T C ob (er @ ms) (st\<lparr>js_errors := js_errors st @ ms\<rparr>)"
  by (simp add: at_def fd_total_def)

lemma ran_cases:
  assumes "ran md T C ob er st"
  obtains ob' C' er' where "singleton_step md ob ob'" and "at T C' ob' er' st" and "er' = er \<or> \<not> isStaticMethod md"
    and "C' = C \<or> (\<exists>c. entry_of md ob' c \<and> C' = C @ [c])" and "known_kind md \<longrightarrow> C' \<noteq> C"
proof -
  obtain ob' where ob: "singleton_step md ob ob'"
    and r: "if known_kind md then called md T C ob' er st else at T C ob' er st"
    using assms unfolding ran_def by blast
  show thesis
  proof (cases "known_kind md")
    case True
    with r obtain c er' where c: "entry_of md ob' c" "at T (C @ [c]) ob' er' st" "er' = er \<or> \<not> isStaticMethod md"
      by (auto simp: called_def)
    show ?thesis by (rule that [OF ob c(2,3)]) (use c(1) in auto)
  next
    case False
    with r show ?thesis by (intro that [OF ob, of C er]) simp_all
  qed
qed

text \<open>
  C8. Whatever the JVM answers, an invocation that returns has handed every descriptor it was
  given either to one Java stream or to \<open>close\<close>, once; it has made no Java call or one, of the
  entry point, and success is only reported for a call that was made, of a static method with
  nothing logged as an error. All instance methods are called on one object, of the class of the first of them, even
  those of other classes.
\<close>

theorem invoke_java_method_effects:
  "case invoke_java_method env md cmd [a, b, c] argv pss st of
     (Invoked rc quit, st') \<Rightarrow>
        mset (js_passed st' @ js_closed st') = mset (js_passed st @ js_closed st @ held [a, b, c]) \<and>
        (js_calls st' = js_calls st \<or> (\<exists>call. entry_of md (js_obj st') call \<and> js_calls st' = js_calls st @ [call])) \<and>
        (rc = EXIT_SUCCESS \<and> isStaticMethod md \<longrightarrow> js_errors st' = js_errors st) \<and>
        (rc = EXIT_SUCCESS \<and> known_kind md \<longrightarrow> js_calls st' \<noteq> js_calls st) \<and>
        singleton_step md (js_obj st) (js_obj st')
   | (Exits_process, st') \<Rightarrow> True
   | (Crashes, st') \<Rightarrow> True"
proof -
  let ?st = "st\<lparr>js_fds := [a, b, c]\<rparr>" and ?T = "mset (js_passed st @ js_closed st @ held [a, b, c])"
  have s: "at ?T (js_calls st) (js_obj st) (js_errors st) ?st" by (simp add: at_def fd_total_def)
  obtain r st1 where b: "invoke_body env md argv pss ?st = (r, st1)" by (cases "invoke_body env md argv pss ?st")
  show ?thesis
  proof (cases r)
    case (Inl e)
    with triple_Inl [OF invoke_body_triple s] b
    have g: "gave_up md ?T (js_calls st) (js_obj st) (js_errors st) e st1" by blast
    show ?thesis
    proof (cases e)
      case (Throw_int n cl m)
      with g obtain ob' where o: "singleton_step md (js_obj st) ob'" "at ?T (js_calls st) ob' (js_errors st) st1"
        by (auto simp: gave_up_def)
      from o(1) at_close_held [OF at_error [OF o(2)]] b Inl Throw_int show ?thesis
        by (simp add: invoke_java_method_def)
    qed (use b Inl in \<open>simp_all add: invoke_java_method_def\<close>)
  next
    case (Inr raised)
    with triple_Inr [OF invoke_body_triple s] b
    have "ran md ?T (js_calls st) (js_obj st) (js_errors st) st1" by blast
    then obtain ob' C' er' where o: "singleton_step md (js_obj st) ob'" and at: "at ?T C' ob' er' st1"
      and er: "er' = js_errors st \<or> \<not> isStaticMethod md"
      and C: "C' = js_calls st \<or> (\<exists>c. entry_of md ob' c \<and> C' = js_calls st @ [c])" "known_kind md \<longrightarrow> C' \<noteq> js_calls st"
      by (rule ran_cases)
    show ?thesis
      using o C er at_close_held [OF at] at_close_held [OF at_error [OF at]] b Inr
      by (cases raised) (auto simp: invoke_java_method_def)
  qed
qed

section \<open>The call of a command\<close>

text \<open>A JVM in which every lookup succeeds.\<close>

definition jni_ok :: "jni_env \<Rightarrow> bool" where
  "jni_ok env = (jn_attach env \<and> jn_field env \<and> (\<forall>c. jn_class env c \<and> jn_new env c) \<and> (\<forall>s c m d. jn_method env s c m d))"

lemma jrequire_ok: "list_all fst xs \<Longrightarrow> jrequire xs st = (Inr (), st)"
  by (induction xs st rule: jrequire.induct) auto

lemma lookups_ok:
  assumes "jni_ok env"
  shows "list_all fst (entry_lookups env s cls meth desc)" and "list_all fst (class_loader_lookups env meth)"
    and "list_all fst (fdesc_lookups env cls meth @ print_stream_lookups env meth)"
    and "list_all fst (fdesc_lookups env cls meth @ input_stream_lookups env meth)"
  using assms by (simp_all add: jni_ok_def entry_lookups_def class_loader_lookups_def fdesc_lookups_def
      print_stream_lookups_def input_stream_lookups_def Let_def)

lemma open_stream_ok:
  "list_all fst ls \<Longrightarrow> js_fds st ! i = Some fd \<Longrightarrow>
   open_stream ls i st = (Inr fd, st\<lparr>js_fds := (js_fds st)[i := None], js_passed := js_passed st @ [fd]\<rparr>)"
  by (simp add: open_stream_def bind_s_def jrequire_ok)

definition command_args :: "string \<Rightarrow> string list \<Rightarrow> nat \<Rightarrow> nat option \<Rightarrow> nat option \<Rightarrow> jarg list" where
  \<comment> \<open>what a command is called with: its arguments and its streams\<close>
  "command_args desc argv out err inp =
     Jargs (Some (tl argv)) # Jprint_stream out #
     (if desc = react_invoke_descriptor then [Jprint_stream (the err), Jinput_stream (the inp)] else [])"

definition command_java_call :: "method_descriptor \<Rightarrow> string \<Rightarrow> string \<Rightarrow> string option \<Rightarrow> jarg list \<Rightarrow> java_call" where
  "command_java_call md cls meth ob args =
     (if isStaticMethod md then Static_call cls meth (descriptor md) args
      else Instance_call (case ob of None \<Rightarrow> cls | Some c \<Rightarrow> c) cls meth (descriptor md) args)"

lemma descriptors_differ: "react_invoke_descriptor \<noteq> std_invoke_descriptor"
  by code_simp

lemma command_call_ok:
  assumes "jni_ok env" and "length (js_fds st) = 3"
    and "desc = std_invoke_descriptor \<or> desc = react_invoke_descriptor \<and> js_fds st ! 1 \<noteq> None \<and> js_fds st ! 2 \<noteq> None"
  shows "command_call env desc cls meth call (Some (tl argv)) rsp st =
     (let c = call (command_args desc argv rsp (js_fds st ! 1) (js_fds st ! 2)); react = (desc = react_invoke_descriptor) in
      (Inr (jn_raises env c), st\<lparr>js_calls := js_calls st @ [c],
          js_fds := (if react then [js_fds st ! 0, None, None] else js_fds st),
          js_passed := js_passed st @ (if react then [the (js_fds st ! 1), the (js_fds st ! 2)] else [])\<rparr>))"
proof -
  obtain x y z where f: "js_fds st = [x, y, z]" using assms(2) by (auto simp: length_3)
  show ?thesis
  proof (cases "desc = react_invoke_descriptor")
    case True
    with assms(3) f descriptors_differ obtain fy fz where "y = Some fy" "z = Some fz" by auto
    with True f show ?thesis
      using lookups_ok [OF assms(1)]
      by (simp add: command_call_def bind_s_def make_printstream_def make_inputstream_def open_stream_ok jcall_def
          command_args_def Let_def)
  next
    case False
    with assms(3) show ?thesis
      by (simp add: command_call_def bind_s_def jcall_def command_args_def Let_def)
  qed
qed

lemma describe_keeps [simp]:
  "js_calls (describe_exception env md r st) = js_calls st" "js_closed (describe_exception env md r st) = js_closed st"
  "js_fds (describe_exception env md r st) = js_fds st" "js_passed (describe_exception env md r st) = js_passed st"
  by (simp_all add: describe_exception_def)

lemma stream_call_ok:
  assumes ok: "jni_ok env" and fds: "js_fds st = [Some out, err, inp]"
    and desc: "descriptor md = std_invoke_descriptor \<or> descriptor md = react_invoke_descriptor \<and> err \<noteq> None \<and> inp \<noteq> None"
    and obj: "isStaticMethod md \<or> obj = Some c" and kind: "whichMethod md \<noteq> WM_GET_STATUS"
  shows "stream_call env md cls meth (Some (tl argv)) obj st =
     (let args = command_args (descriptor md) argv out err inp; react = (descriptor md = react_invoke_descriptor);
          call = (if isStaticMethod md then Static_call cls meth (descriptor md) args
                  else Instance_call c cls meth (descriptor md) args) in
      (Inr (isStaticMethod md \<and> jn_raises env call),
       (if isStaticMethod md then id else describe_exception env md (jn_raises env call))
         (st\<lparr>js_calls := js_calls st @ [call], js_fds := (if react then [None, None, None] else [None, err, inp]),
            js_passed := js_passed st @ out # (if react then [the err, the inp] else [])\<rparr>)))"
proof -
  let ?st = "st\<lparr>js_fds := [None, err, inp], js_passed := js_passed st @ [out]\<rparr>"
  have open0: "make_printstream env cls meth 0 st = (Inr out, ?st)"
    using lookups_ok [OF ok] fds by (simp add: make_printstream_def open_stream_ok)
  have cc: "command_call env (descriptor md) cls meth call (Some (tl argv)) out ?st =
     (let c = call (command_args (descriptor md) argv out err inp); react = (descriptor md = react_invoke_descriptor) in
      (Inr (jn_raises env c), ?st\<lparr>js_calls := js_calls ?st @ [c],
          js_fds := (if react then [None, None, None] else [None, err, inp]),
          js_passed := js_passed ?st @ (if react then [the err, the inp] else [])\<rparr>))" for call
    using command_call_ok [OF ok, of ?st "descriptor md"] desc by (simp add: Let_def)
  show ?thesis
    using obj kind
    by (cases "isStaticMethod md")
       (simp_all add: stream_call_def bind_s_def open0 cc on_object_def Let_def split del: if_split)
qed

lemma spartan_object_ok:
  assumes "jni_ok env"
  shows "spartan_object env static cls meth st =
     (if static then (Inr None, st)
      else (Inr (Some (case js_obj st of None \<Rightarrow> cls | Some c \<Rightarrow> c)), st\<lparr>js_obj := Some (case js_obj st of None \<Rightarrow> cls | Some c \<Rightarrow> c)\<rparr>))"
  using assms by (auto simp: spartan_object_def jreturn_def bind_s_def jni_ok_def split: option.splits)

lemma invoke_java_method_Inr:
  "invoke_body env md argv pss (st\<lparr>js_fds := fds\<rparr>) = (Inr raised, st') \<Longrightarrow>
   invoke_java_method env md cmd fds argv pss st =
     (Invoked (if raised \<or> \<not> jn_detach env then EXIT_FAILURE else EXIT_SUCCESS) False,
      close_held (st'\<lparr>js_errors := js_errors st' @ (if raised then [jn_describe env] else [])\<rparr>))"
  by (cases raised) (simp_all add: invoke_java_method_def)

lemma invoke_body_ok:
  assumes ok: "jni_ok env" and name: "fullMethodName md = cls @ CHR ''/'' # meth" "CHR ''/'' \<notin> set meth" "meth \<noteq> []"
  shows "invoke_body env md argv pss st =
     (let ob = (case js_obj st of None \<Rightarrow> cls | Some c \<Rightarrow> c) in
      entry_call env md cls meth argv (map_option tl argv) pss (if isStaticMethod md then None else Some ob)
        (if isStaticMethod md then st else st\<lparr>js_obj := Some ob\<rparr>))"
  using lookups_ok [OF ok] name ok
  by (cases argv) (simp_all add: invoke_body_def bind_s_def split_method_def jreturn_def make_jargs_def jrequire_ok
      spartan_object_ok [OF ok] jni_ok_def [of env] Let_def)

definition receiver :: "method_descriptor \<Rightarrow> string \<Rightarrow> string option \<Rightarrow> string" where
  "receiver md cls ob = (case ob of None \<Rightarrow> cls | Some c \<Rightarrow> c)"

lemma notify_invoked:
  assumes ok: "jni_ok env" and name: "fullMethodName md = cls @ CHR ''/'' # meth" "CHR ''/'' \<notin> set meth" "meth \<noteq> []"
    and kind: "whichMethod md = WM_CHILD_NOTIFY" "\<not> isStaticMethod md"
  shows "\<exists>rc st'. invoke_java_method env md cmd [None, None, None] (Some [pid, line]) pss st = (Invoked rc False, st') \<and>
     js_calls st' = js_calls st @ [Instance_call (receiver md cls (js_obj st)) cls meth (descriptor md) [Jint (jint_of pid), Jstring line]] \<and>
     js_closed st' = js_closed st"
proof -
  let ?call = "Instance_call (receiver md cls (js_obj st)) cls meth (descriptor md) [Jint (jint_of pid), Jstring line]"
  let ?st = "st\<lparr>js_fds := [None, None, None], js_obj := Some (receiver md cls (js_obj st)), js_calls := js_calls st @ [?call]\<rparr>"
  have "jn_new env ''java/lang/String''" using ok by (simp add: jni_ok_def)
  then have "invoke_body env md (Some [pid, line]) pss (st\<lparr>js_fds := [None, None, None]\<rparr>) = (Inr (jn_raises env ?call), ?st)"
    using kind by (simp add: invoke_body_ok [OF ok name] entry_call_def notify_call_def bind_s_def on_object_def jcall_def
        receiver_def Let_def del: One_nat_def)
  from invoke_java_method_Inr [OF this] show ?thesis by (simp add: close_held_def)
qed

lemma invoke_java_method_quiet:
  assumes "invoke_body env md argv pss (st\<lparr>js_fds := no\<rparr>) = (Inr False, st1)" and "jn_detach env" and "js_fds st1 = [None, None, None]"
  shows "invoke_java_method env md cmd no argv pss st = (Invoked EXIT_SUCCESS False, st1)"
  using invoke_java_method_Inr [OF assms(1)] assms(2,3) by (simp add: close_held_def)

lemma dispatch_info_invoked:
  assumes ok: "jni_ok env" "jn_detach env" and name: "fullMethodName md = cls @ CHR ''/'' # meth" "CHR ''/'' \<notin> set meth" "meth \<noteq> []"
    and kind: "whichMethod md = WM_GET_CMD_DISPATCH_INFO" "isStaticMethod md"
    and c: "c = Static_call cls meth (descriptor md) []" "\<not> jn_raises env c" "jn_dispatch env c = (ser, props, di)"
    and r: "process_initial_cmd_dispatch_info (jn_pg_size env) ser props di (clone_info_part ss_default s) = Inr (ss, region)"
  shows "invoke_java_method env md cmd [None, None, None] argv (Some s) st =
     (Invoked EXIT_SUCCESS False, st\<lparr>js_fds := [None, None, None], js_calls := js_calls st @ [c], js_shm := Some region\<rparr>)"
  by (rule invoke_java_method_quiet [OF _ ok(2)])
     (use kind c r lookups_ok(1) [OF ok(1)] in \<open>simp_all add: invoke_body_ok [OF ok(1) name] entry_call_def dispatch_info_call_def
        bind_s_def jrequire_ok jcall_def Let_def\<close>)

lemma main_invoked:
  assumes ok: "jni_ok env" "jn_detach env" "\<And>a b. jn_reflect env a b" "\<And>c. \<not> jn_raises env c"
    and name: "fullMethodName md = cls @ CHR ''/'' # meth" "CHR ''/'' \<notin> set meth" "meth \<noteq> []"
    and kind: "whichMethod md = WM_MAIN" "isStaticMethod md"
  shows "invoke_java_method env md cmd [None, None, None] argv None st =
     (Invoked EXIT_SUCCESS False, st\<lparr>js_fds := [None, None, None], js_calls := js_calls st @ [Static_call ''spartan/SpartanBase'' meth
        ''(Ljava/lang/String;ILjava/lang/reflect/Method;[Ljava/lang/String;)V''
        [Jstring (jn_progname env), Jlevel (jn_level env), Jmethod cls meth, Jargs (map_option tl argv)]]\<rparr>)"
proof -
  have n: "jn_new env c" for c using ok(1) by (simp add: jni_ok_def)
  show ?thesis
    by (rule invoke_java_method_quiet [OF _ ok(2)])
       (use kind n lookups_ok(1) [OF ok(1)] in \<open>simp_all add: invoke_body_ok [OF ok(1) name] entry_call_def main_call_def
          bind_s_def jrequire_ok jcall_def Let_def ok(3,4)\<close>)
qed

lemma command_invoked:
  assumes ok: "jni_ok env" and name: "fullMethodName md = cls @ CHR ''/'' # meth" "CHR ''/'' \<notin> set meth" "meth \<noteq> []"
    and kind: "whichMethod md = WM_CHILD_DO_CMD \<or> whichMethod md = WM_SUPERVISOR_DO_CMD"
    and desc: "descriptor md = std_invoke_descriptor \<or> descriptor md = react_invoke_descriptor \<and> err \<noteq> None \<and> inp \<noteq> None"
  shows "\<exists>st'. invoke_java_method env md cmd [Some out, err, inp] (Some argv) pss st =
       (let call = command_java_call md cls meth (js_obj st) (command_args (descriptor md) argv out err inp) in
        (Invoked (if isStaticMethod md \<and> jn_raises env call \<or> \<not> jn_detach env then EXIT_FAILURE else EXIT_SUCCESS) False, st')) \<and>
     js_calls st' = js_calls st @ [command_java_call md cls meth (js_obj st) (command_args (descriptor md) argv out err inp)] \<and>
     js_passed st' = js_passed st @ out # (if descriptor md = react_invoke_descriptor then [the err, the inp] else []) \<and>
     js_closed st' = js_closed st @ (if descriptor md = react_invoke_descriptor then [] else held [err, inp])"
proof -
  let ?st = "st\<lparr>js_fds := [Some out, err, inp]\<rparr>"
  let ?ob = "case js_obj st of None \<Rightarrow> cls | Some c \<Rightarrow> c"
  let ?st1 = "if isStaticMethod md then ?st else ?st\<lparr>js_obj := Some ?ob\<rparr>"
  let ?obj = "if isStaticMethod md then None else Some ?ob"
  have "invoke_body env md (Some argv) pss ?st = entry_call env md cls meth (Some argv) (Some (tl argv)) pss ?obj ?st1"
    by (simp add: invoke_body_ok [OF ok name] Let_def)
  also have "\<dots> = stream_call env md cls meth (Some (tl argv)) ?obj ?st1"
    using kind by (auto simp: entry_call_def)
  finally have b: "invoke_body env md (Some argv) pss ?st = stream_call env md cls meth (Some (tl argv)) ?obj ?st1" .
  have k: "whichMethod md \<noteq> WM_GET_STATUS" using kind by auto
  have f: "js_fds ?st1 = [Some out, err, inp]" by simp
  have "isStaticMethod md \<or> ?obj = Some ?ob" by simp
  note sc = stream_call_ok [OF ok f desc this k]
  let ?call = "command_java_call md cls meth (js_obj st) (command_args (descriptor md) argv out err inp)"
  let ?react = "descriptor md = react_invoke_descriptor"
  let ?st2 = "(if isStaticMethod md then id else describe_exception env md (jn_raises env ?call)) (?st1\<lparr>js_calls := js_calls st @ [?call], js_fds := (if ?react then [None, None, None] else [None, err, inp]),
      js_passed := js_passed st @ out # (if ?react then [the err, the inp] else [])\<rparr>)"
  obtain st2 where e: "invoke_body env md (Some argv) pss ?st = (Inr (isStaticMethod md \<and> jn_raises env ?call), st2)"
    and st2: "st2 = ?st2" unfolding b sc by (cases "isStaticMethod md") (simp_all add: command_java_call_def Let_def split del: if_split)
  have s: "js_calls st2 = js_calls st @ [?call]" "js_closed st2 = js_closed st"
    "js_fds st2 = (if ?react then [None, None, None] else [None, err, inp])"
    "js_passed st2 = js_passed st @ out # (if ?react then [the err, the inp] else [])"
    unfolding st2 by (cases "isStaticMethod md"; simp split del: if_split)+
  show ?thesis
    unfolding invoke_java_method_Inr [OF e] Let_def prod.inject invoked.inject
    by (intro exI conjI, rule refl, rule refl, rule refl) (simp_all add: close_held_def s held_def)
qed

text \<open>
  C16. When the JVM finds everything, a command is one call of its method with the arguments of
  the command line and a stream for each descriptor its signature asks for; the descriptors it
  does not ask for are closed. The exception of a static (child) command makes the invocation
  fail; that of an instance (supervisor) command is only described.
\<close>

theorem sub_command_invoked:
  assumes ok: "jni_ok env" and name: "fullMethodName md = cls @ CHR ''/'' # meth" "CHR ''/'' \<notin> set meth" "meth \<noteq> []"
    and kind: "whichMethod md = WM_CHILD_DO_CMD \<or> whichMethod md = WM_SUPERVISOR_DO_CMD"
    and desc: "descriptor md = std_invoke_descriptor \<or> descriptor md = react_invoke_descriptor \<and> err \<noteq> None \<and> inp \<noteq> None"
  shows "\<exists>st'. invoke_java_method env md cmd [Some out, err, inp] (Some argv) pss st =
       (let call = command_java_call md cls meth (js_obj st) (command_args (descriptor md) argv out err inp) in
        (Invoked (if isStaticMethod md \<and> jn_raises env call \<or> \<not> jn_detach env then EXIT_FAILURE else EXIT_SUCCESS) False, st')) \<and>
     js_calls st' = js_calls st @ [command_java_call md cls meth (js_obj st) (command_args (descriptor md) argv out err inp)] \<and>
     js_passed st' = js_passed st @ out # (if descriptor md = react_invoke_descriptor then [the err, the inp] else []) \<and>
     js_closed st' = js_closed st @ (if descriptor md = react_invoke_descriptor then [] else held [err, inp])"
  by (rule command_invoked [OF assms])

text \<open>A JVM that finds everything and whose methods do not raise.\<close>

definition example_jvm :: jni_env where
  "example_jvm = \<lparr>jn_attach = True, jn_detach = True, jn_class = (\<lambda>_. True), jn_method = (\<lambda>_ _ _ _. True), jn_field = True,
     jn_new = (\<lambda>_. True), jn_reflect = (\<lambda>_ _. True), jn_raises = (\<lambda>_. False), jn_describe = [],
     jn_dispatch = (\<lambda>_. ([], [], \<lparr>di_systemClassPath = [], di_mainEntryPoint = None, di_supervisorCommands = [],
       di_childWorkerCommands = []\<rparr>)),
     jn_pg_size = 4096, jn_progname = ''app'', jn_level = INFO, jn_pid = 12, jn_parent_pid = 10\<rparr>"

definition example_jstate :: jstate where
  "example_jstate = \<lparr>js_obj = None, js_calls = [], js_fds = [], js_passed = [], js_closed = [], js_shm = None, js_errors = []\<rparr>"

definition example_method :: method_descriptor where
  "example_method = methodDescriptor ''app/Main/run'' react_invoke_descriptor True WM_CHILD_DO_CMD"

lemma jni_ok_example: "jni_ok example_jvm"
  by (simp add: jni_ok_def example_jvm_def)

lemma example_facts:
  "isStaticMethod example_method" "descriptor example_method = react_invoke_descriptor"
  "whichMethod example_method = WM_CHILD_DO_CMD" "fullMethodName example_method = ''app/Main'' @ CHR ''/'' # ''run''"
  "jn_raises example_jvm c = False" "jn_detach example_jvm" "js_passed example_jstate = []" "js_closed example_jstate = []"
  by (simp_all add: example_method_def methodDescriptor_def example_jvm_def example_jstate_def)

theorem sub_command_invoked_witness:
  "case invoke_java_method example_jvm example_method [] [Some 5, Some 6, Some 7] (Some [''uds'', ''RUN'', ''a'']) None example_jstate of
     (r, st') \<Rightarrow> r = Invoked EXIT_SUCCESS False \<and> js_passed st' = [5, 6, 7] \<and> js_closed st' = []"
proof -
  have "CHR ''/'' \<notin> set ''run''" "''run'' \<noteq> []" by simp_all
  from sub_command_invoked [OF jni_ok_example example_facts(4) this, of "Some 6" "Some 7" "[]" 5 "[''uds'', ''RUN'', ''a'']" None
      example_jstate]
  show ?thesis unfolding example_facts Let_def by (auto simp: example_facts)
qed

theorem invoke_java_method_effects_witness:
  "case invoke_java_method example_jvm example_method [] [Some 5, Some 6, Some 7] (Some [''uds'', ''RUN'', ''a'']) None example_jstate of
     (Invoked rc quit, st') \<Rightarrow> mset (js_passed st' @ js_closed st') = {#5, 6, 7#} | _ \<Rightarrow> True"
  using invoke_java_method_effects [where env = example_jvm and md = example_method and cmd = "[]" and a = "Some 5"
      and b = "Some 6" and c = "Some 7" and argv = "Some [''uds'', ''RUN'', ''a'']" and pss = None and st = example_jstate]
  by (auto simp: example_facts split: prod.splits invoked.splits)

end
