(* ===== verification/JvmOptions.thy ===== *)
theory JvmOptions
  imports SessionState
begin

text \<open>
  The JVM command line of \<open>createjvm.cpp\<close>: the class path, the merge of overriding options,
  and the options array given to \<open>JNI_CreateJavaVM\<close>. An \<open>argv\<close> array is a list of optional
  strings, \<open>None\<close> the null pointer. The message of a failed parse is given without the text of
  \<open>poptStrerror\<close> at its end.
\<close>

section \<open>The class path\<close>

definition USER_CLASSPATH :: string where "USER_CLASSPATH = ''.''"
definition jvm_classpath_optn_str :: string where "jvm_classpath_optn_str = ''-Djava.class.path=''"
definition set_cwd_optn :: string where "set_cwd_optn = ''-Duser.dir=''"

abbreviation base_optns :: nat where "base_optns \<equiv> 3"

definition get_java_classpath :: "string \<Rightarrow> string" where
  \<comment> \<open>the argument is the environment's class path\<close>
  "get_java_classpath java_classpath =
     (let user_classpath = USER_CLASSPATH; classpath = java_classpath;
          is_classpath_empty = (classpath = [] \<or> hd classpath = NUL);
          is_user_classpath_empty = (user_classpath = [] \<or> hd user_classpath = NUL);
          classpath = (if \<not> is_classpath_empty \<and> \<not> is_user_classpath_empty \<and> hd classpath \<noteq> hd user_classpath
                       then user_classpath @ [PATH_SEPARATOR] @ classpath else classpath)
      in jvm_classpath_optn_str @ (if is_classpath_empty then user_classpath else classpath))"

section \<open>consolidate_jvm_options\<close>

definition char_set :: string where "char_set = ''=:0123456789''"

definition option_prefix :: "string \<Rightarrow> string" where
  \<comment> \<open>\<open>find_first_of\<close> and \<open>substr\<close>\<close>
  "option_prefix arg = takeWhile (\<lambda>c. c \<notin> set char_set) arg"

fun mark_duplicates :: "string set \<Rightarrow> string list \<Rightarrow> string option list \<times> nat" where
  \<comment> \<open>the first loop: the array with removed entries null, and \<open>removed_count\<close>\<close>
  "mark_duplicates seen [] = ([], 0)"
| "mark_duplicates seen (a # argv) =
     (let arg = option_prefix a in
      if arg \<in> seen then (let (r, n) = mark_duplicates seen argv in (None # r, n + 1))
      else (let (r, n) = mark_duplicates (insert arg seen) argv in (Some a # r, n)))"

function compact_loop :: "string option list \<Rightarrow> nat \<Rightarrow> nat \<Rightarrow> string option list" where
  \<comment> \<open>the second loop, which moves null entries to the end\<close>
  "compact_loop argv i j =
     (if i < length argv - 1 \<and> j < length argv then
        (if argv ! i = None then
           (if argv ! j \<noteq> None then compact_loop (argv[i := argv ! j, j := None]) (i + 1) (j + 1)
            else compact_loop argv i (j + 1))
         else compact_loop argv (i + 1) (j + 1))
      else argv)"
  by pat_completeness auto
termination
  by (relation "measure (\<lambda>(argv, i, j). length argv - j)") auto

declare compact_loop.simps [simp del]

definition consolidate_jvm_options :: "string list \<Rightarrow> bool \<times> nat \<times> string option list" where
  \<comment> \<open>the result, the new \<open>argc\<close> and the array\<close>
  "consolidate_jvm_options argv =
     (let argc = length argv in
      if argc < 2 then (False, argc, map Some argv)
      else
        (let (marked, removed_count) = mark_duplicates {} argv in
         if removed_count > 0 then (True, argc - removed_count, compact_loop marked 0 1)
         else (False, argc, marked)))"

section \<open>The options array\<close>

datatype vm_hook = No_hook | Jvm_exiting | Jvm_aborting

record vm_options =
  vo_options :: "(string option \<times> vm_hook) list" \<comment> \<open>\<open>JavaVMOption options[]\<close>\<close>
  vo_n :: nat
  vo_j :: nat
  vo_chdir :: "string list" \<comment> \<open>the directories passed to \<open>chdir\<close>\<close>

definition set_option_step :: "vm_options \<Rightarrow> string \<Rightarrow> vm_options" where
  "set_option_step st curr_arg =
     (let slot = vo_j st + base_optns;
          st = st\<lparr>vo_options := (vo_options st)[slot := (None, No_hook)]\<rparr> in
      if strneq curr_arg jvm_classpath_optn_str (length jvm_classpath_optn_str)
      then st\<lparr>vo_options := (vo_options st)[0 := (Some curr_arg, No_hook)]\<rparr>
      else if strneq curr_arg set_cwd_optn (length set_cwd_optn)
      then (if length curr_arg > length set_cwd_optn
            then st\<lparr>vo_chdir := vo_chdir st @ [drop (length set_cwd_optn) curr_arg]\<rparr> else st)
      else st\<lparr>vo_j := vo_j st + 1, vo_options := (vo_options st)[slot := (Some curr_arg, No_hook)], vo_n := vo_n st + 1\<rparr>)"

definition set_JavaVMOptions :: "string \<Rightarrow> string list \<Rightarrow> vm_options" where
  "set_JavaVMOptions java_classpath argv =
     (let options = replicate (length argv + base_optns) (None, No_hook);
          options = options[0 := (Some (get_java_classpath java_classpath), No_hook)];
          options = options[1 := (Some ''exit'', Jvm_exiting)];
          options = options[2 := (Some ''abort'', Jvm_aborting)]
      in foldl set_option_step \<lparr>vo_options = options, vo_n = base_optns, vo_j = 0, vo_chdir = []\<rparr> argv)"

section \<open>create_jvm\<close>

datatype create_jvm_error = Create_jvm_exception string

definition jvm_command_line :: "string \<Rightarrow> string \<Rightarrow> string" where
  "jvm_command_line jvm_override_optns jvm_cmd_line_args =
     (if jvm_override_optns \<noteq> [] then jvm_override_optns @ '' '' else []) @ jvm_cmd_line_args"

definition create_jvm_options ::
  "popt_parser \<Rightarrow> string \<Rightarrow> string \<Rightarrow> string \<Rightarrow> create_jvm_error + vm_options" where
  \<comment> \<open>\<open>create_jvm\<close> up to the call of \<open>JNI_CreateJavaVM\<close>\<close>
  "create_jvm_options popt java_classpath jvm_cmd_line_args jvm_override_optns =
     (case popt (jvm_command_line jvm_override_optns jvm_cmd_line_args) of
        None \<Rightarrow> Inl (Create_jvm_exception (format2str ''create_jvm() failed parsing Java JVM command line''))
      | Some argv \<Rightarrow>
          (let argv = (if length argv > 1
                       then (let (changed, argc, arr) = consolidate_jvm_options argv in map the (take argc arr))
                       else argv)
           in Inr (set_JavaVMOptions java_classpath argv)))"

definition create_jvm ::
  "popt_parser \<Rightarrow> (vm_options \<Rightarrow> int \<times> 'vm) \<Rightarrow> string \<Rightarrow> string \<Rightarrow> string \<Rightarrow> create_jvm_error + 'vm" where
  "create_jvm popt jni_create java_classpath jvm_cmd_line_args jvm_override_optns =
     bind_r (create_jvm_options popt java_classpath jvm_cmd_line_args jvm_override_optns) (\<lambda>opts.
       (let (res, vm) = jni_create opts in
        if res < 0 then Inl (Create_jvm_exception (format2str
          ''failed to obtain function JNI_CreateJavaVM() for creating JVM instance''))
        else Inr vm))"

section \<open>Merging keeps the first option of each prefix\<close>

fun first_of_prefix :: "string set \<Rightarrow> string list \<Rightarrow> string list" where
  \<comment> \<open>the specification: the options whose prefix has not occurred before\<close>
  "first_of_prefix seen [] = []"
| "first_of_prefix seen (a # argv) =
     (if option_prefix a \<in> seen then first_of_prefix seen argv
      else a # first_of_prefix (insert (option_prefix a) seen) argv)"

lemma mark_duplicates_spec:
  "mark_duplicates seen argv = (r, n) \<Longrightarrow>
     length r = length argv \<and> filter (\<lambda>x. x \<noteq> None) r = map Some (first_of_prefix seen argv) \<and>
     length (first_of_prefix seen argv) + n = length argv"
  by (induction seen argv arbitrary: r n rule: mark_duplicates.induct)
     (fastforce simp: Let_def split: if_splits prod.splits)+

definition nulls_last :: "'a option list \<Rightarrow> 'a option list" where
  "nulls_last xs = filter (\<lambda>x. x \<noteq> None) xs @ filter (\<lambda>x. x = None) xs"

lemma nulls_last_simps: "nulls_last (map Some a @ xs) = map Some a @ nulls_last xs"
  "nulls_last (replicate k None) = replicate k None"
  by (simp_all add: nulls_last_def filter_map comp_def)

lemma compact_loop_spec:
  "0 < k \<longrightarrow> x = None \<Longrightarrow>
     compact_loop (map Some a @ (x # replicate k None) @ rest) (length a) (length a + 1 + k) =
     nulls_last (map Some a @ (x # replicate k None) @ rest)"
proof (induction rest arbitrary: a x k)
  case Nil
  have "nulls_last (x # replicate k None) = x # replicate k None"
    using Nil by (cases x) (auto simp: nulls_last_def)
  then show ?case by (subst compact_loop.simps) (simp add: nulls_last_simps)
next
  case (Cons z rest)
  let ?argv = "map Some a @ (x # replicate k None) @ z # rest"
  have i: "?argv ! length a = x" by (simp add: nth_append)
  have j: "?argv ! (length a + 1 + k) = z" by (simp add: nth_append)
  have g: "length a < length ?argv - 1 \<and> length a + 1 + k < length ?argv" by simp
  show ?case
  proof (cases x)
    case (Some y)
    with Cons.prems have k: "k = 0" by simp
    have "compact_loop ?argv (length a) (length a + 1 + k) =
        compact_loop (map Some (a @ [y]) @ (z # replicate 0 None) @ rest) (length (a @ [y])) (length (a @ [y]) + 1 + 0)"
      by (subst compact_loop.simps) (use g i Some k in simp)
    also have "\<dots> = nulls_last (map Some (a @ [y]) @ (z # replicate 0 None) @ rest)" by (rule Cons.IH) simp
    finally show ?thesis using Some k by simp
  next
    case None
    show ?thesis
    proof (cases z)
      case (Some y)
      have up: "?argv[length a := Some y, length a + 1 + k := None] =
          map Some (a @ [y]) @ (None # replicate k None) @ rest"
        by (simp add: list_update_append replicate_app_Cons_same)
      have "compact_loop ?argv (length a) (length a + 1 + k) =
          compact_loop (?argv[length a := Some y, length a + 1 + k := None]) (length a + 1) (length a + 1 + k + 1)"
        by (subst compact_loop.simps) (use g i j None Some in \<open>simp del: list_update.simps\<close>)
      also have "\<dots> = compact_loop (map Some (a @ [y]) @ (None # replicate k None) @ rest)
          (length (a @ [y])) (length (a @ [y]) + 1 + k)"
        by (simp only: up) simp
      also have "\<dots> = nulls_last (map Some (a @ [y]) @ (None # replicate k None) @ rest)" by (rule Cons.IH) simp
      also have "\<dots> = nulls_last ?argv" using None Some by (simp add: nulls_last_def filter_map comp_def)
      finally show ?thesis .
    next
      case zNone: None
      have "compact_loop ?argv (length a) (length a + 1 + k) =
          compact_loop (map Some a @ (None # replicate (Suc k) None) @ rest) (length a) (length a + 1 + Suc k)"
        by (subst compact_loop.simps) (use g i j None zNone in \<open>simp add: replicate_app_Cons_same\<close>)
      also have "\<dots> = nulls_last (map Some a @ (None # replicate (Suc k) None) @ rest)" by (rule Cons.IH) simp
      finally show ?thesis using None zNone by (simp add: replicate_app_Cons_same)
    qed
  qed
qed

lemma compact_loop_nulls_last: "argv \<noteq> [] \<Longrightarrow> compact_loop argv 0 1 = nulls_last argv"
  using compact_loop_spec [of 0 "hd argv" "[]" "tl argv"] by (cases argv) auto

lemma consolidate_spec:
  "consolidate_jvm_options argv = (changed, argc, arr) \<Longrightarrow> 2 \<le> length argv \<Longrightarrow>
     map the (take argc arr) = first_of_prefix {} argv \<and> changed = (first_of_prefix {} argv \<noteq> argv)"
proof -
  assume c: "consolidate_jvm_options argv = (changed, argc, arr)" and l: "2 \<le> length argv"
  obtain r n where m: "mark_duplicates {} argv = (r, n)" by force
  note s = mark_duplicates_spec [OF m]
  show ?thesis
  proof (cases "0 < n")
    case True
    have "r \<noteq> []" using s l by auto
    then have a: "argc = length argv - n" "arr = nulls_last r" "changed"
      using True c l m s compact_loop_nulls_last [of r] by (auto simp: consolidate_jvm_options_def Let_def)
    have "length (first_of_prefix {} argv) = argc" using a(1) s by linarith
    then have "take argc arr = map Some (first_of_prefix {} argv)" using a(2) s by (simp add: nulls_last_def)
    moreover have "first_of_prefix {} argv \<noteq> argv" using True s by auto
    ultimately show ?thesis using a(3) by (simp add: comp_def)
  next
    case False
    then have a: "argc = length argv" "arr = r" "\<not> changed" using c l m by (auto simp: consolidate_jvm_options_def)
    have "length (filter (\<lambda>x. x \<noteq> None) r) = length r" using s False by simp
    then have "filter (\<lambda>x. x \<noteq> None) r = r" by (metis filter_id length_filter_less less_irrefl)
    then have "r = map Some (first_of_prefix {} argv)" using s by simp
    moreover have "first_of_prefix {} argv = argv"
    proof -
      have "length (first_of_prefix seen xs) = length xs \<Longrightarrow> first_of_prefix seen xs = xs" for seen xs
      proof (induction seen xs rule: first_of_prefix.induct)
        case (2 seen a xs)
        have "length (first_of_prefix seen xs) \<le> length xs"
          by (induction seen xs rule: first_of_prefix.induct) auto
        with 2 show ?case by (auto split: if_splits)
      qed simp
      then show ?thesis using s False by simp
    qed
    ultimately show ?thesis using a s by (simp add: comp_def)
  qed
qed



text \<open>
  The colon is one of the characters a prefix ends at, so that of any number of options
  starting with \<open>-XX:\<close> only the first survives: different HotSpot settings displace each other.
\<close>

theorem consolidate_drops_XX:
  assumes "consolidate_jvm_options ((''-XX:'' @ a) # argv) = (changed, argc, arr)" and "argv \<noteq> []"
  shows "''-XX:'' @ b \<notin> set (tl (map the (take argc arr)))"
proof -
  have p: "option_prefix (''-XX:'' @ x) = ''-XX''" for x by (simp add: option_prefix_def char_set_def)
  have d: "''-XX'' \<in> seen \<Longrightarrow> ''-XX:'' @ b \<notin> set (first_of_prefix seen xs)" for seen xs
    by (induction seen xs rule: first_of_prefix.induct) (use p [of b] in auto)
  have "2 \<le> length ((''-XX:'' @ a) # argv)" using assms(2) by (cases argv) auto
  then have "map the (take argc arr) = first_of_prefix {} ((''-XX:'' @ a) # argv)"
    using consolidate_spec [OF assms(1)] by blast
  also have "\<dots> = (''-XX:'' @ a) # first_of_prefix {''-XX''} argv" using p [of a] by simp
  finally show ?thesis using d [of "{''-XX''}" argv] by simp
qed

theorem consolidate_drops_XX_witness:
  "''-XX:MaxGCPauseMillis=9'' \<notin>
     (case consolidate_jvm_options [''-XX:+UseG1GC'', ''-XX:MaxGCPauseMillis=9''] of (c, argc, arr) \<Rightarrow>
        set (tl (map the (take argc arr))))"
  using consolidate_drops_XX [of "''+UseG1GC''" "[''-XX:MaxGCPauseMillis=9'']" _ _ _ "''MaxGCPauseMillis=9''"]
  by (simp split: prod.splits)

section \<open>The options the JVM is created with\<close>

definition is_cp :: "string \<Rightarrow> bool" where
  "is_cp a = strneq a jvm_classpath_optn_str (length jvm_classpath_optn_str)"

definition is_cwd :: "string \<Rightarrow> bool" where
  "is_cwd a = (\<not> is_cp a \<and> strneq a set_cwd_optn (length set_cwd_optn))"

definition plain :: "string list \<Rightarrow> string list" where
  "plain argv = filter (\<lambda>a. \<not> is_cp a \<and> \<not> is_cwd a) argv"

definition last_cp :: "string \<Rightarrow> string list \<Rightarrow> string" where
  "last_cp d argv = (if filter is_cp argv = [] then d else last (filter is_cp argv))"

lemma set_options_loop:
  "vo_options st = (Some cp, No_hook) # e1 # e2 # map (\<lambda>a. (Some a, No_hook)) done @ rest \<Longrightarrow> length argv \<le> length rest \<Longrightarrow>
   vo_j st = length done \<Longrightarrow> vo_n st = length done + base_optns \<Longrightarrow>
   \<exists>tail. vo_options (foldl set_option_step st argv) =
       (Some (last_cp cp argv), No_hook) # e1 # e2 # map (\<lambda>a. (Some a, No_hook)) (done @ plain argv) @ tail \<and>
     vo_n (foldl set_option_step st argv) = length (done @ plain argv) + base_optns \<and>
     vo_chdir (foldl set_option_step st argv) =
       vo_chdir st @ map (drop (length set_cwd_optn)) (filter (\<lambda>a. is_cwd a \<and> length a > length set_cwd_optn) argv)"
proof (induction argv arbitrary: st cp "done" rest)
  case Nil
  then show ?case by (auto simp: plain_def last_cp_def)
next
  case (Cons a argv)
  obtain r rest' where rest: "rest = r # rest'" using Cons.prems(2) by (cases rest) auto
  have slot: "(vo_options st)[vo_j st + base_optns := x] =
      (Some cp, No_hook) # e1 # e2 # map (\<lambda>a. (Some a, No_hook)) done @ x # rest'" for x
    using Cons.prems by (simp add: rest numeral_3_eq_3 list_update_append)
  let ?st = "set_option_step st a"
  consider "is_cp a" | "is_cwd a" | "\<not> is_cp a" "\<not> is_cwd a" by blast
  then show ?case
  proof cases
    case 1
    have o: "vo_options ?st = (Some a, No_hook) # e1 # e2 # map (\<lambda>a. (Some a, No_hook)) done @ (None, No_hook) # rest'"
    proof -
      have "vo_options ?st = (vo_options st)[vo_j st + base_optns := (None, No_hook), 0 := (Some a, No_hook)]"
        using 1 by (simp add: set_option_step_def is_cp_def Let_def)
      also have "\<dots> = (Some a, No_hook) # e1 # e2 # map (\<lambda>a. (Some a, No_hook)) done @ (None, No_hook) # rest'"
        by (simp only: slot) simp
      finally show ?thesis .
    qed
    have "\<not> is_cwd a" using 1 by (simp add: is_cwd_def)
    with Cons.IH [OF o] Cons.prems 1 rest show ?thesis
      by (auto simp: set_option_step_def is_cp_def plain_def last_cp_def Let_def)
  next
    case 2
    have o: "vo_options ?st = (Some cp, No_hook) # e1 # e2 # map (\<lambda>a. (Some a, No_hook)) done @ (None, No_hook) # rest'"
    proof -
      have "vo_options ?st = (vo_options st)[vo_j st + base_optns := (None, No_hook)]"
        using 2 by (simp add: set_option_step_def is_cp_def is_cwd_def Let_def)
      then show ?thesis by (simp only: slot)
    qed
    with Cons.IH [OF o] Cons.prems 2 rest show ?thesis
      by (auto simp: set_option_step_def is_cp_def is_cwd_def plain_def last_cp_def Let_def)
  next
    case 3
    have o: "vo_options ?st = (Some cp, No_hook) # e1 # e2 # map (\<lambda>a. (Some a, No_hook)) (done @ [a]) @ rest'"
    proof -
      have "vo_options ?st = (vo_options st)[vo_j st + base_optns := (None, No_hook), vo_j st + base_optns := (Some a, No_hook)]"
        using 3 by (simp add: set_option_step_def is_cp_def is_cwd_def Let_def)
      then have "vo_options ?st = (vo_options st)[vo_j st + base_optns := (Some a, No_hook)]"
        by (simp only: list_update_overwrite)
      also have "\<dots> = (Some cp, No_hook) # e1 # e2 # map (\<lambda>a. (Some a, No_hook)) done @ (Some a, No_hook) # rest'"
        by (rule slot)
      finally show ?thesis by simp
    qed
    with Cons.IH [OF o] Cons.prems 3 rest show ?thesis
      by (auto simp: set_option_step_def is_cp_def is_cwd_def plain_def last_cp_def Let_def)
  qed
qed

lemma set_JavaVMOptions_eq:
  "\<exists>tail. vo_options (set_JavaVMOptions cp argv) =
       (Some (last_cp (get_java_classpath cp) argv), No_hook) # (Some ''exit'', Jvm_exiting) # (Some ''abort'', Jvm_aborting) #
       map (\<lambda>a. (Some a, No_hook)) (plain argv) @ tail \<and>
     vo_n (set_JavaVMOptions cp argv) = length (plain argv) + base_optns \<and>
     vo_chdir (set_JavaVMOptions cp argv) =
       map (drop (length set_cwd_optn)) (filter (\<lambda>a. is_cwd a \<and> length a > length set_cwd_optn) argv)"
  using set_options_loop [of "\<lparr>vo_options = (Some (get_java_classpath cp), No_hook) # (Some ''exit'', Jvm_exiting) #
      (Some ''abort'', Jvm_aborting) # replicate (length argv) (None, No_hook), vo_n = base_optns, vo_j = 0, vo_chdir = []\<rparr>"
      "get_java_classpath cp" "(Some ''exit'', Jvm_exiting)" "(Some ''abort'', Jvm_aborting)" "[]"
      "replicate (length argv) (None, No_hook)" argv]
  by (simp add: set_JavaVMOptions_def Let_def numeral_3_eq_3)

text \<open>
  The JVM gets exactly these options: the last class path option, or the environment's,
  first; the exit and abort hooks; then the remaining options in their order. Options that set
  the working directory are not passed on but executed, each with its directory, and the
  number of options announced is the number of entries filled.
\<close>

theorem jvm_options_passed:
  "take (vo_n (set_JavaVMOptions cp argv)) (vo_options (set_JavaVMOptions cp argv)) =
     (Some (last_cp (get_java_classpath cp) argv), No_hook) # (Some ''exit'', Jvm_exiting) # (Some ''abort'', Jvm_aborting) #
     map (\<lambda>a. (Some a, No_hook)) (plain argv) \<and>
   vo_n (set_JavaVMOptions cp argv) = length (plain argv) + base_optns \<and>
   vo_chdir (set_JavaVMOptions cp argv) =
     map (drop (length set_cwd_optn)) (filter (\<lambda>a. is_cwd a \<and> length a > length set_cwd_optn) argv)"
  using set_JavaVMOptions_eq [of cp argv] by (auto simp: numeral_3_eq_3)

end
