(* ===== verification/Commands.thy ===== *)
theory Commands
  imports InvokeJava LaunchProgram JvmOptions
begin

text \<open>
  What happens to a command message in the process that runs it: the functions of \<open>spartan.cpp\<close>
  that parse the message, open the response pipes and call Java, the handler of the supervisor
  process and the part of the launcher's handler that runs in the forked child, the notifications
  the two processes exchange, and the answer to a status request. \<open>poptParseArgvString\<close> and the
  creation of the JVM are parameters. A thread that an exception leaves ends the process
  (\<open>std::terminate\<close>).
\<close>

section \<open>Outcomes\<close>

datatype outcome =
    Rc int
  | Throws launch_error
  | Exits \<comment> \<open>\<open>_exit\<close>\<close>
  | Bad_access

record worker =
  wk_sys :: sys
  wk_jvm :: jstate
  wk_log :: "(logging_level \<times> string) list" \<comment> \<open>level and fixed part of what the handlers log as ERR or WARN\<close>

fun outcome_of :: "invoked \<Rightarrow> outcome" where
  "outcome_of (Invoked rc quit) = Rc rc"
| "outcome_of Exits_process = Exits"
| "outcome_of Crashes = Bad_access"

definition note_log :: "logging_level \<Rightarrow> string \<Rightarrow> worker \<Rightarrow> worker" where
  "note_log level text w = w\<lparr>wk_log := wk_log w @ [(level, text)]\<rparr>"

definition run_java :: "jni_env \<Rightarrow> method_descriptor \<Rightarrow> string \<Rightarrow> nat option list \<Rightarrow> string list option \<Rightarrow> worker \<Rightarrow> outcome \<times> worker" where
  \<comment> \<open>\<open>invoke_java_method\<close> with the descriptors it closes closed in the process\<close>
  "run_java jvm md cmd fds argv w =
     (let (r, js) = invoke_java_method jvm md cmd fds argv None (wk_jvm w);
          closed = drop (length (js_closed (wk_jvm w))) (js_closed js)
      in (outcome_of r, w\<lparr>wk_jvm := js, wk_sys := fold close_fd closed (wk_sys w)\<rparr>))"

abbreviation no_fds :: "nat option list" where "no_fds \<equiv> [None, None, None]"

section \<open>Running a command\<close>

definition icompare :: "string \<Rightarrow> string \<Rightarrow> bool" where
  "icompare a b = (if length a = length b then list_all2 (\<lambda>x y. tolower x = tolower y) b a else False)"

definition parse_extended_invoke_option :: "string \<Rightarrow> bool option" where
  \<comment> \<open>\<open>None\<close> when there is nothing behind the equals sign, and \<open>strcmp\<close> gets null\<close>
  "parse_extended_invoke_option extended_invoke_cmd =
     (if strneq extended_invoke_cmd EXTENDED_INVOKE_CMD (length EXTENDED_INVOKE_CMD) then
        (case strtok_r ''='' extended_invoke_cmd of
           None \<Rightarrow> None
         | Some (t, save) \<Rightarrow> map_option (\<lambda>(val, save). val = ''true'') (strtok_r ''='' save))
      else Some False)"

definition open_response_fds :: "bool \<Rightarrow> string \<Rightarrow> nat option list act" where
  "open_response_fds is_extended_invoke uds_socket_name =
     (if is_extended_invoke then
        bind_s (open_react_anon_pipes uds_socket_name) (\<lambda>(rsp, err, inp) s. (Inr [Some rsp, Some err, Some inp], s))
      else bind_s (open_write_anon_pipe uds_socket_name) (\<lambda>fd s. (Inr [Some fd, None, None], s)))"

definition parse_cmd_line :: "popt_parser \<Rightarrow> string \<Rightarrow> worker \<Rightarrow> (string list \<times> int) \<times> worker" where
  \<comment> \<open>the words and \<open>rc\<close>; the words of a line that could not be parsed are not used\<close>
  "parse_cmd_line popt cmd_line w =
     (case popt cmd_line of
        None \<Rightarrow> (([], EXIT_FAILURE), note_log ERR ''Failed parsing command line'' w)
      | Some argv_cmd_line \<Rightarrow> ((argv_cmd_line, EXIT_SUCCESS), w))"

definition core_invoke_command :: "popt_parser \<Rightarrow> jni_env \<Rightarrow> string \<Rightarrow> method_descriptor \<Rightarrow> string \<Rightarrow> worker \<Rightarrow> outcome \<times> worker" where
  \<comment> \<open>the last argument of the descriptor is \<open>cmd_cstr()\<close>\<close>
  "core_invoke_command popt jvmp msg_arg method_desc cmd w =
     (let ((argv_cmd_line, rc), w) = parse_cmd_line popt msg_arg w in
      if rc \<noteq> EXIT_SUCCESS then (Rc rc, w)
      else if length argv_cmd_line < 3 then
        (Rc EXIT_FAILURE, note_log ERR ''invalid command line - insufficient arguments'' w)
      else
        (case parse_extended_invoke_option (argv_cmd_line ! 0) of
           None \<Rightarrow> (Bad_access, w)
         | Some extended \<Rightarrow>
             (let is_extended_invoke = (extended \<or> descriptor method_desc = react_invoke_descriptor) in
              case open_response_fds is_extended_invoke (argv_cmd_line ! 1) (wk_sys w) of
                (Inl e, s) \<Rightarrow> (Throws e, w\<lparr>wk_sys := s\<rparr>)
              | (Inr fds_array, s) \<Rightarrow>
                  run_java jvmp method_desc cmd fds_array (Some (tl argv_cmd_line)) (w\<lparr>wk_sys := s\<rparr>))))"

definition invoke_java_supervisor_command ::
  "popt_parser \<Rightarrow> jni_env \<Rightarrow> string \<Rightarrow> method_descriptor \<Rightarrow> string \<Rightarrow> worker \<Rightarrow> outcome \<times> worker" where
  [simp]: "invoke_java_supervisor_command popt jvmp msg_arg md cmd w = core_invoke_command popt jvmp msg_arg md cmd w"

definition invoke_child_processor_command ::
  "popt_parser \<Rightarrow> jni_env \<Rightarrow> string \<Rightarrow> method_descriptor \<Rightarrow> string \<Rightarrow> worker \<Rightarrow> outcome \<times> worker" where
  [simp]: "invoke_child_processor_command popt jvmp msg_arg md cmd w = core_invoke_command popt jvmp msg_arg md cmd w"

definition invoke_child_process_action ::
  "(string \<Rightarrow> create_jvm_error + jni_env) \<Rightarrow> jni_env option \<Rightarrow> string \<Rightarrow> (jni_env \<Rightarrow> worker \<Rightarrow> outcome \<times> worker) \<Rightarrow> worker
   \<Rightarrow> outcome \<times> worker" where
  \<comment> \<open>the JVM of the session, or a new one (\<open>mk_jvm\<close> is \<open>create_jvm\<close> with all but its last argument);
      exceptions become the exit code\<close>
  "invoke_child_process_action mk_jvm held_jvm jvm_override_optns action w =
     (let guard = (\<lambda>(r, w). case r of Throws e \<Rightarrow> (Rc EXIT_FAILURE, note_log ERR ''child process terminating'' w) | _ \<Rightarrow> (r, w)) in
      case held_jvm of
        Some jvm \<Rightarrow> guard (action jvm w)
      | None \<Rightarrow>
          (case mk_jvm jvm_override_optns of
             Inl e \<Rightarrow> (Rc EXIT_FAILURE, note_log ERR ''child process terminating'' w)
           | Inr jvm \<Rightarrow> guard (action jvm w)))"

section \<open>The child process\<close>

definition remove_quotes :: "string \<Rightarrow> string" where
  "remove_quotes s = filter (\<lambda>c. c \<noteq> DQUOTE) s"

definition third_token :: "string \<Rightarrow> string option" where
  "third_token msg =
     (case strtok_r '' '' msg of
        None \<Rightarrow> None
      | Some (t1, save) \<Rightarrow>
          (case strtok_r '' '' save of
             None \<Rightarrow> None
           | Some (t2, save) \<Rightarrow> map_option fst (strtok_r '' '' save)))"

definition launcher_cmd :: "string \<Rightarrow> string option" where
  \<comment> \<open>\<open>None\<close>: a std::string from the null pointer\<close>
  "launcher_cmd msg = map_option remove_quotes (third_token msg)"

definition child_method :: "session_state \<Rightarrow> string \<Rightarrow> method_descriptor \<times> string \<times> string" where
  \<comment> \<open>the descriptor of the command, its \<open>cmd_cstr()\<close> and its JVM options\<close>
  "child_method shm_session cmd =
     (let default = (spartanChildProcessorEntryPoint shm_session, [], []) in
      case spSpartanChildProcessorCommands shm_session of
        None \<Rightarrow> default
      | Some cmds \<Rightarrow>
          (case find (\<lambda>m. icompare (command m) cmd) cmds of
             None \<Rightarrow> default
           | Some m \<Rightarrow> (method_descriptor.truncate m, command m, jvmOptionsCommandLine m)))"

definition child_process ::
  "popt_parser \<Rightarrow> (string \<Rightarrow> create_jvm_error + jni_env) \<Rightarrow> session_state \<Rightarrow> string \<Rightarrow> string \<Rightarrow> worker \<Rightarrow> outcome \<times> worker" where
  \<comment> \<open>what a forked child does with a message and its command: the outcome is the exit code\<close>
  "child_process popt mk_jvm shm_session cmd msg w =
     (case child_method shm_session cmd of (md, cmd_cstr, jvm_override_optns) \<Rightarrow>
        invoke_child_process_action mk_jvm None jvm_override_optns
          (\<lambda>jvm w. if \<not> md_empty md then invoke_child_processor_command popt jvm msg md cmd_cstr w
                   else (Rc EXIT_FAILURE, note_log ERR ''no Java method defined to handle command line'' w)) w)"

section \<open>Notifications\<close>

definition child_notify_msg :: "int \<Rightarrow> string \<Rightarrow> string" where
  \<comment> \<open>the message of \<open>supervisor_child_processor_notify\<close>\<close>
  "child_notify_msg child_pid command_line =
     do_msg_fmt 256 (CHILD_PID_NOTIFY_CMD @ '' '' @ show_int child_pid @ '' '' @ command_line)"

definition completion_notify_msg :: "int \<Rightarrow> string" where
  "completion_notify_msg pid = do_msg_fmt 64 (CHILD_PID_COMPLETION_NOTIFY_CMD @ '' '' @ show_int pid)"

definition invoke_java_child_processor_notify :: "string \<Rightarrow> string \<Rightarrow> jni_env \<Rightarrow> method_descriptor \<Rightarrow> worker \<Rightarrow> outcome \<times> worker" where
  "invoke_java_child_processor_notify child_pid command_line jvmp md w =
     run_java jvmp md [] no_fds (Some [child_pid, command_line]) w"

definition invoke_java_child_processor_completion_notify :: "string \<Rightarrow> jni_env \<Rightarrow> method_descriptor \<Rightarrow> worker \<Rightarrow> outcome \<times> worker" where
  "invoke_java_child_processor_completion_notify child_pid jvmp md w = run_java jvmp md [] no_fds (Some [child_pid]) w"

section \<open>The supervisor process\<close>

definition check_errcode :: "string \<Rightarrow> outcome \<times> worker \<Rightarrow> outcome \<times> worker" where
  \<comment> \<open>a failure is logged, and the handler returns\<close>
  "check_errcode text rw =
     (case rw of (Rc ec, w) \<Rightarrow> (Rc EXIT_SUCCESS, if ec \<noteq> EXIT_SUCCESS then note_log ERR text w else w) | _ \<Rightarrow> rw)"

definition after_token :: "string \<Rightarrow> string \<Rightarrow> string option" where
  \<comment> \<open>the C string one past the end of the token that begins the text; \<open>None\<close> where that is past the
      end of the message\<close>
  "after_token s token =
     (let rest = drop (length token) (dropWhile (\<lambda>c. c = CHR '' '') s) in if rest = [] then None else Some (tl rest))"

definition handle_child_notify :: "session_state \<Rightarrow> jni_env \<Rightarrow> string \<Rightarrow> worker \<Rightarrow> outcome \<times> worker" where
  "handle_child_notify shm_session jvmp save w =
     (case strtok_r '' '' save of
        None \<Rightarrow> (Bad_access, w)
      | Some (pid, save) \<Rightarrow>
          (case strtok_r '' '' save of
             None \<Rightarrow> (Bad_access, w)
           | Some (uds_socket_name, _) \<Rightarrow>
               (case after_token save uds_socket_name of
                  None \<Rightarrow> (Bad_access, w)
                | Some cmd_line \<Rightarrow>
                    (let md = spartanChildNotifyEntryPoint shm_session in
                     if \<not> md_empty md then
                       check_errcode ''invoke_java_child_processor_notify() did not complete successfully''
                         (invoke_java_child_processor_notify pid cmd_line jvmp md w)
                     else (Rc EXIT_SUCCESS, note_log WARN ''no Java method defined to handle command'' w)))))"

definition handle_completion_notify :: "session_state \<Rightarrow> jni_env \<Rightarrow> string \<Rightarrow> worker \<Rightarrow> outcome \<times> worker" where
  "handle_completion_notify shm_session jvmp save w =
     (let md = spartanChildCompletionNotifyEntryPoint shm_session in
      case strtok_r '' '' save of
        None \<Rightarrow> if \<not> md_empty md then (Bad_access, w) else (Rc EXIT_SUCCESS, note_log WARN ''no Java method defined to handle command'' w)
      | Some (pid, _) \<Rightarrow>
          (if \<not> md_empty md then
             check_errcode ''invoke_java_child_processor_completion_notify() did not complete successfully''
               (invoke_java_child_processor_completion_notify pid jvmp md w)
           else (Rc EXIT_SUCCESS, note_log WARN ''no Java method defined to handle command'' w)))"

definition supervisor_method :: "session_state \<Rightarrow> string option \<Rightarrow> (method_descriptor \<times> string) option" where
  \<comment> \<open>the entry of the command, or the default entry point when it is set\<close>
  "supervisor_method shm_session cmd_token =
     (let md = spartanSupervisorEntryPoint shm_session;
          default = (if \<not> md_empty md then Some (md, []) else None) in
      case (cmd_token, spSpartanSupervisorCommands shm_session) of
        (Some cmd_str, Some cmds) \<Rightarrow>
          (case find (\<lambda>m. icompare (command m) cmd_str) cmds of
             None \<Rightarrow> default
           | Some m \<Rightarrow> Some (method_descriptor.truncate m, command m))
      | _ \<Rightarrow> default)"

definition handle_supervisor_command :: "popt_parser \<Rightarrow> session_state \<Rightarrow> jni_env \<Rightarrow> string \<Rightarrow> worker \<Rightarrow> outcome \<times> worker" where
  "handle_supervisor_command popt shm_session jvmp msg w =
     (case supervisor_method shm_session (map_option remove_quotes (third_token msg)) of
        Some (md, cmd_cstr) \<Rightarrow>
          check_errcode ''invoke_java_supervisor_command() did not complete command successfully''
            (invoke_java_supervisor_command popt jvmp msg md cmd_cstr w)
      | None \<Rightarrow> (Rc EXIT_SUCCESS, note_log WARN ''no Java method defined to handle command line'' w))"

definition handle_supervisor_msg :: "popt_parser \<Rightarrow> session_state \<Rightarrow> jni_env \<Rightarrow> string \<Rightarrow> worker \<Rightarrow> outcome \<times> worker" where
  "handle_supervisor_msg popt shm_session jvmp msg w =
     (case strtok_r '' '' msg of
        None \<Rightarrow> (Bad_access, w)
      | Some (cmd, save) \<Rightarrow>
          (if strneq cmd CHILD_PID_NOTIFY_CMD (length CHILD_PID_NOTIFY_CMD) then handle_child_notify shm_session jvmp save w
           else if strneq cmd CHILD_PID_COMPLETION_NOTIFY_CMD (length CHILD_PID_COMPLETION_NOTIFY_CMD) then
             handle_completion_notify shm_session jvmp save w
           else handle_supervisor_command popt shm_session jvmp msg w))"

definition supervisor_status_response :: "string \<Rightarrow> jni_env \<Rightarrow> method_descriptor \<Rightarrow> worker \<Rightarrow> outcome \<times> worker" where
  \<comment> \<open>on a thread of its own\<close>
  "supervisor_status_response uds_socket_name jvmp meth_desc w =
     (case open_write_anon_pipe uds_socket_name (wk_sys w) of
        (Inl e, s) \<Rightarrow> (Throws e, w\<lparr>wk_sys := s\<rparr>)
      | (Inr fd, s) \<Rightarrow> run_java jvmp meth_desc [] [Some fd, None, None] None (w\<lparr>wk_sys := s\<rparr>))"

definition ends_process :: "outcome \<Rightarrow> bool" where
  \<comment> \<open>what leaves a thread of the supervisor: an uncaught exception, \<open>_exit\<close> or a bad access\<close>
  "ends_process r = (case r of Rc rc \<Rightarrow> False | _ \<Rightarrow> True)"

section \<open>Messages and their words\<close>

text \<open>
  The documented behaviour of \<open>poptParseArgvString\<close> this development relies on: words in double
  quotes, without quotes or backslashes in them, come back as they are. And the message a client
  sends for a command.
\<close>

definition plain_word :: "string \<Rightarrow> bool" where
  "plain_word a = (a \<noteq> [] \<and> DQUOTE \<notin> set a \<and> CHR 0x5C \<notin> set a \<and> NUL \<notin> set a)"

definition popt_unquotes :: "popt_parser \<Rightarrow> bool" where
  "popt_unquotes popt = (\<forall>ws. ws \<noteq> [] \<and> list_all plain_word ws \<longrightarrow> popt (unwords (map quoted ws)) = Some ws)"

definition command_msg :: "bool \<Rightarrow> string \<Rightarrow> string list \<Rightarrow> string" where
  "command_msg ext uds args = unwords (map quoted (extended_invoke_arg ext # uds # args))"

text \<open>A parser for words in double quotes, to show that the hypothesis can hold.\<close>

function dquoted_words :: popt_parser where
  "dquoted_words s =
     (case dropWhile (\<lambda>c. c = CHR '' '') s of
        [] \<Rightarrow> Some []
      | c # t \<Rightarrow>
          (if c = DQUOTE then map_option ((#) (takeWhile (\<lambda>c. c \<noteq> DQUOTE) t)) (dquoted_words (drop 1 (dropWhile (\<lambda>c. c \<noteq> DQUOTE) t)))
           else None))"
  by pat_completeness auto
termination
proof (relation "measure length")
  fix s c t
  assume d: "dropWhile (\<lambda>c. c = CHR '' '') s = c # t"
  have "length (drop 1 (dropWhile (\<lambda>c. c \<noteq> DQUOTE) t)) \<le> length t"
    using length_dropWhile_le [of "\<lambda>c. c \<noteq> DQUOTE" t] by simp
  also have "length t < length s" using d length_dropWhile_le [of "\<lambda>c. c = CHR '' ''" s] by simp
  finally show "(drop 1 (dropWhile (\<lambda>c. c \<noteq> DQUOTE) t), s) \<in> measure length" by simp
qed simp

declare dquoted_words.simps [simp del]

lemma popt_unquotes_example: "popt_unquotes dquoted_words"
proof -
  have n: "dquoted_words [] = Some []" by (simp add: dquoted_words.simps)
  have sp: "dquoted_words (CHR '' '' # s) = dquoted_words s" for s
    by (subst (1 2) dquoted_words.simps) simp
  have w: "dquoted_words (quoted a @ s) = map_option ((#) a) (dquoted_words s)" if "plain_word a" for a s
    using that by (subst dquoted_words.simps) (simp add: quoted_def plain_word_def)
  have "dquoted_words (unwords (map quoted ws)) = Some ws" if "list_all plain_word ws" for ws
    using that
  proof (induction ws rule: unwords.induct)
    case (2 a)
    then show ?case using w [of a "[]"] by (simp add: n)
  next
    case (3 a b as)
    then show ?case by (simp add: w sp)
  qed (simp add: n)
  then show ?thesis by (simp add: popt_unquotes_def)
qed

lemma strtok_unwords:
  "t \<noteq> [] \<Longrightarrow> CHR '' '' \<notin> set t \<Longrightarrow> strtok_r '' '' (unwords (t # ts)) = Some (t, unwords ts)"
  by (cases ts) (simp_all add: strtok_r_token strtok_r_last)

lemma quoted_ne [simp]: "quoted a \<noteq> []"
  by (simp add: quoted_def)

lemma quoted_space: "CHR '' '' \<in> set (quoted a) \<longleftrightarrow> CHR '' '' \<in> set a"
  by (simp add: quoted_def)

lemma remove_quotes_quoted: "plain_word a \<Longrightarrow> remove_quotes (quoted a) = a"
  unfolding remove_quotes_def quoted_def plain_word_def by (auto intro: filter_id)

lemma extended_arg_plain: "plain_word (extended_invoke_arg ext)" "CHR '' '' \<notin> set (extended_invoke_arg ext)"
  by (simp_all add: plain_word_def extended_invoke_arg_def EXTENDED_INVOKE_CMD_def)

lemma parse_extended: "parse_extended_invoke_option (extended_invoke_arg ext) = Some ext"
proof -
  have "parse_extended_invoke_option (extended_invoke_arg b) = Some b" if "b \<in> {True, False}" for b
    by (rule bspec [OF _ that]) code_simp
  then show ?thesis by simp
qed

lemma third_token_msg:
  assumes "CHR '' '' \<notin> set uds" and "CHR '' '' \<notin> set cmd"
  shows "third_token (command_msg ext uds (cmd # args)) = Some (quoted cmd)"
  unfolding command_msg_def list.map
  using assms extended_arg_plain(2)
  by (simp add: third_token_def strtok_unwords quoted_space del: unwords.simps)

lemma launcher_cmd_msg:
  assumes "CHR '' '' \<notin> set uds" and "CHR '' '' \<notin> set cmd" and "plain_word cmd"
  shows "launcher_cmd (command_msg ext uds (cmd # args)) = Some cmd"
  using assms by (simp add: launcher_cmd_def third_token_msg remove_quotes_quoted)

lemma popt_msg:
  assumes "popt_unquotes popt" and "list_all plain_word (uds # args)"
  shows "popt (command_msg ext uds args) = Some (extended_invoke_arg ext # uds # args)"
  using assms extended_arg_plain(1) unfolding command_msg_def popt_unquotes_def by (metis list.pred_inject(2) list.distinct(1))

section \<open>A command in a child process\<close>

lemma core_invoke_command_eq:
  assumes "popt_unquotes popt" and "list_all plain_word (uds # cmd # args)"
  shows "core_invoke_command popt jvmp (command_msg ext uds (cmd # args)) md c w =
     (case open_response_fds (ext \<or> descriptor md = react_invoke_descriptor) uds (wk_sys w) of
        (Inl e, s) \<Rightarrow> (Throws e, w\<lparr>wk_sys := s\<rparr>)
      | (Inr fds, s) \<Rightarrow> run_java jvmp md c fds (Some (uds # cmd # args)) (w\<lparr>wk_sys := s\<rparr>))"
  by (simp add: core_invoke_command_def parse_cmd_line_def popt_msg [OF assms] parse_extended Let_def del: list.map) (simp only: list.sel)

lemma open_response_fds_3: "open_response_fds ext uds s = (Inr fds, s') \<Longrightarrow> \<exists>out err inp. fds = [Some out, err, inp] \<and> (ext \<longrightarrow> err \<noteq> None \<and> inp \<noteq> None)"
  by (auto simp: open_response_fds_def bind_s_Inr split: if_splits)

lemma child_command_call:
  assumes popt: "popt_unquotes popt" "list_all plain_word (uds # cmd # args)"
    and meth: "child_method ss cmd = (md, c, opts)" and jvm: "mk_jvm opts = Inr jvm" "jni_ok jvm" "jn_detach jvm" "\<And>c. \<not> jn_raises jvm c"
    and name: "fullMethodName md = cls @ CHR ''/'' # meth" "CHR ''/'' \<notin> set meth" "meth \<noteq> []"
    and kind: "whichMethod md = WM_CHILD_DO_CMD" "isStaticMethod md"
    and desc: "descriptor md = (if react then react_invoke_descriptor else std_invoke_descriptor)"
    and opened: "open_response_fds (ext \<or> react) uds (wk_sys w) = (Inr [Some out, err, inp], s)"
  shows "\<exists>w'. child_process popt mk_jvm ss cmd (command_msg ext uds (cmd # args)) w = (Rc EXIT_SUCCESS, w') \<and>
     js_calls (wk_jvm w') = js_calls (wk_jvm w) @
       [Static_call cls meth (descriptor md) (command_args (descriptor md) (uds # cmd # args) out err inp)] \<and>
     wk_sys w' = fold close_fd (if react then [] else held [err, inp]) s"
proof -
  have r: "descriptor md = react_invoke_descriptor \<longleftrightarrow> react" using desc descriptors_differ by auto
  have ne: "\<not> md_empty md" using name by (simp add: md_empty_def)
  have err: "err \<noteq> None \<and> inp \<noteq> None" if react using open_response_fds_3 [OF opened] that by auto
  have k: "whichMethod md = WM_CHILD_DO_CMD \<or> whichMethod md = WM_SUPERVISOR_DO_CMD" using kind by simp
  have d: "descriptor md = std_invoke_descriptor \<or> descriptor md = react_invoke_descriptor \<and> err \<noteq> None \<and> inp \<noteq> None"
    using desc err by (cases react) auto
  from command_invoked [OF jvm(2) name k d, of c out "uds # cmd # args" None "wk_jvm (w\<lparr>wk_sys := s\<rparr>)"] jvm(3,4) kind
  obtain st' where st': "invoke_java_method jvm md c [Some out, err, inp] (Some (uds # cmd # args)) None (wk_jvm w) =
      (Invoked EXIT_SUCCESS False, st')"
    and calls: "js_calls st' = js_calls (wk_jvm w) @
      [Static_call cls meth (descriptor md) (command_args (descriptor md) (uds # cmd # args) out err inp)]"
    and fds: "js_closed st' = js_closed (wk_jvm w) @ (if react then [] else held [err, inp])"
    by (auto simp: command_java_call_def Let_def r)
  have c: "core_invoke_command popt jvm (command_msg ext uds (cmd # args)) md c w = (Rc EXIT_SUCCESS,
      w\<lparr>wk_sys := fold close_fd (if react then [] else held [err, inp]) s, wk_jvm := st'\<rparr>)"
    unfolding core_invoke_command_eq [OF popt] r by (simp add: opened run_java_def st' fds Let_def)
  show ?thesis
    using calls by (simp add: child_process_def meth invoke_child_process_action_def jvm(1) ne c Let_def)
qed

section \<open>A client that is gone\<close>

lemma open_write_unbound:
  assumes "sock_addr n = Some a" and "os_bound (fst s) a = None" and "fd_at (pr_fds (snd s)) 0 = Some y"
  shows "\<exists>e s'. open_write_anon_pipe n s = (Inl e, s')"
proof -
  obtain os p os' p' r where s: "s = (os, p)" "open_write_anon_pipe n (os, p) = (r, (os', p'))"
    by (metis prod.exhaust)
  show ?thesis
  proof (cases r)
    case (Inr wr)
    with open_write_result [of n os p wr os' p' y] s assms show ?thesis by auto
  qed (use s in auto)
qed

lemma open_react_unbound:
  assumes "sock_addr n = Some a" and "os_bound (fst s) a = None" and "fd_at (pr_fds (snd s)) 0 = Some y"
  shows "\<exists>e s'. open_react_anon_pipes n s = (Inl e, s')"
proof -
  obtain os p os' p' r where s: "s = (os, p)" "open_react_anon_pipes n (os, p) = (r, (os', p'))"
    by (metis prod.exhaust)
  show ?thesis
  proof (cases r)
    case (Inr wr)
    obtain w e r' where "wr = (w, e, r')" by (metis prod.exhaust)
    with Inr open_react_result [of n os p w e r' os' p' y] s assms show ?thesis by auto
  qed (use s in auto)
qed

lemma open_response_unbound:
  assumes "sock_addr n = Some a" and "os_bound (fst s) a = None" and "fd_at (pr_fds (snd s)) 0 = Some y"
  shows "\<exists>e s'. open_response_fds ext n s = (Inl e, s')"
  using open_write_unbound [OF assms] open_react_unbound [OF assms] by (auto simp: open_response_fds_def bind_s_def)

lemma not_notify:
  "strneq (quoted (extended_invoke_arg ext)) CHILD_PID_NOTIFY_CMD (length CHILD_PID_NOTIFY_CMD) = False"
  "strneq (quoted (extended_invoke_arg ext)) CHILD_PID_COMPLETION_NOTIFY_CMD (length CHILD_PID_COMPLETION_NOTIFY_CMD) = False"
  by (simp_all add: strneq_def quoted_def CHILD_PID_NOTIFY_CMD_def CHILD_PID_COMPLETION_NOTIFY_CMD_def)

lemma handle_command_msg:
  assumes "CHR '' '' \<notin> set uds" and "CHR '' '' \<notin> set cmd" and "plain_word cmd"
    and "supervisor_method ss (Some cmd) = Some (md, c)"
  shows "handle_supervisor_msg popt ss jvmp (command_msg ext uds (cmd # args)) w =
     check_errcode ''invoke_java_supervisor_command() did not complete command successfully''
       (core_invoke_command popt jvmp (command_msg ext uds (cmd # args)) md c w)"
proof -
  have "strtok_r '' '' (command_msg ext uds (cmd # args)) =
      Some (quoted (extended_invoke_arg ext), unwords (map quoted (uds # cmd # args)))"
    using extended_arg_plain(2) by (simp add: command_msg_def strtok_unwords quoted_space del: unwords.simps)
  then show ?thesis
    using assms by (simp add: handle_supervisor_msg_def not_notify handle_supervisor_command_def third_token_msg remove_quotes_quoted)
qed


text \<open>A session with one annotated command of each kind, and a supervisor process.\<close>

definition example_session :: session_state where
  "example_session = ss_default\<lparr>
     spartanChildNotifyEntryPoint := methodDescriptor ''app/Main/notify'' ''(ILjava/lang/String;)V'' False WM_CHILD_NOTIFY,
     spSpartanSupervisorCommands := Some [methodDescriptorCmd ''app/Main/list'' std_invoke_descriptor ''LIST'' [] False WM_SUPERVISOR_DO_CMD],
     spSpartanChildProcessorCommands := Some [methodDescriptorCmd ''app/Main/run'' std_invoke_descriptor ''RUN'' ''-Xmx1g'' True WM_CHILD_DO_CMD]\<rparr>"

definition example_worker :: worker where
  "example_worker = \<lparr>wk_sys = (asked, runner), wk_jvm = example_jstate, wk_log = []\<rparr>"


section \<open>Notifications\<close>

lemma jint_of_show_int: "- (2 ^ 31) \<le> pid \<Longrightarrow> pid < 2 ^ 31 \<Longrightarrow> jint_of (show_int pid) = pid"
  by (simp add: jint_of_def strtol10_show_int int_word_sint)

lemma show_int_token: "CHR '' '' \<notin> set (show_int i)" "NUL \<notin> set (show_int i)"
  using show_int_nonspace [of _ i] by (force simp: isspace_def Let_def)+

lemma set_unwords_quoted: "set (unwords (map quoted ws)) \<subseteq> {CHR '' '', DQUOTE} \<union> \<Union> (set ` set ws)"
  by (induction ws rule: unwords.induct) (auto simp: quoted_def)

lemma command_msg_cstr: "list_all plain_word (uds # args) \<Longrightarrow> NUL \<notin> set (command_msg ext uds args)"
  using set_unwords_quoted [of "extended_invoke_arg ext # uds # args"] extended_arg_plain(1) [of ext]
  by (auto simp: command_msg_def plain_word_def list_all_iff)

lemma child_notify_msg_eq:
  assumes "list_all plain_word (uds # args)"
  shows "child_notify_msg pid (command_msg ext uds args) =
     unwords (CHILD_PID_NOTIFY_CMD # show_int pid # map quoted (extended_invoke_arg ext # uds # args))"
proof -
  have "is_cstr (CHILD_PID_NOTIFY_CMD @ '' '' @ show_int pid @ '' '' @ command_msg ext uds args)"
    using command_msg_cstr [OF assms] show_int_token(2) by (auto simp: is_cstr_def CHILD_PID_NOTIFY_CMD_def)
  then show ?thesis by (simp add: child_notify_msg_def command_msg_def unwords_append)
qed

text \<open>
  The notification that the launcher sends of a new child process makes the supervisor call
  the Java method for it once, with the pid of the child; the command line it is given begins
  with the name of the caller's socket, since the word the code drops is the kind of invocation.
\<close>

theorem child_notification:
  assumes "jni_ok jvm" and "md = spartanChildNotifyEntryPoint ss"
    and name: "fullMethodName md = cls @ CHR ''/'' # meth" "CHR ''/'' \<notin> set meth" "meth \<noteq> []"
    and kind: "whichMethod md = WM_CHILD_NOTIFY" "\<not> isStaticMethod md"
    and words: "list_all plain_word (uds # args)" and pid: "- (2 ^ 31) \<le> pid" "pid < 2 ^ 31"
  shows "\<exists>w'. handle_supervisor_msg popt ss jvm (child_notify_msg pid (command_msg ext uds args)) w = (Rc EXIT_SUCCESS, w') \<and>
     js_calls (wk_jvm w') = js_calls (wk_jvm w) @
       [Instance_call (receiver md cls (js_obj (wk_jvm w))) cls meth (descriptor md)
          [Jint pid, Jstring (unwords (map quoted (uds # args)))]]"
proof -
  define rest where "rest = unwords (map quoted (uds # args))"
  let ?ext = "quoted (extended_invoke_arg ext)"
  have t1: "strtok_r '' '' (child_notify_msg pid (command_msg ext uds args)) =
      Some (CHILD_PID_NOTIFY_CMD, unwords (show_int pid # ?ext # map quoted (uds # args)))"
    unfolding child_notify_msg_eq [OF words] list.map
    by (rule strtok_unwords) (simp_all add: CHILD_PID_NOTIFY_CMD_def)
  have t2: "strtok_r '' '' (unwords (show_int pid # ?ext # map quoted (uds # args))) =
      Some (show_int pid, unwords (?ext # map quoted (uds # args)))"
    by (rule strtok_unwords) (simp_all add: show_int_token)
  have t3: "strtok_r '' '' (unwords (?ext # map quoted (uds # args))) = Some (?ext, rest)"
    unfolding rest_def by (rule strtok_unwords) (simp_all add: quoted_space extended_arg_plain(2))
  have t4: "after_token (unwords (?ext # map quoted (uds # args))) ?ext = Some rest"
    by (simp add: after_token_def quoted_def rest_def)
  obtain rc st' where j: "invoke_java_method jvm md [] no_fds (Some [show_int pid, rest]) None (wk_jvm w) = (Invoked rc False, st')"
    and calls: "js_calls st' = js_calls (wk_jvm w) @ [Instance_call (receiver md cls (js_obj (wk_jvm w))) cls meth (descriptor md)
      [Jint (jint_of (show_int pid)), Jstring rest]]" and cl: "js_closed st' = js_closed (wk_jvm w)"
    using notify_invoked [OF assms(1) name kind] by blast
  have ne: "\<not> md_empty md" using name by (simp add: md_empty_def)
  have n: "strneq CHILD_PID_NOTIFY_CMD CHILD_PID_NOTIFY_CMD (length CHILD_PID_NOTIFY_CMD)" by (simp add: strneq_def)
  show ?thesis
    using calls cl ne unfolding rest_def [symmetric]
    by (simp add: handle_supervisor_msg_def t1 n handle_child_notify_def t2 t3 t4 assms(2) [symmetric]
        invoke_java_child_processor_notify_def run_java_def j jint_of_show_int [OF pid] Let_def check_errcode_def note_log_def
        del: unwords.simps list.map)
qed

theorem child_notification_witness:
  "\<exists>w'. handle_supervisor_msg dquoted_words example_session example_jvm (child_notify_msg 77 (command_msg False ''/tmp/b'' [''run''])) example_worker =
     (Rc EXIT_SUCCESS, w') \<and>
   js_calls (wk_jvm w') = [Instance_call ''app/Main'' ''app/Main'' ''notify'' ''(ILjava/lang/String;)V''
     [Jint 77, Jstring (unwords (map quoted [''/tmp/b'', ''run'']))]]"
proof -
  let ?md = "spartanChildNotifyEntryPoint example_session"
  have a: "fullMethodName ?md = ''app/Main'' @ CHR ''/'' # ''notify''" "CHR ''/'' \<notin> set ''notify''" "''notify'' \<noteq> []"
    "whichMethod ?md = WM_CHILD_NOTIFY" "\<not> isStaticMethod ?md" "list_all plain_word [''/tmp/b'', ''run'']"
    and b: "descriptor ?md = ''(ILjava/lang/String;)V''" "js_obj (wk_jvm example_worker) = None" "js_calls (wk_jvm example_worker) = []"
    by (simp_all add: example_session_def methodDescriptor_def plain_word_def example_worker_def example_jstate_def)
  from child_notification [OF jni_ok_example refl a, of 77 dquoted_words False example_worker] show ?thesis
    unfolding b receiver_def by simp
qed

end
