(* ===== verification/Launcher.thy ===== *)
theory Launcher
  imports Commands
begin

text \<open>
  The work queue of \<open>supervisor()\<close> in \<open>spartan.cpp\<close>, which the launcher and the supervisor
  process both have, and the launcher as a state machine: the main thread puts messages into the
  queue, the dispatcher thread takes batches of them and forks a child process for each, and the
  third thread waits for children. A step is what a thread does while it holds the lock of the
  queue, or one message of a batch. Of the operating system the model has the process groups of
  the children.
\<close>

section \<open>The work queue\<close>

record dispatcher =
  ds_queue :: "string list" \<comment> \<open>\<open>dispatch_msg_queue\<close>\<close>
  ds_qready :: bool
  ds_count :: int \<comment> \<open>\<open>child_process_count\<close>\<close>
  ds_batch :: "string list" \<comment> \<open>what is left of \<open>msg_array_sp\<close>\<close>

definition en_queue_dispatch_msg :: "bool \<Rightarrow> string \<Rightarrow> 'a dispatcher_scheme \<Rightarrow> (bool \<times> int) \<times> 'a dispatcher_scheme" where
  \<comment> \<open>\<open>locked\<close>: the lock was obtained in time; the result says whether to go on, and the exit code\<close>
  "en_queue_dispatch_msg locked msg ds =
     (if locked then ((True, EXIT_SUCCESS), ds\<lparr>ds_queue := ds_queue ds @ [msg], ds_qready := True\<rparr>)
      else ((False, EXIT_FAILURE), ds))"

definition de_queue_count :: "int \<Rightarrow> int \<Rightarrow> nat \<Rightarrow> int" where
  \<comment> \<open>how many messages are taken when the last look at the count saw \<open>count_seen\<close>\<close>
  "de_queue_count child_max count_seen queue_size =
     (let count_headroom = child_max - count_seen; queue_count = int queue_size
      in if queue_count > count_headroom then count_headroom else queue_count)"

definition de_queue :: "int \<Rightarrow> int \<Rightarrow> 'a dispatcher_scheme \<Rightarrow> 'a dispatcher_scheme" where
  "de_queue child_max count_seen ds =
     (let n = de_queue_count child_max count_seen (length (ds_queue ds));
          ds = ds\<lparr>ds_qready := False, ds_batch := []\<rparr> in
      if n > 0 then
        ds\<lparr>ds_batch := take (nat n) (ds_queue ds), ds_queue := drop (nat n) (ds_queue ds), ds_count := ds_count ds + n\<rparr>
      else ds)"

definition child_process_completion :: "int \<Rightarrow> bool \<Rightarrow> 'a dispatcher_scheme \<Rightarrow> 'a dispatcher_scheme" where
  "child_process_completion child_max locked ds =
     (if locked then
        (let old = ds_count ds; ds = ds\<lparr>ds_count := old - 1\<rparr>
         in if old < child_max \<and> ds_queue ds \<noteq> [] then ds\<lparr>ds_qready := True\<rparr> else ds)
      else ds\<lparr>ds_count := ds_count ds - 1\<rparr>)"

section \<open>The launcher\<close>

record launcher = dispatcher +
  ln_pgrp :: int \<comment> \<open>the process group of the launcher itself\<close>
  ln_groups :: "(string \<times> int) list" \<comment> \<open>\<open>prcs_grps\<close>\<close>
  ln_procs :: "(int \<times> int) list" \<comment> \<open>the children not yet waited for, with their process groups\<close>
  ln_sent :: "string list" \<comment> \<open>what \<open>send_supervisor_mq_msg\<close> was given\<close>
  ln_jvm_down :: bool \<comment> \<open>\<open>jvm_shutting_down\<close>\<close>

definition launcher_start :: "int \<Rightarrow> int \<Rightarrow> launcher" where
  \<comment> \<open>after the fork of the process of Java's main method\<close>
  "launcher_start pgrp main_pid =
     \<lparr>ds_queue = [], ds_qready = False, ds_count = 1, ds_batch = [], ln_pgrp = pgrp, ln_groups = [],
      ln_procs = [(main_pid, pgrp)], ln_sent = [], ln_jvm_down = False\<rparr>"

definition setpgid :: "int \<Rightarrow> int \<Rightarrow> (int \<times> int) list \<Rightarrow> (int \<times> int) list" where
  \<comment> \<open>a process can be put into a group of its own or into one that has a member\<close>
  "setpgid pid pgid procs =
     (if pgid = pid \<or> pgid \<in> set (map snd procs) then map (\<lambda>(p, g). if p = pid then (p, pgid) else (p, g)) procs else procs)"

definition handle_launcher_msg :: "string \<Rightarrow> fork_result \<Rightarrow> launcher \<Rightarrow> launcher option" where
  \<comment> \<open>in the launcher itself; \<open>None\<close> is the std::string from the null pointer\<close>
  "handle_launcher_msg msg fork_rc ln =
     (case launcher_cmd msg of
        None \<Rightarrow> None
      | Some cmd \<Rightarrow>
          Some (case fork_rc of
             Fork_failed \<Rightarrow> ln
           | Forked pid \<Rightarrow>
               (let ln = ln\<lparr>ln_procs := ln_procs ln @ [(pid, ln_pgrp ln)]\<rparr>;
                    ln = (case map_of (ln_groups ln) cmd of
                            None \<Rightarrow> ln\<lparr>ln_procs := setpgid pid pid (ln_procs ln), ln_groups := ln_groups ln @ [(cmd, pid)]\<rparr>
                          | Some pgid \<Rightarrow> ln\<lparr>ln_procs := setpgid pid pgid (ln_procs ln)\<rparr>)
                in ln\<lparr>ln_sent := ln_sent ln @ [child_notify_msg pid msg]\<rparr>)))"

definition child_changed :: "int \<Rightarrow> bool \<Rightarrow> bool \<Rightarrow> int \<Rightarrow> launcher \<Rightarrow> launcher" where
  \<comment> \<open>\<open>waitid\<close> has returned for a child that ended (\<open>gone\<close>) or stopped\<close>
  "child_changed child_max locked gone pid ln =
     (let ln = (if gone then ln\<lparr>ln_procs := filter (\<lambda>(p, g). p \<noteq> pid) (ln_procs ln)\<rparr> else ln);
          ln = child_process_completion child_max locked ln in
      if \<not> ln_jvm_down ln then ln\<lparr>ln_sent := ln_sent ln @ [completion_notify_msg pid]\<rparr> else ln)"

subsection \<open>Its steps\<close>

datatype event =
    Receive string bool
  | Take int \<comment> \<open>with the count the dispatcher saw\<close>
  | Fork string fork_result
  | Skip string
  | Ended int bool
  | Stopped_child int bool

inductive launcher_step :: "int \<Rightarrow> launcher \<Rightarrow> event \<Rightarrow> launcher \<Rightarrow> bool" for child_max where
  receive: "snd (en_queue_dispatch_msg locked msg ln) = ln' \<Longrightarrow> launcher_step child_max ln (Receive msg locked) ln'"
| take: "ds_batch ln = [] \<Longrightarrow> ds_count ln \<le> count_seen \<Longrightarrow> de_queue child_max count_seen ln = ln' \<Longrightarrow>
    launcher_step child_max ln (Take count_seen) ln'"
| fork: "ds_batch ln = msg # msgs \<Longrightarrow> \<not> ln_jvm_down ln \<Longrightarrow> (case rc of Forked pid \<Rightarrow> pid \<notin> set (map fst (ln_procs ln)) | _ \<Rightarrow> True) \<Longrightarrow>
    handle_launcher_msg msg rc (ln\<lparr>ds_batch := msgs\<rparr>) = Some ln' \<Longrightarrow> launcher_step child_max ln (Fork msg rc) ln'"
| skip: "ds_batch ln = msg # msgs \<Longrightarrow> ln_jvm_down ln \<Longrightarrow> ln\<lparr>ds_batch := msgs\<rparr> = ln' \<Longrightarrow> launcher_step child_max ln (Skip msg) ln'"
| ended: "pid \<in> set (map fst (ln_procs ln)) \<Longrightarrow> child_changed child_max locked True pid ln = ln' \<Longrightarrow>
    launcher_step child_max ln (Ended pid locked) ln'"
| stopped: "pid \<in> set (map fst (ln_procs ln)) \<Longrightarrow> child_changed child_max locked False pid ln = ln' \<Longrightarrow>
    launcher_step child_max ln (Stopped_child pid locked) ln'"

inductive_cases launcher_stepE: "launcher_step child_max ln e ln'"

inductive_simps launcher_step_simps:
  "launcher_step child_max ln (Receive msg locked) ln'"
  "launcher_step child_max ln (Take count_seen) ln'"
  "launcher_step child_max ln (Fork msg rc) ln'"
  "launcher_step child_max ln (Skip msg) ln'"
  "launcher_step child_max ln (Ended pid locked) ln'"
  "launcher_step child_max ln (Stopped_child pid locked) ln'"

section \<open>What runs of the launcher keep\<close>

fun received :: "event list \<Rightarrow> string list" where
  "received [] = []"
| "received (Receive msg locked # es) = (if locked then msg # received es else received es)"
| "received (_ # es) = received es"

fun handled :: "event list \<Rightarrow> string list" where
  "handled [] = []"
| "handled (Fork msg rc # es) = msg # handled es"
| "handled (Skip msg # es) = msg # handled es"
| "handled (_ # es) = handled es"

fun lost :: "event list \<Rightarrow> nat" where
  \<comment> \<open>messages taken without a child process in the end\<close>
  "lost [] = 0"
| "lost (Fork msg Fork_failed # es) = Suc (lost es)"
| "lost (Skip msg # es) = Suc (lost es)"
| "lost (_ # es) = lost es"

fun stops :: "event list \<Rightarrow> nat" where
  "stops [] = 0"
| "stops (Stopped_child pid locked # es) = Suc (stops es)"
| "stops (_ # es) = stops es"

lemma events_append [simp]:
  "received (es @ fs) = received es @ received fs" "handled (es @ fs) = handled es @ handled fs"
  "lost (es @ fs) = lost es + lost fs" "stops (es @ fs) = stops es + stops fs"
proof -
  show "received (es @ fs) = received es @ received fs" by (induction es rule: received.induct) simp_all
  show "handled (es @ fs) = handled es @ handled fs" by (induction es rule: handled.induct) simp_all
  show "lost (es @ fs) = lost es + lost fs" by (induction es rule: lost.induct) simp_all
  show "stops (es @ fs) = stops es + stops fs" by (induction es rule: stops.induct) simp_all
qed

definition launcher_inv :: "int \<Rightarrow> event list \<Rightarrow> launcher \<Rightarrow> bool" where
  "launcher_inv child_max es ln =
     (ds_count ln + int (stops es) = int (length (ln_procs ln) + length (ds_batch ln) + lost es) \<and>
      ds_count ln \<le> max 1 child_max \<and> distinct (map fst (ln_procs ln)) \<and>
      received es = handled es @ ds_batch ln @ ds_queue ln)"

lemma setpgid_fst [simp]: "map fst (setpgid pid pgid procs) = map fst procs"
  by (auto simp: setpgid_def)

lemma setpgid_length [simp]: "length (setpgid pid pgid procs) = length procs"
  by (simp add: setpgid_def)

lemma handle_launcher_msg_dispatch:
  assumes "handle_launcher_msg msg rc ln = Some ln'"
  shows "dispatcher.truncate ln' = dispatcher.truncate ln" and "ln_jvm_down ln' = ln_jvm_down ln"
    and "map fst (ln_procs ln') = map fst (ln_procs ln) @ (case rc of Forked pid \<Rightarrow> [pid] | _ \<Rightarrow> [])"
  using assms by (auto simp: handle_launcher_msg_def dispatcher.truncate_def Let_def split: option.splits fork_result.splits)

lemma truncate_eq: "dispatcher.truncate a = dispatcher.truncate b \<longleftrightarrow>
   ds_queue a = ds_queue b \<and> ds_qready a = ds_qready b \<and> ds_count a = ds_count b \<and> ds_batch a = ds_batch b"
  by (auto simp: dispatcher.truncate_def)

lemma completion_simps [simp]:
  "ds_count (child_process_completion m locked ds) = ds_count ds - 1"
  "ds_queue (child_process_completion m locked ds) = ds_queue ds"
  "ds_batch (child_process_completion m locked ds) = ds_batch ds"
  "launcher.more (child_process_completion m locked ln) = launcher.more ln"
  "ln_procs (child_process_completion m locked ln) = ln_procs ln"
  "ln_jvm_down (child_process_completion m locked ln) = ln_jvm_down ln"
  "ln_sent (child_process_completion m locked ln) = ln_sent ln"
  "ln_groups (child_process_completion m locked ln) = ln_groups ln"
  "ln_pgrp (child_process_completion m locked ln) = ln_pgrp ln"
  by (auto simp: child_process_completion_def Let_def)

lemma child_changed_simps [simp]:
  "ds_count (child_changed m locked gone pid ln) = ds_count ln - 1"
  "ds_queue (child_changed m locked gone pid ln) = ds_queue ln"
  "ds_batch (child_changed m locked gone pid ln) = ds_batch ln"
  "ln_procs (child_changed m locked gone pid ln) = (if gone then filter (\<lambda>(p, g). p \<noteq> pid) (ln_procs ln) else ln_procs ln)"
  "ln_jvm_down (child_changed m locked gone pid ln) = ln_jvm_down ln"
  "ln_groups (child_changed m locked gone pid ln) = ln_groups ln"
  "ln_pgrp (child_changed m locked gone pid ln) = ln_pgrp ln"
  by (simp_all add: child_changed_def Let_def)

lemma length_filter_one:
  "distinct (map fst ps) \<Longrightarrow> pid \<in> set (map fst ps) \<Longrightarrow> Suc (length (filter (\<lambda>(p, g). p \<noteq> pid) ps)) = length ps"
proof (induction ps)
  case (Cons x ps)
  then show ?case
    by (cases "fst x = pid") (auto simp: case_prod_beta image_iff intro!: arg_cong [where f = length] filter_id)
qed simp

lemma distinct_filter_fst: "distinct (map fst ps) \<Longrightarrow> distinct (map fst (filter P ps))"
  by (simp add: distinct_map_filter)

lemma de_queue_simps:
  assumes "n = (if de_queue_count m seen (length (ds_queue ds)) > 0 then nat (de_queue_count m seen (length (ds_queue ds))) else 0)"
  shows "ds_queue (de_queue m seen ds) = drop n (ds_queue ds)" "ds_batch (de_queue m seen ds) = take n (ds_queue ds)"
    "ds_count (de_queue m seen ds) = ds_count ds + int n" "n \<le> length (ds_queue ds)" "0 < n \<longrightarrow> int n \<le> m - seen"
  using assms by (auto simp: de_queue_def de_queue_count_def Let_def)

lemma de_queue_launcher [simp]:
  "ln_procs (de_queue m seen ln) = ln_procs ln" "ln_jvm_down (de_queue m seen ln) = ln_jvm_down ln"
  by (simp_all add: de_queue_def Let_def)

interpretation launcher: transition_system "launcher_step m" "\<lambda>s. \<exists>pgrp pid. s = launcher_start pgrp pid" "launcher_inv m"
proof
  show "launcher_inv m [] s" if "\<exists>pgrp pid. s = launcher_start pgrp pid" for s
    using that by (auto simp: launcher_inv_def launcher_start_def)
next
  fix es s e t
  assume i: "launcher_inv m es s" and st: "launcher_step m s e t"
  from st show "launcher_inv m (es @ [e]) t"
  proof cases
    case (receive locked msg)
    with i show ?thesis by (auto simp: launcher_inv_def en_queue_dispatch_msg_def)
  next
    case (take count_seen)
    note d = de_queue_simps [OF refl, of m count_seen s]
    from i take d show ?thesis by (auto simp: launcher_inv_def)
  next
    case (fork msg msgs rc)
    note h = handle_launcher_msg_dispatch [OF fork(5)]
    have "length (ln_procs t) = length (ln_procs s) + (case rc of Forked pid \<Rightarrow> 1 | _ \<Rightarrow> 0)"
      using arg_cong [OF h(3), of length] by (simp split: fork_result.splits)
    with i fork h show ?thesis
      by (auto simp: launcher_inv_def truncate_eq split: fork_result.splits)
  next
    case (skip msg msgs)
    with i show ?thesis by (auto simp: launcher_inv_def)
  next
    case (ended pid locked)
    with i length_filter_one [of "ln_procs s" pid] show ?thesis
      by (auto simp: launcher_inv_def distinct_filter_fst)
  next
    case (stopped pid locked)
    with i show ?thesis by (auto simp: launcher_inv_def)
  qed
qed

lemma launcher_run_inv: "run (launcher_step m) (launcher_start pgrp pid) es ln \<Longrightarrow> launcher_inv m es ln"
  by (rule launcher.run_inv) auto


text \<open>
  C10. Commands are started in the order they arrived, each once: what the launcher has handled,
  has taken and has still in its queue is what it has received.
\<close>

theorem launcher_fifo:
  assumes "run (launcher_step m) (launcher_start pgrp main_pid) es ln"
  shows "received es = handled es @ ds_batch ln @ ds_queue ln"
  using launcher_run_inv [OF assms] by (simp add: launcher_inv_def)

section \<open>Every command can be started\<close>

text \<open>
  The events that need no luck: passes of the dispatcher, forks that succeed, and child processes
  that end, other than Java's main process.
\<close>

fun drains :: "int \<Rightarrow> event \<Rightarrow> bool" where
  "drains main_pid (Take seen) = True"
| "drains main_pid (Fork msg (Forked pid)) = True"
| "drains main_pid (Ended pid locked) = (pid \<noteq> main_pid)"
| "drains main_pid _ = False"

lemma drains_quiet: "list_all (drains p) fs \<Longrightarrow> received fs = [] \<and> lost fs = 0 \<and> stops fs = 0"
proof (induction fs)
  case (Cons e fs)
  then show ?case by (cases e; cases "case e of Fork m r \<Rightarrow> r | _ \<Rightarrow> Fork_failed") auto
qed simp

definition drainable :: "int \<Rightarrow> int \<Rightarrow> event list \<Rightarrow> launcher \<Rightarrow> bool" where
  "drainable m p es ln =
     (launcher_inv m es ln \<and> stops es = 0 \<and> 2 + int (lost es) \<le> m \<and> \<not> ln_jvm_down ln \<and>
      (\<forall>msg\<in>set (ds_batch ln @ ds_queue ln). launcher_cmd msg \<noteq> None) \<and> p \<in> set (map fst (ln_procs ln)))"

definition reaches :: "int \<Rightarrow> int \<Rightarrow> event list \<Rightarrow> launcher \<Rightarrow> (launcher \<Rightarrow> bool) \<Rightarrow> bool" where
  "reaches m p es ln Q =
     (\<exists>fs ln'. run (launcher_step m) ln fs ln' \<and> list_all (drains p) fs \<and> drainable m p (es @ fs) ln' \<and> Q ln')"

lemma reaches_refl: "drainable m p es ln \<Longrightarrow> Q ln \<Longrightarrow> reaches m p es ln Q"
  unfolding reaches_def by (intro exI [of _ "[]"] exI [of _ ln]) (simp add: run_nil)

lemma reaches_step:
  assumes "launcher_step m ln e ln'" and "drains p e" and "drainable m p (es @ [e]) ln'" and "reaches m p (es @ [e]) ln' Q"
  shows "reaches m p es ln Q"
proof -
  from assms(4) obtain fs ln2 where "run (launcher_step m) ln' fs ln2" "list_all (drains p) fs"
    "drainable m p ((es @ [e]) @ fs) ln2" "Q ln2" by (auto simp: reaches_def)
  then show ?thesis using assms(1,2) run_cons [of "launcher_step m" ln e ln' fs ln2]
    unfolding reaches_def by (intro exI [of _ "e # fs"] exI [of _ ln2]) simp
qed

lemma drainable_step:
  assumes "drainable m p es ln" and "launcher_step m ln e ln'" and "drains p e"
    and "ln_jvm_down ln' = ln_jvm_down ln" and "set (ds_batch ln' @ ds_queue ln') \<subseteq> set (ds_batch ln @ ds_queue ln)"
    and "p \<in> set (map fst (ln_procs ln'))"
  shows "drainable m p (es @ [e]) ln'"
  using assms launcher.step_inv [of m es ln e ln'] drains_quiet [of p "[e]"] by (auto simp: drainable_def)

lemma fork_step:
  assumes d: "drainable m p es ln" and b: "ds_batch ln = msg # msgs"
  shows "\<exists>pid ln'. launcher_step m ln (Fork msg (Forked pid)) ln' \<and> drainable m p (es @ [Fork msg (Forked pid)]) ln' \<and>
     ds_batch ln' = msgs \<and> ds_queue ln' = ds_queue ln"
proof -
  obtain pid where pid: "pid \<notin> set (map fst (ln_procs ln))"
    using ex_new_if_finite [OF infinite_UNIV_int, of "set (map fst (ln_procs ln))"] by auto
  obtain ln' where h: "handle_launcher_msg msg (Forked pid) (ln\<lparr>ds_batch := msgs\<rparr>) = Some ln'"
    using d b by (auto simp: drainable_def handle_launcher_msg_def split: option.splits)
  note k = handle_launcher_msg_dispatch [OF h, unfolded truncate_eq]
  have s: "launcher_step m ln (Fork msg (Forked pid)) ln'"
    using d b pid h by (auto simp: launcher_step_simps drainable_def)
  have "p \<in> set (map fst (ln_procs ln'))" unfolding k(3) using d by (simp add: drainable_def)
  with drainable_step [OF d s] k b show ?thesis using s by auto
qed

lemma drain_batch: "drainable m p es ln \<Longrightarrow> reaches m p es ln (\<lambda>ln'. ds_batch ln' = [] \<and> ds_queue ln' = ds_queue ln)"
proof (induction "ds_batch ln" arbitrary: es ln)
  case Nil
  then show ?case by (intro reaches_refl) simp_all
next
  case (Cons msg msgs)
  from fork_step [OF Cons.prems Cons.hyps(2) [symmetric]] obtain pid ln' where
      f: "launcher_step m ln (Fork msg (Forked pid)) ln'" "drainable m p (es @ [Fork msg (Forked pid)]) ln'"
      "ds_batch ln' = msgs" "ds_queue ln' = ds_queue ln" by auto
  from Cons.hyps(1) [OF f(3) [symmetric] f(2)] f show ?case by (intro reaches_step [OF f(1) _ f(2)]) simp_all
qed

lemma make_room:
  assumes d: "drainable m p es ln" and b: "ds_batch ln = []"
  shows "reaches m p es ln (\<lambda>ln'. ds_batch ln' = [] \<and> ds_queue ln' = ds_queue ln \<and> ds_count ln' < m)"
proof (cases "ds_count ln < m")
  case True
  with d b show ?thesis by (intro reaches_refl) simp_all
next
  case False
  with d b have "int (length (ln_procs ln)) \<ge> 2" and dis: "distinct (map fst (ln_procs ln))"
    by (auto simp: drainable_def launcher_inv_def)
  then obtain a b c where abc: "ln_procs ln = a # b # c"
    by (cases "ln_procs ln"; cases "tl (ln_procs ln)") auto
  define q where "q = (if fst a = p then fst b else fst a)"
  then have q: "q \<in> set (map fst (ln_procs ln))" "q \<noteq> p" using abc dis by auto
  let ?ln = "child_changed m True True q ln"
  have s: "launcher_step m ln (Ended q True) ?ln" using q by (simp add: launcher_step_simps)
  have "p \<in> set (map fst (ln_procs ?ln))" using d q by (auto simp: drainable_def image_iff)
  then have d': "drainable m p (es @ [Ended q True]) ?ln" using q by (intro drainable_step [OF d s]) auto
  have "ds_count ln \<le> m" using d by (auto simp: drainable_def launcher_inv_def)
  with b show ?thesis using q by (intro reaches_step [OF s _ d'] reaches_refl [OF d']) simp_all
qed

lemma take_step:
  assumes d: "drainable m p es ln" and b: "ds_batch ln = []" and c: "ds_count ln < m" and q: "ds_queue ln \<noteq> []"
  shows "\<exists>e ln'. launcher_step m ln e ln' \<and> drains p e \<and> drainable m p (es @ [e]) ln' \<and> length (ds_queue ln') < length (ds_queue ln)"
proof -
  let ?ln = "de_queue m (ds_count ln) ln"
  define n where "n = (if de_queue_count m (ds_count ln) (length (ds_queue ln)) > 0
      then nat (de_queue_count m (ds_count ln) (length (ds_queue ln))) else 0)"
  note t = de_queue_simps(1-5) [OF n_def]
  have n: "0 < n" using c q by (cases "ds_queue ln") (auto simp: n_def de_queue_count_def Let_def)
  have s: "launcher_step m ln (Take (ds_count ln)) ?ln" using b by (simp add: launcher_step_simps)
  have "set (ds_batch ?ln @ ds_queue ?ln) \<subseteq> set (ds_batch ln @ ds_queue ln)"
    using t by (auto dest: in_set_takeD in_set_dropD)
  then have "drainable m p (es @ [Take (ds_count ln)]) ?ln"
    using d by (intro drainable_step [OF d s]) (simp_all add: drainable_def)
  with s n q t show ?thesis by (intro exI [of _ "Take (ds_count ln)"] exI [of _ ?ln]) auto
qed

lemma reaches_trans:
  assumes "reaches m p es ln Q" and "\<And>fs ln'. drainable m p (es @ fs) ln' \<Longrightarrow> Q ln' \<Longrightarrow> reaches m p (es @ fs) ln' R"
  shows "reaches m p es ln R"
proof -
  from assms(1) obtain fs ln1 where 1: "run (launcher_step m) ln fs ln1" "list_all (drains p) fs" "drainable m p (es @ fs) ln1" "Q ln1"
    by (auto simp: reaches_def)
  from assms(2) [OF 1(3,4)] obtain gs ln2 where "run (launcher_step m) ln1 gs ln2" "list_all (drains p) gs"
    "drainable m p ((es @ fs) @ gs) ln2" "R ln2" by (auto simp: reaches_def)
  with 1 run_append [of "launcher_step m" ln1 gs ln2 ln fs] show ?thesis
    unfolding reaches_def by (intro exI [of _ "fs @ gs"] exI [of _ ln2]) simp
qed

lemma drain_queue: "drainable m p es ln \<Longrightarrow> reaches m p es ln (\<lambda>ln'. ds_batch ln' = [] \<and> ds_queue ln' = [])"
proof (induction "length (ds_queue ln)" arbitrary: es ln rule: less_induct)
  case less
  show ?case
  proof (rule reaches_trans [OF drain_batch [OF less.prems]])
    fix fs ln1
    assume d1: "drainable m p (es @ fs) ln1" and q1: "ds_batch ln1 = [] \<and> ds_queue ln1 = ds_queue ln"
    then have b1: "ds_batch ln1 = []" by simp
    show "reaches m p (es @ fs) ln1 (\<lambda>ln'. ds_batch ln' = [] \<and> ds_queue ln' = [])"
    proof (rule reaches_trans [OF make_room [OF d1 b1]])
      fix gs ln2
      assume d2: "drainable m p ((es @ fs) @ gs) ln2"
        and q2: "ds_batch ln2 = [] \<and> ds_queue ln2 = ds_queue ln1 \<and> ds_count ln2 < m"
      show "reaches m p ((es @ fs) @ gs) ln2 (\<lambda>ln'. ds_batch ln' = [] \<and> ds_queue ln' = [])"
      proof (cases "ds_queue ln2 = []")
        case True
        with d2 q2 show ?thesis by (intro reaches_refl) simp_all
      next
        case False
        with take_step [OF d2] q2 obtain e ln3 where
          3: "launcher_step m ln2 e ln3" "drains p e" "drainable m p (((es @ fs) @ gs) @ [e]) ln3"
          "length (ds_queue ln3) < length (ds_queue ln2)" by blast
        from less.hyps [OF _ 3(3)] 3 q1 q2 show ?thesis by (intro reaches_step [OF 3(1-3)]) simp
      qed
    qed
  qed
qed


section \<open>Executing runs\<close>

text \<open>The step relation as a function of the event, for evaluation.\<close>

definition launcher_next :: "int \<Rightarrow> launcher \<Rightarrow> event \<Rightarrow> launcher option" where
  "launcher_next m ln e =
     (case e of
        Receive msg locked \<Rightarrow> Some (snd (en_queue_dispatch_msg locked msg ln))
      | Take seen \<Rightarrow> if ds_batch ln = [] \<and> ds_count ln \<le> seen then Some (de_queue m seen ln) else None
      | Fork msg rc \<Rightarrow>
          (if ds_batch ln \<noteq> [] \<and> hd (ds_batch ln) = msg \<and> \<not> ln_jvm_down ln \<and>
              (case rc of Forked pid \<Rightarrow> pid \<notin> set (map fst (ln_procs ln)) | _ \<Rightarrow> True)
           then handle_launcher_msg msg rc (ln\<lparr>ds_batch := tl (ds_batch ln)\<rparr>) else None)
      | Skip msg \<Rightarrow>
          (if ds_batch ln \<noteq> [] \<and> hd (ds_batch ln) = msg \<and> ln_jvm_down ln then Some (ln\<lparr>ds_batch := tl (ds_batch ln)\<rparr>) else None)
      | Ended pid locked \<Rightarrow> if pid \<in> set (map fst (ln_procs ln)) then Some (child_changed m locked True pid ln) else None
      | Stopped_child pid locked \<Rightarrow>
          if pid \<in> set (map fst (ln_procs ln)) then Some (child_changed m locked False pid ln) else None)"

lemma launcher_next_step: "launcher_next m ln e = Some ln' \<longleftrightarrow> launcher_step m ln e ln'"
  by (cases e) (auto simp: launcher_next_def launcher_step_simps neq_Nil_conv split: if_splits)

fun launcher_exec :: "int \<Rightarrow> launcher \<Rightarrow> event list \<Rightarrow> launcher option" where
  "launcher_exec m ln [] = Some ln"
| "launcher_exec m ln (e # es) = (case launcher_next m ln e of None \<Rightarrow> None | Some ln \<Rightarrow> launcher_exec m ln es)"

lemma launcher_exec_run: "launcher_exec m ln es = Some ln' \<Longrightarrow> run (launcher_step m) ln es ln'"
  by (induction m ln es rule: launcher_exec.induct)
     (auto simp: launcher_next_step run_nil intro: run_cons split: option.splits)

definition example_msg :: "string \<Rightarrow> string" where
  "example_msg cmd = command_msg False ''u'' [cmd]"

lemma exec_obtains:
  assumes "(case launcher_exec m ln es of None \<Rightarrow> False | Some ln' \<Rightarrow> P ln')"
  obtains ln' where "run (launcher_step m) ln es ln'" and "P ln'"
  using assms by (auto split: option.splits intro: launcher_exec_run that)

lemma example_busy:
  "case launcher_exec 2 (launcher_start 10 12)
     [Receive (example_msg ''a'') True, Receive (example_msg ''b'') True, Take 1, Fork (example_msg ''a'') (Forked 20)] of
     None \<Rightarrow> False
   | Some ln \<Rightarrow> length (ln_procs ln) = 2 \<and> ds_batch ln = [] \<and> ds_queue ln = [example_msg ''b''] \<and> \<not> ln_jvm_down ln \<and>
       12 \<in> set (map fst (ln_procs ln)) \<and> launcher_cmd (example_msg ''b'') \<noteq> None"
  by code_simp


theorem launcher_fifo_witness:
  "\<exists>ln. run (launcher_step 2) (launcher_start 10 12)
     [Receive (example_msg ''a'') True, Receive (example_msg ''b'') True, Take 1, Fork (example_msg ''a'') (Forked 20)] ln \<and>
     [example_msg ''a'', example_msg ''b''] = example_msg ''a'' # ds_batch ln @ ds_queue ln"
proof -
  from exec_obtains [OF example_busy] obtain ln where r: "run (launcher_step 2) (launcher_start 10 12)
     [Receive (example_msg ''a'') True, Receive (example_msg ''b'') True, Take 1, Fork (example_msg ''a'') (Forked 20)] ln" by blast
  from launcher_fifo [OF r] r show ?thesis by auto
qed


text \<open>
  A child process that is only stopped is counted as one that has ended, so with stopped
  children more processes run than the maximum allows: here three with a maximum of two.
\<close>

theorem stopped_children_exceed_limit:
  "\<exists>es ln. run (launcher_step 2) (launcher_start 10 12) es ln \<and> stops es = 1 \<and> length (ln_procs ln) = 3"
proof -
  let ?es = "[Receive (example_msg ''a'') True, Receive (example_msg ''b'') True, Take 1, Fork (example_msg ''a'') (Forked 20),
      Stopped_child 20 True, Take 1, Fork (example_msg ''b'') (Forked 21)]"
  have "case launcher_exec 2 (launcher_start 10 12) ?es of None \<Rightarrow> False | Some ln \<Rightarrow> length (ln_procs ln) = 3" by code_simp
  from exec_obtains [OF this] obtain ln where "run (launcher_step 2) (launcher_start 10 12) ?es ln" "length (ln_procs ln) = 3" .
  then show ?thesis by (intro exI [of _ ?es] exI [of _ ln]) simp
qed

section \<open>Process groups\<close>

lemma map_of_regroup:
  "pid \<notin> set (map fst ps) \<Longrightarrow> map_of (map (\<lambda>(p, g). if p = pid then (p, x) else (p, g)) (ps @ [(pid, y)])) pid = Some x"
  by (induction ps) auto


lemma setpgid_new:
  assumes "pid \<notin> set (map fst ps)"
  shows "map_of (setpgid pid g (ps @ [(pid, y)])) pid = Some (if g = pid \<or> g \<in> set (map snd ps) then g else y)"
proof -
  have n: "map_of (ps @ [(pid, y)]) pid = Some y" using assms by (simp add: map_of_eq_None_iff map_add_Some_iff)
  show ?thesis
  proof (cases "g = pid \<or> g \<in> set (map snd ps)")
    case True
    then have "g = pid \<or> g \<in> set (map snd (ps @ [(pid, y)]))" by auto
    with True show ?thesis by (simp only: setpgid_def if_True map_of_regroup [OF assms])
  next
    case False
    then have "(g = pid \<or> g \<in> set (map snd (ps @ [(pid, y)]))) \<longleftrightarrow> g = y" by auto
    with False show ?thesis by (simp only: setpgid_def map_of_regroup [OF assms] n if_False split: if_split) simp
  qed
qed



end
