(* ===== verification/Supervisor.thy ===== *)
theory Supervisor
  imports Launcher
begin

text \<open>
  The rest of \<open>supervisor()\<close> in \<open>spartan.cpp\<close>: the fork that makes the launcher and the
  supervisor process, the message queue each opens for itself, the thread that starts Java's main
  method, the loop that receives messages, their dispatch in the two processes, the loop over
  \<open>waitid\<close>, and the cleanup at the end. The results of \<open>mq_timedreceive\<close> and \<open>waitid\<close> are
  lists, each result with what else the code sees at that time.
\<close>

section \<open>The two processes and their queues\<close>

datatype role = Launcher_process int | Supervisor_process jni_env

datatype forked_role = Started role string session_state | Start_failed int | Start_throws create_jvm_error

definition do_main_entry_fork ::
  "globals \<Rightarrow> fork_result \<Rightarrow> int \<Rightarrow> (session_state \<Rightarrow> create_jvm_error + jni_env) \<Rightarrow> session_state \<Rightarrow> forked_role" where
  \<comment> \<open>the queue each process is going to read; \<open>Forked 0\<close> is the return in the child\<close>
  "do_main_entry_fork g fork_rc own_pid mk_jvm session =
     (case fork_rc of
        Fork_failed \<Rightarrow> Start_failed EXIT_FAILURE
      | Forked pid \<Rightarrow>
          (if pid \<noteq> 0 then Started (Launcher_process pid) (g_launcher_queue g) session
           else
             (let session = session\<lparr>supervisor_pid := word_of_int own_pid\<rparr> in
              case mk_jvm session of
                Inl e \<Rightarrow> Start_throws e
              | Inr jvm \<Rightarrow> Started (Supervisor_process jvm) (g_supervisor_queue g) session)))"

fun open_own_queue :: "nat \<Rightarrow> string \<Rightarrow> mq_world \<Rightarrow> bool \<times> mq_world" where
  \<comment> \<open>from \<open>try_again\<close>: a failed attempt leaves the scope of \<open>mqd_sp\<close>, which unlinks the name\<close>
  "open_own_queue 0 mq_queue_name w = (False, w)"
| "open_own_queue (Suc try_attempts) mq_queue_name w =
     (case mq_open_ex mq_queue_name (O_CREAT OR O_EXCL OR O_RDONLY) mode_0662 (10, 4096) w of
        (Inr mqd, w) \<Rightarrow> (True, w)
      | (Inl e, w) \<Rightarrow> open_own_queue try_attempts mq_queue_name (mq_unlink mq_queue_name w))"

section \<open>Java's main method\<close>

definition obtainSerializedAnnotationInfo :: method_descriptor where
  "obtainSerializedAnnotationInfo =
     methodDescriptor ''spartan/CommandDispatchInfo/obtainSerializedSysPropertiesAndAnnotationInfo'' ''()[B'' True
       WM_GET_CMD_DISPATCH_INFO"

definition main_entry_action :: "int \<Rightarrow> jni_env \<Rightarrow> string list \<Rightarrow> session_state \<Rightarrow> jstate \<Rightarrow> outcome \<times> jstate" where
  \<comment> \<open>on the thread of the supervisor process; the shared memory lives as long as the action\<close>
  "main_entry_action junk jvm argv session js =
     (case invoke_java_method jvm obtainSerializedAnnotationInfo [] no_fds (Some argv) (Some session) js of
        (Invoked rc quit, js) \<Rightarrow>
          (let region = js_shm js; js' = js\<lparr>js_shm := None\<rparr> in
           if rc \<noteq> EXIT_SUCCESS then (Rc rc, js')
           else
             (case region of
                None \<Rightarrow> (Rc EXIT_FAILURE, js')
              | Some mem \<Rightarrow>
                  (case get_cmd_dispatch_info junk mem ss_default of
                     None \<Rightarrow> (Bad_access, js)
                   | Some (shm_session, strm) \<Rightarrow>
                       (if md_empty (spartanMainEntryPoint shm_session) then (Rc EXIT_FAILURE, js')
                        else
                          (case invoke_java_method jvm (spartanMainEntryPoint shm_session) [] no_fds (Some argv) None js of
                             (r, js) \<Rightarrow> (outcome_of r, js\<lparr>js_shm := None\<rparr>))))))
      | (r, js) \<Rightarrow> (outcome_of r, js))"

section \<open>Dispatching a message\<close>

record supervisor_state = dispatcher +
  sv_worker :: worker
  sv_jvm_down :: bool
  sv_status :: "string list" \<comment> \<open>the sockets whose \<open>supervisor_status_response\<close> threads were started\<close>

definition msg_dispatch_for_launcher :: "bool \<Rightarrow> string \<Rightarrow> 'a dispatcher_scheme \<Rightarrow> (bool \<times> int) option \<times> 'a dispatcher_scheme" where
  "msg_dispatch_for_launcher locked msg_dup ds =
     (if msg_dup = STOP_CMD then (Some (False, EXIT_SUCCESS), ds) else map_prod Some id (en_queue_dispatch_msg locked msg_dup ds))"

definition msg_dispatch_for_supervisor ::
  "jni_env \<Rightarrow> session_state \<Rightarrow> bool \<Rightarrow> bool \<Rightarrow> string \<Rightarrow> supervisor_state \<Rightarrow> (bool \<times> int) option \<times> supervisor_state" where
  \<comment> \<open>\<open>stopping\<close>: \<open>flag\<close> or \<open>shutting_down\<close> is set; \<open>None\<close> is a bad access or an uncaught exception\<close>
  "msg_dispatch_for_supervisor jvm shm_session stopping locked msg_dup sv =
     (if msg_dup = SHUTDOWN_CMD then
        (case run_java jvm (spartanSupervisorShutdownEntryPoint shm_session) [] no_fds None (sv_worker sv) of
           (Rc ec, w) \<Rightarrow>
             (Some (False, ec), sv\<lparr>sv_jvm_down := True,
                sv_worker := (if ec \<noteq> EXIT_SUCCESS then note_log ERR ''did not complete command successfully'' w else w)\<rparr>)
         | (_, w) \<Rightarrow> (None, sv\<lparr>sv_jvm_down := True, sv_worker := w\<rparr>))
      else if strneq msg_dup STATUS_CMD (length STATUS_CMD) then
        (if stopping \<or> sv_jvm_down sv then (Some (True, EXIT_SUCCESS), sv)
         else
           (case strtok_r '' '' msg_dup of
              None \<Rightarrow> (None, sv)
            | Some (t, save) \<Rightarrow>
                (case strtok_r '' '' save of
                   None \<Rightarrow> (None, sv)
                 | Some (uds_socket_name, _) \<Rightarrow> (Some (True, EXIT_SUCCESS), sv\<lparr>sv_status := sv_status sv @ [uds_socket_name]\<rparr>))))
      else map_prod Some id (en_queue_dispatch_msg locked msg_dup sv))"

definition supervisor_handles :: "popt_parser \<Rightarrow> jni_env \<Rightarrow> session_state \<Rightarrow> supervisor_state \<Rightarrow> outcome option \<times> supervisor_state" where
  \<comment> \<open>the dispatcher thread of the supervisor with the next message of its batch\<close>
  "supervisor_handles popt jvm shm_session sv =
     (case ds_batch sv of
        [] \<Rightarrow> (None, sv)
      | msg # msgs \<Rightarrow>
          (let sv = sv\<lparr>ds_batch := msgs\<rparr> in
           if sv_jvm_down sv then (None, sv)
           else
             (let sv = sv\<lparr>ds_count := ds_count sv - 1\<rparr>; (r, w) = handle_supervisor_msg popt shm_session jvm msg (sv_worker sv)
              in (Some r, sv\<lparr>sv_worker := w\<rparr>))))"

section \<open>The receive loop\<close>

datatype recv = Timed_out | Recv_error | Recv string

datatype loop_end = Loop_exit int | Loop_bad_access | Loop_waiting

fun receive_loop ::
  "(string \<Rightarrow> 's \<Rightarrow> (bool \<times> int) option \<times> 's) \<Rightarrow> (recv \<times> bool) list \<Rightarrow> bool \<Rightarrow> string \<Rightarrow> int \<Rightarrow> 's \<Rightarrow> loop_end \<times> 's" where
  \<comment> \<open>each result with the value of \<open>flag != 0\<close> then; \<open>mqd\<close>: \<open>mqd_sp\<close> is not null; after an error
      \<open>strndupa\<close> gets the size \<open>-1\<close> and copies what the buffer still holds\<close>
  "receive_loop msg_dispatch [] mqd buffer exit_code s = (Loop_waiting, s)"
| "receive_loop msg_dispatch ((r, flag) # rs) mqd buffer exit_code s =
     (if \<not> mqd then (Loop_bad_access, s)
      else
        (let dispatch = (\<lambda>mqd buffer msg.
               case msg_dispatch msg s of
                 (None, s) \<Rightarrow> (Loop_bad_access, s)
               | (Some (loop_continue, exit_code), s) \<Rightarrow>
                   (if loop_continue \<and> \<not> flag then receive_loop msg_dispatch rs mqd buffer exit_code s else (Loop_exit exit_code, s)))
         in case r of
              Timed_out \<Rightarrow> if flag then (Loop_exit exit_code, s) else receive_loop msg_dispatch rs mqd buffer exit_code s
            | Recv_error \<Rightarrow> dispatch False buffer (cstr buffer)
            | Recv m \<Rightarrow>
                (let buffer = m @ drop (length m) buffer in
                 if m = [] \<and> \<not> flag then receive_loop msg_dispatch rs mqd buffer exit_code s
                 else dispatch mqd buffer (cstr m))))"

section \<open>Waiting for children\<close>

datatype waited = Changed bool int bool \<comment> \<open>gone, pid, and whether the lock of the queue is free\<close>
  | Wait_echild | Wait_eintr | Wait_failed

fun waitid_on_forked_children ::
  "(bool \<Rightarrow> launcher \<Rightarrow> bool \<times> launcher) \<Rightarrow> (waited \<times> bool) list \<Rightarrow> launcher \<Rightarrow> bool \<times> launcher" where
  \<comment> \<open>each result with the value of \<open>flag != 0\<close>; the result says whether the loop has ended\<close>
  "waitid_on_forked_children completion_proc [] ln = (False, ln)"
| "waitid_on_forked_children completion_proc ((r, flag) # rs) ln =
     (case r of
        Changed gone pid locked \<Rightarrow>
          (let ln = (if gone then ln\<lparr>ln_procs := filter (\<lambda>(p, g). p \<noteq> pid) (ln_procs ln)\<rparr> else ln);
               (ended, ln) = completion_proc locked ln;
               ln = (if \<not> ln_jvm_down ln then ln\<lparr>ln_sent := ln_sent ln @ [completion_notify_msg pid]\<rparr> else ln)
           in if ended then (True, ln) else waitid_on_forked_children completion_proc rs ln)
      | Wait_echild \<Rightarrow> if flag then (True, ln) else waitid_on_forked_children completion_proc rs ln
      | Wait_eintr \<Rightarrow> (True, ln)
      | Wait_failed \<Rightarrow> waitid_on_forked_children completion_proc rs ln)"

section \<open>The end of the launcher\<close>

definition cleanup_launcher ::
  "globals \<Rightarrow> waited list \<Rightarrow> launcher \<Rightarrow> mq_world \<Rightarrow> (int \<times> bool \<times> launcher \<times> mq_world) option" where
  \<comment> \<open>\<open>cleanup_supervisor_jvm_ctx\<close>, where \<open>flag\<close> is set first: the exit code it computes, which the
      function no longer returns, whether all children were waited for, and the state; \<open>None\<close>: the
      queue of the supervisor is full\<close>
  "cleanup_launcher g rs ln w =
     (case send_mq_msg SHUTDOWN_CMD (g_supervisor_queue g) w of
        None \<Rightarrow> None
      | Some (rc, w) \<Rightarrow>
          (let (ended, ln) = waitid_on_forked_children (\<lambda>locked ln. (ds_count ln \<le> 0, ln\<lparr>ds_count := ds_count ln - 1\<rparr>))
                 (map (\<lambda>r. (r, True)) rs) ln
           in Some (rc, ended, ln, if ended then mq_unlink (g_supervisor_queue g) w else w)))"

lemma waitid_loop_step:
  "waitid_on_forked_children (\<lambda>locked ln. (shutting_down, child_process_completion m locked ln)) ((Changed gone pid locked, flag) # rs) ln =
     (if shutting_down then (True, child_changed m locked gone pid ln)
      else waitid_on_forked_children (\<lambda>locked ln. (shutting_down, child_process_completion m locked ln)) rs
             (child_changed m locked gone pid ln))"
  \<comment> \<open>the body of the loop is the step of the launcher for an ended or stopped child\<close>
  by (simp add: child_changed_def Let_def)

section \<open>Opening the queue\<close>

lemma mq_create:
  "mq_open_ex n (O_CREAT OR O_EXCL OR O_RDONLY) mode attr w =
     (case mq_named w n of
        Some q \<Rightarrow> (Inl EEXIST, w)
      | None \<Rightarrow> (Inr n, w\<lparr>mq_named := (mq_named w)(n \<mapsto>
          \<lparr>mq_mode = mode AND NOT 2, mq_maxmsg = fst attr, mq_msgsize = snd attr, mq_msgs = []\<rparr>)\<rparr>))"
proof -
  define fl :: "32 word" where "fl = O_CREAT OR O_EXCL OR O_RDONLY"
  have "(fl AND O_CREAT \<noteq> 0) = True" "(fl AND O_CREAT = 0) = False" "(fl AND O_EXCL \<noteq> 0) = True" by (simp_all add: fl_def)
  note f = this
  show ?thesis unfolding fl_def [symmetric] mq_open_ex_def mq_open_def f
    by (simp split: option.splits)
qed

lemma own_flags: "O_CREAT OR O_EXCL OR O_RDONLY = 192"
  by simp

text \<open>
  A process always gets its queue, new and empty, within the two attempts: messages of an
  earlier run are dropped, and the queue of a process of the same name that still runs is taken
  away from it. No other queue changes.
\<close>

theorem own_queue_opened:
  "\<exists>w' q. open_own_queue 2 name w = (True, w') \<and> mq_named w' = (mq_named w)(name \<mapsto> q) \<and>
     mq_msgs q = [] \<and> mq_maxmsg q = 10 \<and> mq_msgsize q = 4096 \<and> mq_umask w' = mq_umask w"
proof (cases "mq_named w name")
  let ?q = "\<lparr>mq_mode = mode_0662 AND NOT 2, mq_maxmsg = 10, mq_msgsize = 4096, mq_msgs = []\<rparr>"
  case None
  then show ?thesis
    by (intro exI [of _ "snd (open_own_queue 2 name w)"] exI [of _ ?q]) (simp add: numeral_2_eq_2 mq_create [unfolded own_flags])
next
  let ?q = "\<lparr>mq_mode = mode_0662 AND NOT 2, mq_maxmsg = 10, mq_msgsize = 4096, mq_msgs = []\<rparr>"
  case (Some q)
  let ?w = "mq_unlink name w"
  have "mq_named ?w name = None" "mq_umask ?w = mq_umask w" "(mq_named ?w)(name \<mapsto> q') = (mq_named w)(name \<mapsto> q')" for q'
    by (simp_all add: mq_unlink_def)
  with Some show ?thesis
    by (intro exI [of _ "snd (open_own_queue 2 name w)"] exI [of _ ?q]) (simp add: numeral_2_eq_2 mq_create [unfolded own_flags])
qed

section \<open>Receiving\<close>

lemma dispatch_queues:
  "m \<noteq> STOP_CMD \<Longrightarrow> msg_dispatch_for_launcher True m ds =
     (Some (True, EXIT_SUCCESS), ds\<lparr>ds_queue := ds_queue ds @ [m], ds_qready := True\<rparr>)"
  by (simp add: msg_dispatch_for_launcher_def en_queue_dispatch_msg_def)

lemma cstr_no_nul: "NUL \<notin> set m \<Longrightarrow> cstr m = m"
  by (simp add: cstr_def)

text \<open>
  The launcher queues the messages it receives, in order, and ends with success on the first
  request to stop; time-outs and empty messages in between change nothing.
\<close>

theorem launcher_receives:
  assumes "list_all (\<lambda>r. case r of Recv m \<Rightarrow> NUL \<notin> set m \<and> m \<noteq> STOP_CMD | Timed_out \<Rightarrow> True | Recv_error \<Rightarrow> False) rs"
  shows "\<exists>ready. receive_loop (msg_dispatch_for_launcher True) (map (\<lambda>r. (r, False)) rs @ (Recv STOP_CMD, False) # later) True buffer ec ds =
     (Loop_exit EXIT_SUCCESS, ds\<lparr>ds_queue := ds_queue ds @ [m. Recv m \<leftarrow> rs, m \<noteq> []], ds_qready := ready\<rparr>)"
  using assms
proof (induction rs arbitrary: buffer ec ds)
  case Nil
  have "STOP_CMD \<noteq> []" "cstr STOP_CMD = STOP_CMD" by (simp_all add: STOP_CMD_def cstr_def)
  then show ?case by (auto simp: msg_dispatch_for_launcher_def Let_def intro!: exI [of _ "ds_qready ds"])
next
  case (Cons r rs)
  show ?case
  proof (cases r)
    case (Recv m)
    show ?thesis
    proof (cases "m = []")
      case True
      with Cons.IH [of "m @ drop (length m) buffer" ec ds] Cons.prems Recv show ?thesis by simp
    next
      case False
      with Cons.IH [of "m @ drop (length m) buffer" EXIT_SUCCESS "ds\<lparr>ds_queue := ds_queue ds @ [m], ds_qready := True\<rparr>"] Cons.prems Recv
      show ?thesis by (simp add: dispatch_queues cstr_no_nul)
    qed
  qed (use Cons in auto)
qed

text \<open>
  When receiving fails, the launcher takes what its buffer still holds for a message, queues
  it once more, goes on although its queue is closed, and reads through a null pointer.
\<close>

theorem receive_error_ends_badly:
  assumes "cstr buffer \<noteq> STOP_CMD"
  shows "receive_loop (msg_dispatch_for_launcher True) ((Recv_error, False) # r # rs) True buffer ec ds =
     (Loop_bad_access, ds\<lparr>ds_queue := ds_queue ds @ [cstr buffer], ds_qready := True\<rparr>)"
  using dispatch_queues [OF assms, of ds] by (cases r) simp

theorem receive_error_ends_badly_witness:
  "receive_loop (msg_dispatch_for_launcher True) [(Recv_error, False), (Timed_out, False)] True (''x'' @ [NUL]) 0 (launcher_start 10 12) =
     (Loop_bad_access, (launcher_start 10 12)\<lparr>ds_queue := [''x''], ds_qready := True\<rparr>)"
proof -
  have c: "cstr (''x'' @ [NUL]) = ''x''" by code_simp
  then have "cstr (''x'' @ [NUL]) \<noteq> STOP_CMD" by (simp add: STOP_CMD_def)
  from receive_error_ends_badly [OF this, of "(Timed_out, False)" "[]" 0 "launcher_start 10 12"] show ?thesis
    unfolding c by (simp add: launcher_start_def)
qed

theorem launcher_receives_witness:
  "\<exists>ready. receive_loop (msg_dispatch_for_launcher True) [(Recv ''a'', False), (Timed_out, False), (Recv ''b'', False), (Recv STOP_CMD, False)]
     True [] 0 (launcher_start 10 12) =
     (Loop_exit EXIT_SUCCESS, (launcher_start 10 12)\<lparr>ds_queue := [''a'', ''b''], ds_qready := ready\<rparr>)"
proof -
  have "list_all (\<lambda>r. case r of Recv m \<Rightarrow> NUL \<notin> set m \<and> m \<noteq> STOP_CMD | Timed_out \<Rightarrow> True | Recv_error \<Rightarrow> False)
      [Recv ''a'', Timed_out, Recv ''b'']" by (simp add: STOP_CMD_def)
  from launcher_receives [OF this, of "[]" "[]" 0 "launcher_start 10 12"] show ?thesis
    by (simp add: launcher_start_def)
qed

section \<open>Starting Java's main method\<close>

text \<open>
  C22. The supervisor process asks the Java side for its annotations first, puts what they make of
  the configured session into shared memory, and then runs the main method that is found there
  with the arguments of the program; the shared memory is gone when the main method returns.
\<close>

theorem main_entry_calls:
  assumes ok: "jni_ok jvm" "jn_detach jvm" "\<And>a b. jn_reflect jvm a b" "\<And>c. \<not> jn_raises jvm c"
    and c: "c = Static_call ''spartan/CommandDispatchInfo'' ''obtainSerializedSysPropertiesAndAnnotationInfo'' ''()[B'' []"
    and d: "jn_dispatch jvm c = (ser, props, di)"
    and r: "process_initial_cmd_dispatch_info (jn_pg_size jvm) ser props di (clone_info_part ss_default session) = Inr (ss, region)"
    and g: "get_cmd_dispatch_info junk region ss_default = Some (shm_session, strm)"
    and name: "fullMethodName (spartanMainEntryPoint shm_session) = cls @ CHR ''/'' # meth" "CHR ''/'' \<notin> set meth" "meth \<noteq> []"
    and kind: "whichMethod (spartanMainEntryPoint shm_session) = WM_MAIN" "isStaticMethod (spartanMainEntryPoint shm_session)"
  shows "\<exists>js'. main_entry_action junk jvm argv session js = (Rc EXIT_SUCCESS, js') \<and>
     js_calls js' = js_calls js @
       [c, Static_call ''spartan/SpartanBase'' meth ''(Ljava/lang/String;ILjava/lang/reflect/Method;[Ljava/lang/String;)V''
             [Jstring (jn_progname jvm), Jlevel (jn_level jvm), Jmethod cls meth, Jargs (Some (tl argv))]] \<and>
     js_shm js' = None"
proof -
  let ?md = obtainSerializedAnnotationInfo
  have n: "fullMethodName ?md = ''spartan/CommandDispatchInfo'' @ CHR ''/'' # ''obtainSerializedSysPropertiesAndAnnotationInfo''"
    "CHR ''/'' \<notin> set ''obtainSerializedSysPropertiesAndAnnotationInfo''" "''obtainSerializedSysPropertiesAndAnnotationInfo'' \<noteq> []"
    "whichMethod ?md = WM_GET_CMD_DISPATCH_INFO" "isStaticMethod ?md"
    and de: "descriptor ?md = ''()[B''"
    by (simp_all add: obtainSerializedAnnotationInfo_def methodDescriptor_def)
  have 1: "invoke_java_method jvm ?md [] no_fds (Some argv) (Some session) js =
      (Invoked EXIT_SUCCESS False, js\<lparr>js_fds := no_fds, js_calls := js_calls js @ [c], js_shm := Some region\<rparr>)"
    by (rule dispatch_info_invoked [OF ok(1,2) n _ ok(4) d r]) (simp add: c de)
  have ne: "\<not> md_empty (spartanMainEntryPoint shm_session)" using name by (simp add: md_empty_def)
  show ?thesis
    unfolding main_entry_action_def 1 prod.case invoked.case
    by (simp add: g ne main_invoked [OF ok name kind] Let_def)
qed

definition example_main_jvm :: jni_env where
  "example_main_jvm = example_jvm\<lparr>jn_dispatch := \<lambda>_. (''serialized'', [''u=v''], example_di)\<rparr>"

theorem main_entry_calls_witness:
  "\<exists>js'. main_entry_action 7 example_main_jvm [''app'', ''x''] example_state example_jstate = (Rc EXIT_SUCCESS, js') \<and>
     length (js_calls js') = 2 \<and> js_shm js' = None"
proof -
  let ?m = "spartanMainEntryPoint (ss_read example_shared ss_default)"
  have ok: "jni_ok example_main_jvm" "jn_detach example_main_jvm" "jn_reflect example_main_jvm a b" "\<not> jn_raises example_main_jvm c"
    for a b c by (simp_all add: jni_ok_def example_main_jvm_def example_jvm_def)
  have d: "jn_dispatch example_main_jvm c = (''serialized'', [''u=v''], example_di)" for c by (simp add: example_main_jvm_def)
  have e: "clone_info_part ss_default example_state = example_state"
    by (simp add: clone_info_part_def example_state_def ss_default_def)
  have r: "process_initial_cmd_dispatch_info (jn_pg_size example_main_jvm) ''serialized'' [''u=v''] example_di
      (clone_info_part ss_default example_state) = Inr (example_shared, example_region)"
    using example_processed by (simp add: e example_region_def example_main_jvm_def example_jvm_def)
  have n: "fullMethodName ?m = ''a/B'' @ CHR ''/'' # ''main''" "CHR ''/'' \<notin> set ''main''" "''main'' \<noteq> []"
    "whichMethod ?m = WM_MAIN" "isStaticMethod ?m"
    by (simp_all add: ss_read_def clone_info_part_def example_shared_def example_state_def methodDescriptor_def)
  from main_entry_calls [OF ok refl d r example_region_read n, where junk = 7 and argv = "[''app'', ''x'']"
      and js = example_jstate]
  show ?thesis by (auto simp: example_jstate_def)
qed

section \<open>The dispatcher of the supervisor process\<close>

datatype sv_event = Sv_receive string bool | Sv_take int | Sv_handle string | Sv_skip string

inductive supervisor_step ::
  "popt_parser \<Rightarrow> jni_env \<Rightarrow> session_state \<Rightarrow> int \<Rightarrow> supervisor_state \<Rightarrow> sv_event \<Rightarrow> supervisor_state \<Rightarrow> bool"
  for popt jvm shm_session child_max where
  sv_receive: "msg_dispatch_for_supervisor jvm shm_session stopping locked msg sv = (Some (loop_continue, ec), sv') \<Longrightarrow>
    queued = (msg \<noteq> SHUTDOWN_CMD \<and> \<not> strneq msg STATUS_CMD (length STATUS_CMD) \<and> locked) \<Longrightarrow>
    supervisor_step popt jvm shm_session child_max sv (Sv_receive msg queued) sv'"
| sv_take: "ds_batch sv = [] \<Longrightarrow> ds_count sv \<le> count_seen \<Longrightarrow> de_queue child_max count_seen sv = sv' \<Longrightarrow>
    supervisor_step popt jvm shm_session child_max sv (Sv_take count_seen) sv'"
| sv_handle: "ds_batch sv = msg # msgs \<Longrightarrow> supervisor_handles popt jvm shm_session sv = (Some (Rc rc), sv') \<Longrightarrow>
    supervisor_step popt jvm shm_session child_max sv (Sv_handle msg) sv'"
| sv_skip: "ds_batch sv = msg # msgs \<Longrightarrow> sv_jvm_down sv \<Longrightarrow> supervisor_handles popt jvm shm_session sv = (None, sv') \<Longrightarrow>
    supervisor_step popt jvm shm_session child_max sv (Sv_skip msg) sv'"

fun sv_received :: "sv_event list \<Rightarrow> string list" where
  "sv_received [] = []"
| "sv_received (Sv_receive msg queued # es) = (if queued then msg # sv_received es else sv_received es)"
| "sv_received (_ # es) = sv_received es"

fun sv_handled :: "sv_event list \<Rightarrow> string list" where
  "sv_handled [] = []"
| "sv_handled (Sv_handle msg # es) = msg # sv_handled es"
| "sv_handled (Sv_skip msg # es) = msg # sv_handled es"
| "sv_handled (_ # es) = sv_handled es"

fun sv_skipped :: "sv_event list \<Rightarrow> nat" where
  "sv_skipped [] = 0"
| "sv_skipped (Sv_skip msg # es) = Suc (sv_skipped es)"
| "sv_skipped (_ # es) = sv_skipped es"

lemma sv_events_append [simp]:
  "sv_received (es @ fs) = sv_received es @ sv_received fs" "sv_handled (es @ fs) = sv_handled es @ sv_handled fs"
  "sv_skipped (es @ fs) = sv_skipped es + sv_skipped fs"
proof -
  show "sv_received (es @ fs) = sv_received es @ sv_received fs" by (induction es rule: sv_received.induct) simp_all
  show "sv_handled (es @ fs) = sv_handled es @ sv_handled fs" by (induction es rule: sv_handled.induct) simp_all
  show "sv_skipped (es @ fs) = sv_skipped es + sv_skipped fs" by (induction es rule: sv_skipped.induct) simp_all
qed

definition supervisor_start :: "worker \<Rightarrow> supervisor_state" where
  "supervisor_start w = \<lparr>ds_queue = [], ds_qready = False, ds_count = 1, ds_batch = [], sv_worker = w, sv_jvm_down = False, sv_status = []\<rparr>"

definition supervisor_inv :: "int \<Rightarrow> sv_event list \<Rightarrow> supervisor_state \<Rightarrow> bool" where
  "supervisor_inv child_max es sv =
     (ds_count sv = 1 + int (length (ds_batch sv) + sv_skipped es) \<and> ds_count sv \<le> max 1 child_max \<and>
      sv_received es = sv_handled es @ ds_batch sv @ ds_queue sv)"

lemma supervisor_dispatch_queue:
  assumes "msg_dispatch_for_supervisor jvm ss stopping locked msg sv = (Some r, sv')"
  shows "ds_count sv' = ds_count sv" and "ds_batch sv' = ds_batch sv"
    and "ds_queue sv' = ds_queue sv @
      (if msg \<noteq> SHUTDOWN_CMD \<and> \<not> strneq msg STATUS_CMD (length STATUS_CMD) \<and> locked then [msg] else [])"
  using assms
  by (auto simp: msg_dispatch_for_supervisor_def en_queue_dispatch_msg_def split: if_splits prod.splits outcome.splits option.splits)

interpretation supervisor: transition_system "supervisor_step popt jvm ss m" "\<lambda>s. \<exists>w. s = supervisor_start w" "supervisor_inv m"
proof
  show "supervisor_inv m [] s" if "\<exists>w. s = supervisor_start w" for s
    using that by (auto simp: supervisor_inv_def supervisor_start_def)
next
  fix es s e t
  assume i: "supervisor_inv m es s" and st: "supervisor_step popt jvm ss m s e t"
  from st show "supervisor_inv m (es @ [e]) t"
  proof cases
    case (sv_receive stopping locked msg cont ec queued)
    from i supervisor_dispatch_queue [OF sv_receive(2)] sv_receive(1,3) show ?thesis by (auto simp: supervisor_inv_def)
  next
    case (sv_take count_seen)
    note d = de_queue_simps [OF refl, of m count_seen s]
    from i sv_take d show ?thesis by (auto simp: supervisor_inv_def)
  next
    case (sv_handle msg msgs rc)
    with i show ?thesis by (auto simp: supervisor_inv_def supervisor_handles_def Let_def split: if_splits prod.splits)
  next
    case (sv_skip msg msgs)
    with i show ?thesis by (auto simp: supervisor_inv_def supervisor_handles_def Let_def split: if_splits prod.splits)
  qed
qed



end
