(* ===== verification/ReadOnReady.thy ===== *)
theory ReadOnReady
  imports Prelude "HOL-Library.Sublist"
begin

unbundle bit_operations_syntax

text \<open>
  The copying of one response stream, \<open>write_to_output_stream\<close> of \<open>read-on-ready.cpp\<close>. What the
  descriptor it reads will give is a script: the bytes each \<open>read\<close> meets (none at the end of the
  file) or the error it returns, so a script stands for one interleaving of the writer with this
  thread. A second script says how much each \<open>write\<close> takes. Error texts, \<open>fflush\<close> and \<open>fsync\<close>
  are left out.
\<close>

section \<open>Descriptors as scripts\<close>

abbreviation EAGAIN :: int where "EAGAIN \<equiv> 11"
abbreviation EWOULDBLOCK :: int where "EWOULDBLOCK \<equiv> 11"
abbreviation EINTR :: int where "EINTR \<equiv> 4"
abbreviation PIPE_BUF :: nat where "PIPE_BUF \<equiv> 4096"

datatype read_ev = Rd string | Rd_err int

datatype write_ev = Wr nat | Wr_err

record sink =
  sk_bytes :: string \<comment> \<open>what has been written\<close>
  sk_evs :: "write_ev list" \<comment> \<open>empty: every further write takes all it is given\<close>

fun read_fd :: "nat \<Rightarrow> read_ev list \<Rightarrow> (int + string) \<times> read_ev list" where
  \<comment> \<open>\<open>read\<close> of at most \<open>n\<close> bytes from a nonblocking descriptor: an errno or the bytes\<close>
  "read_fd n [] = (Inl EAGAIN, [])"
| "read_fd n (Rd_err e # evs) = (Inl e, evs)"
| "read_fd n (Rd bs # evs) = (Inr (take n bs), if length bs \<le> n then evs else Rd (drop n bs) # evs)"

definition write_fd :: "string \<Rightarrow> sink \<Rightarrow> int \<times> sink" where
  "write_fd buf sk =
     (case sk_evs sk of
        [] \<Rightarrow> (int (length buf), sk\<lparr>sk_bytes := sk_bytes sk @ buf\<rparr>)
      | Wr k # evs \<Rightarrow> (int (min k (length buf)), sk\<lparr>sk_bytes := sk_bytes sk @ take k buf, sk_evs := evs\<rparr>)
      | Wr_err # evs \<Rightarrow> (-1, sk\<lparr>sk_evs := evs\<rparr>))"

fun evs_size :: "read_ev list \<Rightarrow> nat" where
  "evs_size [] = 0"
| "evs_size (Rd bs # evs) = Suc (length bs) + evs_size evs"
| "evs_size (Rd_err e # evs) = Suc (evs_size evs)"

fun data_of :: "read_ev list \<Rightarrow> string" where
  \<comment> \<open>the bytes a script brings before the end of the file\<close>
  "data_of [] = []"
| "data_of (Rd bs # evs) = (if bs = [] then [] else bs @ data_of evs)"
| "data_of (Rd_err e # evs) = data_of evs"

section \<open>One call of write_to_output_stream\<close>

datatype write_result = NO_OP | SUCCESS | FAILURE | INTERRUPTED | END_OF_FILE | PIPE_CONN_BROKEN

definition write_result_str :: "write_result \<Rightarrow> string" where
  "write_result_str rslt =
     (case rslt of
        SUCCESS \<Rightarrow> ''success'' | FAILURE \<Rightarrow> ''failure'' | INTERRUPTED \<Rightarrow> ''thread interrupted''
      | END_OF_FILE \<Rightarrow> ''end of input stream'' | PIPE_CONN_BROKEN \<Rightarrow> ''pipe connection broken'' | NO_OP \<Rightarrow> [])"

definition can_continue :: "write_result \<Rightarrow> bool" where
  "can_continue wr = (wr = NO_OP \<or> wr = SUCCESS)"

record pump =
  pm_evs :: "read_ev list" \<comment> \<open>what the input descriptor will give\<close>
  pm_intr :: "bool list" \<comment> \<open>what \<open>interrupted()\<close> will answer to this thread, false after that\<close>
  pm_sink :: sink \<comment> \<open>the output descriptor\<close>
  pm_read_total :: "64 word"
  pm_n_read :: "64 word"
  pm_n_writ :: "64 word"

definition pump_interrupted :: "pump \<Rightarrow> bool \<times> pump" where
  "pump_interrupted st = (case pm_intr st of [] \<Rightarrow> (False, st) | b # bs \<Rightarrow> (b, st\<lparr>pm_intr := bs\<rparr>))"

definition write_output :: "string \<Rightarrow> pump \<Rightarrow> write_result \<times> pump" where
  "write_output buf st =
     (let n = length buf;
          st = st\<lparr>pm_read_total := pm_read_total st + of_nat n\<rparr>;
          st = st\<lparr>pm_n_read := pm_n_read st + of_nat n\<rparr>;
          (nw, sk) = write_fd buf (pm_sink st);
          st = st\<lparr>pm_sink := sk\<rparr>;
          st = (if nw > 0 then st\<lparr>pm_n_writ := pm_n_writ st + of_int nw\<rparr> else st)
      in if nw \<noteq> int n then (FAILURE, st) else (SUCCESS, st))"

definition would_block :: "int \<Rightarrow> bool" where
  "would_block err_no = (err_no = EAGAIN \<or> err_no = EWOULDBLOCK)"

lemma read_fd_less: "read_fd n evs = (Inr buf, evs') \<Longrightarrow> buf \<noteq> [] \<Longrightarrow> evs_size evs' < evs_size evs"
  by (cases "(n, evs)" rule: read_fd.cases) (auto split: if_splits)

lemma write_output_evs: "write_output buf st = (r, st') \<Longrightarrow> pm_evs st' = pm_evs st"
  by (auto simp: write_output_def Let_def split: prod.splits if_splits)

lemma pump_interrupted_evs: "pump_interrupted st = (b, st') \<Longrightarrow> pm_evs st' = pm_evs st"
  by (auto simp: pump_interrupted_def split: list.splits)

function echo :: "pump \<Rightarrow> write_result \<times> pump" where
  \<comment> \<open>reads and writes until a read would block, the stream ends or there is an error\<close>
  "echo st =
     (case pump_interrupted st of (sig_intr, st) \<Rightarrow>
      if sig_intr then (INTERRUPTED, st)
      else
        (case read_fd PIPE_BUF (pm_evs st) of
           (Inl err_no, evs) \<Rightarrow>
             (if would_block err_no then (if pm_read_total st > 0 then NO_OP else PIPE_CONN_BROKEN) else FAILURE,
              st\<lparr>pm_evs := evs\<rparr>)
         | (Inr buf, evs) \<Rightarrow>
             (if buf = [] then (END_OF_FILE, st\<lparr>pm_evs := evs\<rparr>)
              else (case write_output buf (st\<lparr>pm_evs := evs\<rparr>) of (rtn, st) \<Rightarrow>
                    if can_continue rtn then echo st else (rtn, st)))))"
  by pat_completeness auto
termination
  by (relation "measure (\<lambda>st. evs_size (pm_evs st))") (auto dest!: read_fd_less [OF sym] write_output_evs [OF sym] pump_interrupted_evs [OF sym])

declare echo.simps [simp del]

definition POLLIN :: "16 word" where "POLLIN = 1"
definition POLLERR :: "16 word" where "POLLERR = 8"
definition POLLHUP :: "16 word" where "POLLHUP = 0x10"
definition POLLNVAL :: "16 word" where "POLLNVAL = 0x20"

definition write_to_output_stream :: "int \<times> 16 word \<Rightarrow> int \<Rightarrow> pump \<Rightarrow> (int \<times> write_result) \<times> pump" where
  \<comment> \<open>\<open>output_fd\<close> is \<open>fileno(output_stream)\<close>; a descriptor in an error condition is asked for 8
      bytes first\<close>
  "write_to_output_stream pollfd output_fd st =
     (let (fd, revents) = pollfd; st = st\<lparr>pm_read_total := 0\<rparr> in
      if output_fd = -1 then ((fd, FAILURE), st)
      else
        (let go_on = (\<lambda>st. case echo st of (wr, st) \<Rightarrow> ((fd, wr), st)) in
         if revents AND (POLLERR OR POLLHUP OR POLLNVAL) \<noteq> 0 then
           (case read_fd 8 (pm_evs st) of
              (Inl err_no, evs) \<Rightarrow>
                ((fd, if would_block err_no then PIPE_CONN_BROKEN else FAILURE), st\<lparr>pm_evs := evs\<rparr>)
            | (Inr buf, evs) \<Rightarrow>
                (if buf = [] then ((fd, END_OF_FILE), st\<lparr>pm_evs := evs\<rparr>)
                 else (case write_output buf (st\<lparr>pm_evs := evs\<rparr>) of (wr, st) \<Rightarrow>
                       if can_continue wr then go_on st else ((fd, wr), st))))
         else go_on st))"

section \<open>What a call has copied\<close>

text \<open>
  \<open>copied st d st'\<close>: from one state to the other the bytes \<open>d\<close> have been read and written. \<open>ends\<close>
  says how the result of a call relates what was copied to what the descriptor had to give.
\<close>

definition copied :: "pump \<Rightarrow> string \<Rightarrow> pump \<Rightarrow> bool" where
  "copied st d st' =
     (sk_bytes (pm_sink st') = sk_bytes (pm_sink st) @ d \<and> pm_n_writ st' = pm_n_writ st + of_nat (length d))"

definition ends :: "write_result \<Rightarrow> read_ev list \<Rightarrow> string \<Rightarrow> read_ev list \<Rightarrow> bool" where
  "ends wr evs d evs' =
     (prefix d (data_of evs) \<and> (wr = END_OF_FILE \<longrightarrow> d = data_of evs) \<and>
      (wr \<noteq> END_OF_FILE \<and> wr \<noteq> FAILURE \<longrightarrow> data_of evs = d @ data_of evs'))"

lemma copied_trans: "copied a d b \<Longrightarrow> copied b e c \<Longrightarrow> copied a (d @ e) c"
  by (simp add: copied_def)

lemma copied_same: "pm_sink b = pm_sink a \<Longrightarrow> pm_n_writ b = pm_n_writ a \<Longrightarrow> copied a [] b"
  by (simp add: copied_def)

lemma ends_append: "data_of evs = d @ data_of evs1 \<Longrightarrow> ends wr evs1 e evs2 \<Longrightarrow> ends wr evs (d @ e) evs2"
  by (auto simp: ends_def)

lemma read_fd_data:
  "read_fd n evs = (Inr buf, evs') \<Longrightarrow> buf \<noteq> [] \<Longrightarrow> data_of evs = buf @ data_of evs'"
  "read_fd n evs = (Inr [], evs') \<Longrightarrow> 0 < n \<Longrightarrow> data_of evs = []"
  "read_fd n evs = (Inl e, evs') \<Longrightarrow> data_of evs = data_of evs'"
  by (cases "(n, evs)" rule: read_fd.cases; auto split: if_splits)+

lemma write_output_spec:
  assumes "write_output buf st = (r, st')"
  shows "(r = SUCCESS \<and> copied st buf st') \<or> (r = FAILURE \<and> (\<exists>d. prefix d buf \<and> copied st d st'))"
proof -
  obtain nw sk where w: "write_fd buf (pm_sink st) = (nw, sk)" by (cases "write_fd buf (pm_sink st)")
  from w have "sk_bytes sk = sk_bytes (pm_sink st) @ take (nat nw) buf" and n: "nw \<le> int (length buf)" and "-1 \<le> nw"
    by (auto simp: write_fd_def min_def split: list.splits write_ev.splits if_splits)
  moreover have "length (take (nat nw) buf) = nat nw" using n by auto
  ultimately have "copied st (take (nat nw) buf) st' \<and> (r = SUCCESS \<and> nw = int (length buf) \<or> r = FAILURE)"
    using assms w by (auto simp: write_output_def Let_def copied_def split: if_splits)
  then show ?thesis by (auto simp: take_is_prefix)
qed

lemma write_then:
  \<comment> \<open>the bytes one read gave are written, and the rest goes on\<close>
  assumes r: "read_fd n (pm_evs st) = (Inr buf, evs)" "buf \<noteq> []"
    and w: "write_output buf (st\<lparr>pm_evs := evs\<rparr>) = (rtn, st1)"
    and t: "can_continue rtn \<Longrightarrow> \<exists>d. copied st1 d st' \<and> ends wr (pm_evs st1) d (pm_evs st')"
    and f: "\<not> can_continue rtn \<Longrightarrow> wr = rtn \<and> st' = st1"
  shows "\<exists>d. copied st d st' \<and> ends wr (pm_evs st) d (pm_evs st')"
proof -
  note data = read_fd_data(1) [OF r]
  from write_output_spec [OF w] show ?thesis
  proof (elim disjE conjE exE)
    assume s: "rtn = SUCCESS" "copied (st\<lparr>pm_evs := evs\<rparr>) buf st1"
    with t obtain d where d: "copied st1 d st'" "ends wr (pm_evs st1) d (pm_evs st')" by (auto simp: can_continue_def)
    have "copied st buf st1" using s by (simp add: copied_def)
    moreover have "pm_evs st1 = evs" using write_output_evs [OF w] by simp
    ultimately show ?thesis using d ends_append [of "pm_evs st" buf evs wr d "pm_evs st'"] data
      by (intro exI [of _ "buf @ d"]) (auto intro: copied_trans)
  next
    fix d assume s: "rtn = FAILURE" "prefix d buf" "copied (st\<lparr>pm_evs := evs\<rparr>) d st1"
    with f have "wr = FAILURE" "st' = st1" by (auto simp: can_continue_def)
    with s data show ?thesis by (intro exI [of _ d]) (auto simp: copied_def ends_def)
  qed
qed

lemma echo_spec: "echo st = (wr, st') \<Longrightarrow> \<exists>d. copied st d st' \<and> ends wr (pm_evs st) d (pm_evs st')"
proof (induction st arbitrary: wr st' rule: echo.induct)
  case (1 st)
  obtain b st0 where p: "pump_interrupted st = (b, st0)" by (cases "pump_interrupted st")
  then have e: "pm_evs st0 = pm_evs st" "pm_sink st0 = pm_sink st" "pm_n_writ st0 = pm_n_writ st"
    by (auto simp: pump_interrupted_def split: list.splits)
  have lift: "copied st0 d s \<Longrightarrow> copied st d s" for d s using e by (simp add: copied_def)
  consider "b" | err evs where "\<not> b" "read_fd PIPE_BUF (pm_evs st0) = (Inl err, evs)"
    | evs where "\<not> b" "read_fd PIPE_BUF (pm_evs st0) = (Inr [], evs)"
    | buf evs where "\<not> b" "read_fd PIPE_BUF (pm_evs st0) = (Inr buf, evs)" "buf \<noteq> []"
    by (cases "read_fd PIPE_BUF (pm_evs st0)"; cases "fst (read_fd PIPE_BUF (pm_evs st0))"; fastforce)
  then show ?case
  proof cases
    case 1
    with p "1.prems" e show ?thesis by (subst (asm) echo.simps) (auto simp: copied_def ends_def intro!: exI [of _ "[]"])
  next
    case 2
    with p "1.prems" e read_fd_data(3) [OF 2(2)] show ?thesis
      by (subst (asm) echo.simps) (auto simp: copied_def ends_def split: if_splits intro!: exI [of _ "[]"])
  next
    case 3
    with p "1.prems" e read_fd_data(2) [OF 3(2)] show ?thesis
      by (subst (asm) echo.simps) (auto simp: copied_def ends_def intro!: exI [of _ "[]"])
  next
    case 4
    obtain rtn st1 where w: "write_output buf (st0\<lparr>pm_evs := evs\<rparr>) = (rtn, st1)"
      by (cases "write_output buf (st0\<lparr>pm_evs := evs\<rparr>)")
    have r: "(wr, st') = (if can_continue rtn then echo st1 else (rtn, st1))"
      using "1.prems" p 4 w by (subst (asm) echo.simps) simp
    have "\<exists>d. copied st0 d st' \<and> ends wr (pm_evs st0) d (pm_evs st')"
    proof (rule write_then [OF 4(2,3) w])
      show "\<exists>d. copied st1 d st' \<and> ends wr (pm_evs st1) d (pm_evs st')" if "can_continue rtn"
        using "1.IH" [OF p [symmetric] 4(1) 4(2) [symmetric] refl 4(3) w [symmetric] that] r that by simp
    qed (use r in auto)
    then show ?thesis using e lift by auto
  qed
qed

lemma write_to_output_stream_spec:
  assumes "write_to_output_stream (fd, revents) out_fd st = ((fd', wr), st')"
  shows "fd' = fd \<and> (\<exists>d. copied st d st' \<and> ends wr (pm_evs st) d (pm_evs st'))"
proof -
  let ?s = "st\<lparr>pm_read_total := 0\<rparr>" and ?bad = "revents AND (POLLERR OR POLLHUP OR POLLNVAL) \<noteq> 0"
  have lift: "copied ?s d s \<Longrightarrow> copied st d s" for d s by (simp add: copied_def)
  consider "out_fd = -1" | "out_fd \<noteq> -1" "\<not> ?bad"
    | err evs where "out_fd \<noteq> -1" "?bad" "read_fd 8 (pm_evs st) = (Inl err, evs)"
    | evs where "out_fd \<noteq> -1" "?bad" "read_fd 8 (pm_evs st) = (Inr [], evs)"
    | buf evs where "out_fd \<noteq> -1" "?bad" "read_fd 8 (pm_evs st) = (Inr buf, evs)" "buf \<noteq> []"
    by (cases "read_fd 8 (pm_evs st)"; cases "fst (read_fd 8 (pm_evs st))"; fastforce)
  then show ?thesis
  proof cases
    case 1
    with assms show ?thesis by (auto simp: write_to_output_stream_def copied_def ends_def intro!: exI [of _ "[]"])
  next
    case 2
    with assms have "echo ?s = (wr, st')" "fd' = fd"
      by (auto simp: write_to_output_stream_def split: prod.splits)
    with echo_spec [of ?s wr st'] lift show ?thesis by auto
  next
    case 3
    with assms read_fd_data(3) [OF 3(3)] show ?thesis
      by (auto simp: write_to_output_stream_def copied_def ends_def split: if_splits intro!: exI [of _ "[]"])
  next
    case 4
    with assms read_fd_data(2) [OF 4(3)] show ?thesis
      by (auto simp: write_to_output_stream_def copied_def ends_def intro!: exI [of _ "[]"])
  next
    case 5
    obtain rtn st1 where w: "write_output buf (?s\<lparr>pm_evs := evs\<rparr>) = (rtn, st1)"
      by (cases "write_output buf (?s\<lparr>pm_evs := evs\<rparr>)")
    have r: "((fd', wr), st') = (if can_continue rtn then (case echo st1 of (wr, s) \<Rightarrow> ((fd, wr), s)) else ((fd, rtn), st1))"
      using assms 5 w by (simp add: write_to_output_stream_def)
    have "\<exists>d. copied ?s d st' \<and> ends wr (pm_evs ?s) d (pm_evs st')"
    proof (rule write_then [OF _ 5(4) w])
      show "read_fd 8 (pm_evs ?s) = (Inr buf, evs)" using 5 by simp
      show "\<exists>d. copied st1 d st' \<and> ends wr (pm_evs st1) d (pm_evs st')" if "can_continue rtn"
        using r that echo_spec [of st1 wr st'] by (auto split: prod.splits)
    qed (use r in auto)
    moreover have "fd' = fd" using r by (auto split: prod.splits if_splits)
    ultimately show ?thesis using lift by auto
  qed
qed

end
