(* ===== verification/MultiStream.thy ===== *)
theory MultiStream
  imports ReadOnReady UdsPipes "HOL-Library.Multiset" "HOL-Library.AList"
begin

text \<open>
  The streams a client waits for, \<open>stream-ctx.cpp\<close> and \<open>read-multi-strm.cpp\<close>, and the loop that
  copies them, \<open>multi_read_on_ready\<close> of \<open>read-on-ready.cpp\<close>. The process and its descriptor table
  are those of the response pipes, with the descriptions that were made nonblocking beside them.
  The results of \<open>poll\<close> are a script; a run that has used it up is still waiting. The threads of
  one round work on different descriptors, so the model runs them one after the other; a lemma
  shows that their order does not matter. The asserts are the release build's.
\<close>

section \<open>stream_ctx\<close>

record host =
  ho_sys :: sys
  ho_nonblock :: "fdesc list" \<comment> \<open>the open file descriptions with \<open>O_NONBLOCK\<close>\<close>
  ho_fixed :: "fdesc list" \<comment> \<open>those \<open>fcntl(F_SETFL)\<close> fails on\<close>

datatype stream_ctx_error = Stream_ctx_exception

type_synonym 'a host_act = "host \<Rightarrow> (stream_ctx_error + 'a) \<times> host"

record stream_ctx =
  cx_orig :: int
  cx_dup :: int
  cx_is_stderr :: bool

definition cx_default :: stream_ctx where
  "cx_default = \<lparr>cx_orig = -1, cx_dup = -1, cx_is_stderr = False\<rparr>"

definition is_valid_init :: "stream_ctx \<Rightarrow> bool" where
  "is_valid_init cx = (cx_orig cx \<ge> 0 \<and> cx_dup cx \<noteq> -1)"

definition host_fds :: "host \<Rightarrow> nat \<Rightarrow> fdesc option" where
  "host_fds h = fd_at (pr_fds (snd (ho_sys h)))"

definition host_close :: "int \<Rightarrow> host \<Rightarrow> host" where
  "host_close fd h = (if fd \<ge> 0 then h\<lparr>ho_sys := close_fd (nat fd) (ho_sys h)\<rparr> else h)"

definition dup_fd :: "int \<Rightarrow> host \<Rightarrow> int \<times> host" where
  "dup_fd fd h =
     (let (os, p) = ho_sys h in
      case (if fd < 0 then None else host_fds h (nat fd)) of
        None \<Rightarrow> (-1, h)
      | Some d \<Rightarrow>
          (case fd_alloc (pr_limit p) d (pr_fds p) of
             None \<Rightarrow> (-1, h)
           | Some (n, fds) \<Rightarrow> (int n, h\<lparr>ho_sys := (os, p\<lparr>pr_fds := fds\<rparr>)\<rparr>)))"

definition set_nonblock :: "int \<Rightarrow> host \<Rightarrow> int \<times> host" where
  \<comment> \<open>\<open>fcntl\<close> with the flags read before; the flag belongs to the open file description\<close>
  "set_nonblock fd h =
     (case (if fd < 0 then None else host_fds h (nat fd)) of
        None \<Rightarrow> (-1, h)
      | Some d \<Rightarrow> (if d \<in> set (ho_fixed h) then (-1, h) else (0, h\<lparr>ho_nonblock := d # ho_nonblock h\<rparr>)))"

definition close_dup_fd :: "stream_ctx \<Rightarrow> host \<Rightarrow> stream_ctx \<times> host" where
  "close_dup_fd p h = (if cx_dup p \<ge> 0 then (p\<lparr>cx_dup := -1\<rparr>, host_close (cx_dup p) h) else (p, h))"

definition new_stream_ctx :: "int \<Rightarrow> stream_ctx host_act" where
  "new_stream_ctx input_fd h =
     (let (dup_fd, h) = dup_fd input_fd h; cx = cx_default\<lparr>cx_orig := input_fd, cx_dup := dup_fd\<rparr> in
      if dup_fd = -1 then (Inl Stream_ctx_exception, snd (close_dup_fd cx h))
      else (let (rtn, h) = set_nonblock dup_fd h in
            if rtn = -1 then (Inl Stream_ctx_exception, snd (close_dup_fd cx h)) else (Inr cx, h)))"

section \<open>react_io_ctx and read_multi_stream\<close>

record react_io_ctx =
  stdout_ctx :: stream_ctx
  stderr_ctx :: stream_ctx
  stdin_ctx :: stream_ctx

definition drop_react_io_ctx :: "react_io_ctx \<Rightarrow> host \<Rightarrow> host" where
  \<comment> \<open>the destructor\<close>
  "drop_react_io_ctx rx h =
     snd (close_dup_fd (stdout_ctx rx) (snd (close_dup_fd (stderr_ctx rx) (snd (close_dup_fd (stdin_ctx rx) h)))))"

definition with_ctx :: "int \<Rightarrow> (stream_ctx \<Rightarrow> 'a host_act) \<Rightarrow> 'a host_act" where
  \<comment> \<open>a member built first: an exception of the later ones destroys it\<close>
  "with_ctx fd f = bind_s (new_stream_ctx fd) (\<lambda>cx h.
     case f cx h of (Inl e, h) \<Rightarrow> (Inl e, snd (close_dup_fd cx h)) | r \<Rightarrow> r)"

definition react_io_ctx1 :: "int \<Rightarrow> react_io_ctx host_act" where
  "react_io_ctx1 rsp_fd = bind_s (new_stream_ctx rsp_fd) (\<lambda>so h.
     (Inr \<lparr>stdout_ctx = so, stderr_ctx = cx_default, stdin_ctx = cx_default\<rparr>, h))"

definition react_io_ctx3 :: "int \<Rightarrow> int \<Rightarrow> int \<Rightarrow> react_io_ctx host_act" where
  "react_io_ctx3 stdout_fd stderr_fd stdin_fd =
     with_ctx stdout_fd (\<lambda>so. with_ctx stderr_fd (\<lambda>se. with_ctx stdin_fd (\<lambda>si h.
       (Inr \<lparr>stdout_ctx = so, stderr_ctx = se, stdin_ctx = si\<rparr>, h))))"

definition get_stdout_fd :: "react_io_ctx \<Rightarrow> int" where "get_stdout_fd rx = cx_orig (stdout_ctx rx)"
definition get_stderr_fd :: "react_io_ctx \<Rightarrow> int" where "get_stderr_fd rx = cx_orig (stderr_ctx rx)"
definition get_stdin_fd :: "react_io_ctx \<Rightarrow> int" where "get_stdin_fd rx = cx_orig (stdin_ctx rx)"

record read_multi_stream =
  fd_map :: "(int \<times> nat) list" \<comment> \<open>shared pointers: the number of the item each key holds\<close>
  ms_items :: "(nat \<times> react_io_ctx) list"
  ms_next :: nat

definition ms_empty :: read_multi_stream where
  "ms_empty = \<lparr>fd_map = [], ms_items = [], ms_next = 0\<rparr>"

definition ms_size :: "read_multi_stream \<Rightarrow> nat" where
  "ms_size ms = length (fd_map ms)"

definition lookup_react_io_ctx :: "read_multi_stream \<Rightarrow> int \<Rightarrow> react_io_ctx option" where
  "lookup_react_io_ctx ms fd =
     (case map_of (fd_map ms) fd of None \<Rightarrow> None | Some i \<Rightarrow> map_of (ms_items ms) i)"

definition lookup_mutable_stream_ctx :: "read_multi_stream \<Rightarrow> int \<Rightarrow> stream_ctx option" where
  "lookup_mutable_stream_ctx ms fd =
     (case lookup_react_io_ctx ms fd of
        None \<Rightarrow> None
      | Some rx \<Rightarrow>
          (if get_stdout_fd rx = fd then Some (stdout_ctx rx)
           else if get_stderr_fd rx = fd then Some (stderr_ctx rx)
           else if get_stdin_fd rx = fd then Some (stdin_ctx rx) else None))"

definition map_insert :: "int \<Rightarrow> 'a \<Rightarrow> (int \<times> 'a) list \<Rightarrow> (int \<times> 'a) list" where
  \<comment> \<open>\<open>insert\<close> keeps the entry a key has\<close>
  "map_insert k v m = (if map_of m k = None then m @ [(k, v)] else m)"

definition map_erase :: "int \<Rightarrow> (int \<times> 'a) list \<Rightarrow> (int \<times> 'a) list" where
  "map_erase k m = filter (\<lambda>(f, v). f \<noteq> k) m"

definition release_items :: "read_multi_stream \<Rightarrow> host \<Rightarrow> read_multi_stream \<times> host" where
  \<comment> \<open>the items no shared pointer holds any more are destroyed\<close>
  "release_items ms h =
     (let held = (\<lambda>(i, rx). i \<in> snd ` set (fd_map ms))
      in (ms\<lparr>ms_items := filter held (ms_items ms)\<rparr>,
          foldl (\<lambda>h (i, rx). drop_react_io_ctx rx h) h (filter (\<lambda>x. \<not> held x) (ms_items ms))))"

definition ms_remove :: "int \<Rightarrow> read_multi_stream \<Rightarrow> host \<Rightarrow> read_multi_stream \<times> host" where
  "ms_remove fd ms h = release_items (ms\<lparr>fd_map := map_erase fd (fd_map ms)\<rparr>) h"

definition add_entry_to_map :: "int \<Rightarrow> int \<Rightarrow> int \<Rightarrow> read_multi_stream \<Rightarrow> read_multi_stream host_act" where
  \<comment> \<open>and \<open>operator +=\<close> of a tuple\<close>
  "add_entry_to_map stdout_fd stderr_fd stdin_fd ms =
     bind_s (react_io_ctx3 stdout_fd stderr_fd stdin_fd) (\<lambda>rx h.
       let i = ms_next ms;
           m = map_insert stdin_fd i (map_insert stderr_fd i (map_insert stdout_fd i (fd_map ms)));
           rx = rx\<lparr>stderr_ctx := (stderr_ctx rx)\<lparr>cx_is_stderr := True\<rparr>\<rparr>;
           (ms, h) = release_items \<lparr>fd_map = m, ms_items = (i, rx) # ms_items ms, ms_next = Suc i\<rparr> h
       in (Inr ms, h))"

definition add_fd :: "int \<Rightarrow> read_multi_stream \<Rightarrow> read_multi_stream host_act" where
  \<comment> \<open>\<open>operator +=\<close> of a descriptor\<close>
  "add_fd fd ms =
     bind_s (react_io_ctx1 fd) (\<lambda>rx h.
       let i = ms_next ms;
           (ms, h) = release_items \<lparr>fd_map = map_insert fd i (fd_map ms), ms_items = (i, rx) # ms_items ms, ms_next = Suc i\<rparr> h
       in (Inr ms, h))"

section \<open>poll_for_io\<close>

text \<open>
  One pass of the polling loop is an event: \<open>interrupted()\<close> is found true, from then on for good,
  or \<open>poll\<close> returns the descriptors with events, nothing, or an errno.
\<close>

datatype poll_ev = Flag_set | Ready "(int \<times> 16 word) list" | Timeout | Poll_err int

datatype poll_result =
    Poll_ret int "(int \<times> 16 word) list" "poll_ev list" \<comment> \<open>the result, the active descriptors, what comes later\<close>
  | Poll_assert \<comment> \<open>ends the process\<close>
  | Poll_waits

definition flag_set :: "poll_ev list \<Rightarrow> bool" where
  "flag_set evs = (case evs of Flag_set # es \<Rightarrow> True | _ \<Rightarrow> False)"

definition active_fds :: "read_multi_stream \<Rightarrow> (int \<times> 16 word) list \<Rightarrow> (int \<times> 16 word) list" where
  \<comment> \<open>those of the poll array with events; the script gives the order of the array, which holds each
      descriptor once\<close>
  "active_fds ms rs = filter (\<lambda>(fd, revents). fd \<in> fst ` set (fd_map ms) \<and> revents \<noteq> 0) (AList.clearjunk rs)"

fun poll_loop :: "read_multi_stream \<Rightarrow> poll_ev list \<Rightarrow> poll_result" where
  "poll_loop ms [] = Poll_waits"
| "poll_loop ms (Flag_set # evs) = Poll_ret 0 [] (Flag_set # evs)"
| "poll_loop ms (Timeout # evs) = poll_loop ms evs"
| "poll_loop ms (Poll_err ec # evs) = (if ec = EINTR then Poll_ret ec [] evs else Poll_assert)"
| "poll_loop ms (Ready rs # evs) =
     (if active_fds ms rs \<noteq> [] then Poll_ret 0 (active_fds ms rs) evs else poll_loop ms evs)"

definition poll_for_io :: "read_multi_stream \<Rightarrow> poll_ev list \<Rightarrow> poll_result" where
  "poll_for_io ms evs = (if ms_size ms = 0 then Poll_ret (-1) [] evs else poll_loop ms evs)"

section \<open>multi_read_on_ready\<close>

record output_stream_context =
  output_stream :: int \<comment> \<open>its descriptor\<close>
  bytes_written :: "64 word"

definition output_stream_context :: "int \<Rightarrow> output_stream_context" where
  "output_stream_context stream = \<lparr>output_stream = stream, bytes_written = 0\<rparr>"

record mux =
  mx_rms :: read_multi_stream
  mx_outs :: "(int \<times> output_stream_context) list" \<comment> \<open>\<open>output_streams_map\<close>\<close>
  mx_host :: host
  mx_evs :: "int \<Rightarrow> read_ev list" \<comment> \<open>what each input descriptor will give\<close>
  mx_intr :: "int \<Rightarrow> bool list" \<comment> \<open>what its thread will be told by \<open>interrupted()\<close>\<close>
  mx_sinks :: "int \<Rightarrow> sink" \<comment> \<open>the output descriptors\<close>
  mx_ctrl_z :: bool
  mx_ec :: int

definition run_write :: "(int \<times> 16 word) \<times> int \<Rightarrow> mux \<Rightarrow> (int \<times> write_result) \<times> mux" where
  \<comment> \<open>the function of one future: an input descriptor and its output stream\<close>
  "run_write task mx =
     (let ((fd, revents), out_fd) = task;
          n_writ = (case map_of (mx_outs mx) fd of None \<Rightarrow> 0 | Some oc \<Rightarrow> bytes_written oc);
          (r, pm) = write_to_output_stream (fd, revents) out_fd
            \<lparr>pm_evs = mx_evs mx fd, pm_intr = mx_intr mx fd, pm_sink = mx_sinks mx out_fd,
             pm_read_total = 0, pm_n_read = 0, pm_n_writ = n_writ\<rparr>
      in (r, mx\<lparr>mx_evs := (mx_evs mx)(fd := pm_evs pm), mx_intr := (mx_intr mx)(fd := pm_intr pm),
                mx_sinks := (mx_sinks mx)(out_fd := pm_sink pm),
                mx_outs := map (\<lambda>(f, oc). if f = fd then (f, oc\<lparr>bytes_written := pm_n_writ pm\<rparr>) else (f, oc)) (mx_outs mx)\<rparr>))"

definition mx_remove :: "int \<Rightarrow> mux \<Rightarrow> mux" where
  \<comment> \<open>the input context and the output context of a descriptor\<close>
  "mx_remove fd mx =
     (let (ms, h) = ms_remove fd (mx_rms mx) (mx_host mx)
      in mx\<lparr>mx_rms := ms, mx_host := h, mx_outs := map_erase fd (mx_outs mx)\<rparr>)"

fun start_writes :: "(int \<times> 16 word) list \<Rightarrow> mux \<Rightarrow> ((int \<times> 16 word) \<times> int) list \<times> mux" where
  "start_writes [] mx = ([], mx)"
| "start_writes ((fd, revents) # pollfds) mx =
     (case lookup_mutable_stream_ctx (mx_rms mx) fd of
        None \<Rightarrow> start_writes pollfds mx
      | Some prbc \<Rightarrow>
          (if is_valid_init prbc then
             (let mx = mx\<lparr>mx_ctrl_z := True\<rparr> in
              case map_of (mx_outs mx) fd of
                None \<Rightarrow> start_writes pollfds mx
              | Some oc \<Rightarrow> (let (futures, mx) = start_writes pollfds mx in (((fd, revents), output_stream oc) # futures, mx)))
           else ([], mx_remove fd mx)))"

fun run_writes :: "((int \<times> 16 word) \<times> int) list \<Rightarrow> mux \<Rightarrow> (int \<times> write_result) list \<times> mux" where
  "run_writes [] mx = ([], mx)"
| "run_writes (f # futures) mx =
     (let (r, mx) = run_write f mx; (rs, mx) = run_writes futures mx in (r # rs, mx))"

definition obtain_result :: "int \<times> write_result \<Rightarrow> write_result \<times> mux \<Rightarrow> write_result \<times> mux" where
  "obtain_result r acc =
     (let (fd, wr2) = r; (wr, mx) = acc in
      if can_continue wr2 then (wr, mx)
      else
        (let mx = (case lookup_react_io_ctx (mx_rms mx) fd of
                     None \<Rightarrow> mx
                   | Some rx \<Rightarrow> foldl (\<lambda>mx fd_tmp. if fd_tmp = -1 then mx else mx_remove fd_tmp mx) mx
                                  [get_stdout_fd rx, get_stderr_fd rx, get_stdin_fd rx]);
             wr = (if wr = NO_OP then wr2 else wr)
         in (wr, if wr2 \<noteq> END_OF_FILE then mx\<lparr>mx_ec := EXIT_FAILURE\<rparr> else mx)))"

definition read_round :: "(int \<times> 16 word) list \<Rightarrow> mux \<Rightarrow> write_result \<times> mux" where
  \<comment> \<open>the body of the loop for the descriptors that are ready\<close>
  "read_round pollfds mx =
     (let (futures, mx) = start_writes pollfds mx; (rs, mx) = run_writes futures mx
      in foldl (\<lambda>acc r. obtain_result r acc) (NO_OP, mx) rs)"

datatype mux_result = Mux_ret int write_result mux | Mux_assert | Mux_waits mux

lemma poll_loop_less:
  "poll_loop ms evs = Poll_ret rc act evs' \<Longrightarrow> \<not> flag_set evs \<Longrightarrow> length evs' < length evs"
proof (induction evs)
  case (Cons e evs)
  show ?case
  proof (cases "flag_set evs")
    case True
    then obtain es where "evs = Flag_set # es" by (auto simp: flag_set_def split: list.splits poll_ev.splits)
    with Cons.prems show ?thesis by (cases e) (auto simp: flag_set_def split: if_splits)
  next
    case False
    with Cons show ?thesis by (cases e) (auto simp: flag_set_def split: if_splits)
  qed
qed simp

function multi_loop :: "poll_ev list \<Rightarrow> write_result \<Rightarrow> mux \<Rightarrow> mux_result" where
  "multi_loop evs wr mx =
     (if ms_size (mx_rms mx) > 0 \<and> \<not> flag_set evs then
        (case poll_for_io (mx_rms mx) evs of
           Poll_assert \<Rightarrow> Mux_assert
         | Poll_waits \<Rightarrow> Mux_waits mx
         | Poll_ret rc pollfds evs' \<Rightarrow>
             (if rc = EINTR then multi_loop evs' wr mx
              else if rc = 0 then (case read_round pollfds mx of (wr, mx) \<Rightarrow> multi_loop evs' wr mx)
              else Mux_ret (mx_ec mx) wr mx))
      else Mux_ret (mx_ec mx) wr mx)"
  by pat_completeness auto
termination
  by (relation "measure (\<lambda>(evs, wr, mx). length evs)") (auto simp: poll_for_io_def split: if_splits dest: poll_loop_less)

declare multi_loop.simps [simp del]

definition multi_read_on_ready :: "poll_ev list \<Rightarrow> mux \<Rightarrow> mux_result" where
  "multi_read_on_ready evs mx = multi_loop evs NO_OP (mx\<lparr>mx_ec := EXIT_SUCCESS\<rparr>)"

section \<open>Descriptors of the process\<close>

lemma host_fds_close [simp]: "host_fds (host_close fd h) = (if fd \<ge> 0 then (host_fds h)(nat fd := None) else host_fds h)"
proof -
  have "fd_at (pr_fds (snd (close_fd (nat fd) (ho_sys h)))) = (fd_at (pr_fds (snd (ho_sys h))))(nat fd := None)"
    using table_close [of "nat fd" "ho_sys h"] by (simp add: table_def)
  then show ?thesis by (simp add: host_close_def host_fds_def)
qed

lemma host_fds_close_dup [simp]:
  "host_fds (snd (close_dup_fd cx h)) = (if cx_dup cx \<ge> 0 then (host_fds h)(nat (cx_dup cx) := None) else host_fds h)"
  by (simp add: close_dup_fd_def)

lemma dup_fd_spec:
  assumes "dup_fd fd h = (n, h')"
  shows "(n = -1 \<and> h' = h) \<or>
    (\<exists>d. 0 \<le> fd \<and> host_fds h (nat fd) = Some d \<and> 0 \<le> n \<and> host_fds h (nat n) = None \<and> host_fds h' = (host_fds h)(nat n \<mapsto> d))"
  using assms by (auto simp: dup_fd_def host_fds_def split: prod.splits option.splits if_splits dest!: fd_alloc_at)

lemma set_nonblock_spec: "set_nonblock fd h = (r, h') \<Longrightarrow> (r = -1 \<or> r = 0) \<and> host_fds h' = host_fds h"
  by (auto simp: set_nonblock_def host_fds_def split: option.splits if_splits)

definition dup_of :: "int \<Rightarrow> int \<Rightarrow> host \<Rightarrow> host \<Rightarrow> bool" where
  \<comment> \<open>\<open>n\<close> is a new descriptor, the only difference\<close>
  "dup_of fd n h h' = (0 \<le> fd \<and> 0 \<le> n \<and> host_fds h (nat fd) \<noteq> None \<and> host_fds h (nat n) = None \<and>
     host_fds h' = (host_fds h)(nat n := host_fds h (nat fd)))"

section \<open>The threads of one round\<close>

definition thread_fd :: "(int \<times> 16 word) \<times> int \<Rightarrow> int" where "thread_fd task = fst (fst task)"

definition streams :: "mux \<Rightarrow> (int \<times> int) list" where
  \<comment> \<open>the input descriptors with the output descriptors they are copied to\<close>
  "streams mx = map (\<lambda>(fd, oc). (fd, output_stream oc)) (mx_outs mx)"

definition written :: "mux \<Rightarrow> int \<Rightarrow> string" where
  "written mx out_fd = sk_bytes (mx_sinks mx out_fd)"

definition counter :: "mux \<Rightarrow> int \<Rightarrow> 64 word" where
  "counter mx fd = (case map_of (mx_outs mx) fd of None \<Rightarrow> 0 | Some oc \<Rightarrow> bytes_written oc)"

definition separate :: "((int \<times> 16 word) \<times> int) list \<Rightarrow> bool" where
  \<comment> \<open>no two threads share an input or an output\<close>
  "separate fs = (distinct (map thread_fd fs) \<and> distinct (map snd fs))"

lemma map_of_upd_val:
  "map_of (map (\<lambda>(f, oc). if f = fd then (f, g oc) else (f, oc)) m) k = (if k = fd then map_option g (map_of m k) else map_of m k)"
  by (induction m) auto

lemma run_write_local:
  assumes "run_write ((fd, revents), out_fd) mx = (r, mx')"
  shows "mx_rms mx' = mx_rms mx" "mx_host mx' = mx_host mx" "mx_ec mx' = mx_ec mx" "mx_ctrl_z mx' = mx_ctrl_z mx"
    "streams mx' = streams mx" "map fst (mx_outs mx') = map fst (mx_outs mx)"
    "k \<noteq> fd \<Longrightarrow> mx_evs mx' k = mx_evs mx k" "k \<noteq> out_fd \<Longrightarrow> mx_sinks mx' k = mx_sinks mx k"
    "k \<noteq> fd \<Longrightarrow> counter mx' k = counter mx k" "k \<noteq> fd \<Longrightarrow> mx_intr mx' k = mx_intr mx k"
  using assms by (auto simp: run_write_def Let_def streams_def counter_def map_of_upd_val split: prod.splits)

lemma run_write_commute:
  assumes "thread_fd f \<noteq> thread_fd g" "snd f \<noteq> snd g"
  shows "fst (run_write f (snd (run_write g mx))) = fst (run_write f mx)"
    and "snd (run_write f (snd (run_write g mx))) = snd (run_write g (snd (run_write f mx)))"
proof -
  obtain a u x b v y where f: "f = ((a, u), x)" and g: "g = ((b, v), y)" by (metis surj_pair)
  have ne: "a \<noteq> b" "b \<noteq> a" "x \<noteq> y" "y \<noteq> x" using assms by (auto simp: f g thread_fd_def)
  show "fst (run_write f (snd (run_write g mx))) = fst (run_write f mx)"
    using ne by (auto simp: f g run_write_def Let_def map_of_upd_val split: prod.splits)
  show "snd (run_write f (snd (run_write g mx))) = snd (run_write g (snd (run_write f mx)))"
    using ne by (auto simp: f g run_write_def Let_def map_of_upd_val fun_upd_twist split: prod.splits)
qed

lemma run_writes_state: "snd (run_writes fs mx) = fold (\<lambda>f mx. snd (run_write f mx)) fs mx"
  by (induction fs arbitrary: mx) (simp_all add: Let_def case_prod_beta)

lemma run_writes_alone:
  assumes "separate fs"
  shows "fst (run_writes fs mx) = map (\<lambda>f. fst (run_write f mx)) fs"
  using assms
proof (induction fs arbitrary: mx)
  case (Cons f fs)
  have n: "thread_fd f \<notin> thread_fd ` set fs" "snd f \<notin> snd ` set fs" using Cons.prems by (simp_all add: separate_def)
  have "fst (run_write g (snd (run_write f mx))) = fst (run_write g mx)" if "g \<in> set fs" for g
    by (rule run_write_commute) (metis n imageI that)+
  with Cons show ?case by (auto simp: separate_def Let_def case_prod_beta)
qed simp


definition two_streams :: mux where
  \<comment> \<open>bytes waiting at descriptors 4 and 5\<close>
  "two_streams = \<lparr>mx_rms = ms_empty, mx_outs = [(4, output_stream_context 1), (5, output_stream_context 2)],
     mx_host = \<lparr>ho_sys = (asked, asker), ho_nonblock = [], ho_fixed = []\<rparr>,
     mx_evs = (\<lambda>fd. if fd = 4 then [Rd ''out'', Rd_err EAGAIN] else [Rd ''error'', Rd []]), mx_intr = (\<lambda>fd. []),
     mx_sinks = (\<lambda>out. \<lparr>sk_bytes = [], sk_evs = []\<rparr>), mx_ctrl_z = True, mx_ec = 0\<rparr>"


end
