(* ===== verification/CopyLoop.thy ===== *)
theory CopyLoop
  imports MultiStream
begin

text \<open>
  What the loop of \<open>multi_read_on_ready\<close> achieves: the bytes each stream has brought are on its
  output, in order, and the end of any one stream takes all streams of the call away.
\<close>

section \<open>One copy\<close>

definition moved :: "mux \<Rightarrow> int \<Rightarrow> int \<Rightarrow> write_result \<Rightarrow> mux \<Rightarrow> bool" where
  "moved mx fd out wr mx' =
     (\<exists>d. written mx' out = written mx out @ d \<and> counter mx' fd = counter mx fd + of_nat (length d) \<and>
          ends wr (mx_evs mx fd) d (mx_evs mx' fd))"

lemma run_write_moved:
  assumes "run_write ((fd, revents), out) mx = ((fd', wr), mx')" and "fd \<in> fst ` set (mx_outs mx)"
  shows "fd' = fd \<and> moved mx fd out wr mx'"
proof -
  let ?st = "\<lparr>pm_evs = mx_evs mx fd, pm_intr = mx_intr mx fd, pm_sink = mx_sinks mx out,
     pm_read_total = 0, pm_n_read = 0, pm_n_writ = counter mx fd\<rparr>"
  obtain r pm where w: "write_to_output_stream (fd, revents) out ?st = (r, pm)"
    by (cases "write_to_output_stream (fd, revents) out ?st")
  obtain oc where oc: "map_of (mx_outs mx) fd = Some oc" using assms(2) by (metis map_of_eq_None_iff not_Some_eq)
  have r: "r = (fd', wr)" and e: "mx_evs mx' fd = pm_evs pm" and o: "mx_sinks mx' out = pm_sink pm"
    and c: "counter mx' fd = pm_n_writ pm"
    using assms(1) w oc by (auto simp: run_write_def counter_def map_of_upd_val Let_def split: prod.splits)
  from write_to_output_stream_spec [OF w [unfolded r]]
  obtain d where "fd' = fd" "copied ?st d pm" "ends wr (mx_evs mx fd) d (pm_evs pm)" by auto
  then show ?thesis using e o c by (auto simp: moved_def copied_def written_def)
qed

definition untouched :: "int set \<Rightarrow> int set \<Rightarrow> mux \<Rightarrow> mux \<Rightarrow> bool" where
  \<comment> \<open>all but the threads' own inputs and outputs\<close>
  "untouched fds os mx mx' =
     (mx_rms mx' = mx_rms mx \<and> mx_host mx' = mx_host mx \<and> mx_ec mx' = mx_ec mx \<and> streams mx' = streams mx \<and>
      (\<forall>fd. fd \<notin> fds \<longrightarrow> mx_evs mx' fd = mx_evs mx fd \<and> counter mx' fd = counter mx fd) \<and>
      (\<forall>out. out \<notin> os \<longrightarrow> mx_sinks mx' out = mx_sinks mx out))"

lemma untouched_trans:
  "untouched A B mx mx1 \<Longrightarrow> untouched C D mx1 mx2 \<Longrightarrow> A \<subseteq> E \<Longrightarrow> C \<subseteq> E \<Longrightarrow> B \<subseteq> F \<Longrightarrow> D \<subseteq> F \<Longrightarrow> untouched E F mx mx2"
  unfolding untouched_def by (metis subsetD)

lemma moved_before:
  "untouched A B mx mx1 \<Longrightarrow> fd \<notin> A \<Longrightarrow> out \<notin> B \<Longrightarrow> moved mx1 fd out wr mx2 \<Longrightarrow> moved mx fd out wr mx2"
  by (simp add: untouched_def moved_def written_def)

lemma moved_after:
  "untouched A B mx1 mx2 \<Longrightarrow> fd \<notin> A \<Longrightarrow> out \<notin> B \<Longrightarrow> moved mx fd out wr mx1 \<Longrightarrow> moved mx fd out wr mx2"
  by (simp add: untouched_def moved_def written_def)

lemma streams_keys: "map fst (streams mx) = map fst (mx_outs mx)"
  by (simp add: streams_def case_prod_beta comp_def)

lemma run_writes_moved:
  assumes "run_writes fs mx = (rs, mx')" and "separate fs" and "thread_fd ` set fs \<subseteq> fst ` set (streams mx)"
  shows "untouched (thread_fd ` set fs) (snd ` set fs) mx mx' \<and> map fst rs = map thread_fd fs \<and>
    (\<forall>f\<in>set fs. \<exists>wr. (thread_fd f, wr) \<in> set rs \<and> moved mx (thread_fd f) (snd f) wr mx')"
  using assms
proof (induction fs arbitrary: mx rs)
  case Nil
  then show ?case by (simp add: untouched_def)
next
  case (Cons f fs)
  obtain fd rv out where f: "f = ((fd, rv), out)" by (metis surj_pair)
  obtain fd' wr mx1 where w: "run_write f mx = ((fd', wr), mx1)" by (metis surj_pair)
  obtain rs1 where r: "run_writes fs mx1 = (rs1, mx')" and rs: "rs = (fd', wr) # rs1"
    using Cons.prems(1) w by (auto simp: Let_def split: prod.splits)
  have in_keys: "fd \<in> fst ` set (mx_outs mx)" using Cons.prems(3) streams_keys [of mx]
    by (auto simp: f thread_fd_def simp flip: set_map)
  note m = run_write_moved [OF w [unfolded f] in_keys]
  note loc = run_write_local [OF w [unfolded f]]
  have u1: "untouched {fd} {out} mx mx1" using loc by (simp add: untouched_def)
  have s: "separate fs" "fd \<notin> thread_fd ` set fs" "out \<notin> snd ` set fs"
    using Cons.prems(2) by (simp_all add: separate_def f thread_fd_def)
  have ih: "untouched (thread_fd ` set fs) (snd ` set fs) mx1 mx' \<and> map fst rs1 = map thread_fd fs \<and>
    (\<forall>g\<in>set fs. \<exists>wr. (thread_fd g, wr) \<in> set rs1 \<and> moved mx1 (thread_fd g) (snd g) wr mx')"
    by (rule Cons.IH [OF r s(1)]) (use Cons.prems(3) loc(5) in auto)
  have "moved mx fd out wr mx'" by (rule moved_after [OF _ s(2,3)]) (use ih m in auto)
  moreover have "moved mx (thread_fd g) (snd g) wr mx'" if "g \<in> set fs" "moved mx1 (thread_fd g) (snd g) wr mx'" for g wr
  proof (rule moved_before [OF u1 _ _ that(2)])
    show "thread_fd g \<notin> {fd}" "snd g \<notin> {out}" using that(1) s(2,3) by (metis imageI singletonD)+
  qed
  ultimately have "\<forall>g\<in>set (f # fs). \<exists>wr. (thread_fd g, wr) \<in> set rs \<and> moved mx (thread_fd g) (snd g) wr mx'"
    using ih m by (fastforce simp: f rs thread_fd_def)
  moreover have "untouched (thread_fd ` set (f # fs)) (snd ` set (f # fs)) mx mx'"
    by (rule untouched_trans [OF u1, of "thread_fd ` set fs" "snd ` set fs"]) (use ih in \<open>auto simp: f thread_fd_def\<close>)
  ultimately show ?case using ih m by (simp add: rs f thread_fd_def)
qed

section \<open>The streams of one call\<close>

text \<open>
  In a run of the client all descriptors belong to one \<open>react_io_ctx\<close>. \<open>one_call\<close> describes the
  state while its streams are open, and \<open>left_over\<close> what is left when only some of the keys are.
\<close>

definition call_fds :: "react_io_ctx \<Rightarrow> int set" where
  "call_fds rx = {get_stdout_fd rx, get_stderr_fd rx, get_stdin_fd rx} - {-1}"

definition one_call :: "nat \<Rightarrow> react_io_ctx \<Rightarrow> mux \<Rightarrow> bool" where
  "one_call i rx mx =
     (let fds = map fst (mx_outs mx) in
      fds \<noteq> [] \<and> distinct fds \<and> set fds = call_fds rx \<and> distinct (map snd (streams mx)) \<and>
      fd_map (mx_rms mx) = map (\<lambda>fd. (fd, i)) fds \<and> ms_items (mx_rms mx) = [(i, rx)] \<and>
      (\<forall>cx \<in> {stdout_ctx rx, stderr_ctx rx, stdin_ctx rx}. cx_orig cx = -1 \<or> is_valid_init cx))"

definition left_over :: "nat \<Rightarrow> react_io_ctx \<Rightarrow> int list \<Rightarrow> mux \<Rightarrow> mux" where
  "left_over i rx fds mx =
     mx\<lparr>mx_rms := (mx_rms mx)\<lparr>fd_map := map (\<lambda>fd. (fd, i)) fds, ms_items := (if fds = [] then [] else [(i, rx)])\<rparr>,
        mx_outs := filter (\<lambda>(f, oc). f \<in> set fds) (mx_outs mx),
        mx_host := (if fds = [] then drop_react_io_ctx rx (mx_host mx) else mx_host mx)\<rparr>"

definition closed_call :: "react_io_ctx \<Rightarrow> mux \<Rightarrow> mux" where
  "closed_call rx mx = left_over 0 rx [] mx"

lemma map_erase_keys: "map_erase k (map (\<lambda>fd. (fd, i)) fds) = map (\<lambda>fd. (fd, i)) (filter (\<lambda>f. f \<noteq> k) fds)"
  by (induction fds) (auto simp: map_erase_def)

lemma mx_remove_left_over: "mx_remove fd (left_over i rx fds mx) = left_over i rx (filter (\<lambda>f. f \<noteq> fd) fds) mx"
proof -
  let ?fds = "filter (\<lambda>f. f \<noteq> fd) fds"
  have o: "map_erase fd (filter (\<lambda>(f, oc). f \<in> set fds) m) = filter (\<lambda>(f, oc). f \<in> set ?fds) m" for m :: "(int \<times> 'a) list"
    unfolding map_erase_def by (subst filter_filter) (rule filter_cong, auto)
  have r: "release_items \<lparr>fd_map = map (\<lambda>fd. (fd, i)) ?fds, ms_items = [(i, rx)], ms_next = n\<rparr> h =
      (\<lparr>fd_map = map (\<lambda>fd. (fd, i)) ?fds, ms_items = (if ?fds = [] then [] else [(i, rx)]), ms_next = n\<rparr>,
       if ?fds = [] then drop_react_io_ctx rx h else h)" for n h
    by (cases "?fds") (auto simp: release_items_def Let_def)
  show ?thesis
  proof (cases "fds = []")
    case True
    then show ?thesis by (simp add: mx_remove_def left_over_def ms_remove_def release_items_def map_erase_def Let_def)
  next
    case False
    then show ?thesis
      by (cases "mx_rms mx") (simp add: mx_remove_def left_over_def ms_remove_def map_erase_keys o r Let_def del: set_filter)
  qed
qed

lemma remove_all_left_over:
  "foldl (\<lambda>mx fd_tmp. if fd_tmp = -1 then mx else mx_remove fd_tmp mx) (left_over i rx fds mx) ks =
     left_over i rx (filter (\<lambda>f. f = -1 \<or> f \<notin> set ks) fds) mx"
proof (induction ks arbitrary: fds)
  case (Cons k ks)
  have "filter (\<lambda>f. f = -1 \<or> f \<notin> set ks) (filter (\<lambda>f. f \<noteq> k) fds) = filter (\<lambda>f. f = -1 \<or> f \<notin> set (k # ks)) fds"
    if "k \<noteq> -1" using that by (auto intro: filter_cong)
  moreover have "filter (\<lambda>f. f = -1 \<or> f \<notin> set ks) fds = filter (\<lambda>f. f = -1 \<or> f \<notin> set (k # ks)) fds"
    if "k = -1" using that by (auto intro: filter_cong)
  ultimately show ?case using Cons.IH by (cases "k = -1") (auto simp: mx_remove_left_over simp del: filter_filter)
qed simp

lemma left_over_all:
  assumes "one_call i rx mx"
  shows "left_over i rx (map fst (mx_outs mx)) mx = mx"
proof -
  have "filter (\<lambda>(f, oc). f \<in> set (map fst (mx_outs mx))) (mx_outs mx) = mx_outs mx"
    by (rule filter_True) force
  moreover have "map fst (mx_outs mx) \<noteq> []" "fd_map (mx_rms mx) = map (\<lambda>fd. (fd, i)) (map fst (mx_outs mx))"
      "ms_items (mx_rms mx) = [(i, rx)]"
    using assms by (simp_all add: one_call_def Let_def)
  ultimately show ?thesis by (simp only: left_over_def if_False) simp
qed

lemma one_call_lookup:
  assumes "one_call i rx mx" and "fd \<in> fst ` set (mx_outs mx)"
  shows "lookup_react_io_ctx (mx_rms mx) fd = Some rx"
    and "\<exists>cx. lookup_mutable_stream_ctx (mx_rms mx) fd = Some cx \<and> is_valid_init cx"
proof -
  have look: "fd \<in> set fds \<Longrightarrow> map_of (map (\<lambda>fd. (fd, i)) fds) fd = Some i" for fds by (induction fds) auto
  then show r: "lookup_react_io_ctx (mx_rms mx) fd = Some rx"
  proof -
    note 1 = look [of "map fst (mx_outs mx)"]
    have "fd_map (mx_rms mx) = map (\<lambda>fd. (fd, i)) (map fst (mx_outs mx))" "ms_items (mx_rms mx) = [(i, rx)]"
      using assms(1) by (simp_all add: one_call_def Let_def)
    then show ?thesis using 1 assms(2) by (simp add: lookup_react_io_ctx_def)
  qed
  have "fd \<in> call_fds rx" using assms by (simp add: one_call_def Let_def)
  then have c: "fd \<noteq> -1" "get_stdout_fd rx = fd \<or> get_stderr_fd rx = fd \<or> get_stdin_fd rx = fd"
    by (auto simp: call_fds_def)
  have "\<forall>cx \<in> {stdout_ctx rx, stderr_ctx rx, stdin_ctx rx}. cx_orig cx = -1 \<or> is_valid_init cx"
    using assms(1) unfolding one_call_def Let_def by blast
  then have v: "cx_orig cx = fd \<Longrightarrow> cx = stdout_ctx rx \<or> cx = stderr_ctx rx \<or> cx = stdin_ctx rx \<Longrightarrow> is_valid_init cx" for cx
    using c(1) by blast
  show "\<exists>cx. lookup_mutable_stream_ctx (mx_rms mx) fd = Some cx \<and> is_valid_init cx"
    using c(2) v [unfolded get_stdout_fd_def] unfolding lookup_mutable_stream_ctx_def r
    by (auto simp: get_stdout_fd_def get_stderr_fd_def get_stdin_fd_def)
qed

lemma remove_call:
  assumes "one_call i rx mx"
  shows "foldl (\<lambda>mx fd_tmp. if fd_tmp = -1 then mx else mx_remove fd_tmp mx) mx
       [get_stdout_fd rx, get_stderr_fd rx, get_stdin_fd rx] = closed_call rx mx"
proof -
  let ?fds = "map fst (mx_outs mx)" and ?ks = "[get_stdout_fd rx, get_stderr_fd rx, get_stdin_fd rx]"
  have "set ?fds = call_fds rx" using assms by (simp add: one_call_def Let_def)
  then have "filter (\<lambda>f. f = -1 \<or> f \<notin> set ?ks) ?fds = []" by (auto simp: filter_empty_conv call_fds_def)
  then show ?thesis
    using remove_all_left_over [of i rx ?fds mx ?ks] unfolding left_over_all [OF assms]
    by (simp only: closed_call_def) (simp add: left_over_def)
qed

section \<open>One round\<close>

lemma one_call_cong:
  assumes "one_call i rx mx" and "mx_rms mx' = mx_rms mx" and "streams mx' = streams mx"
  shows "one_call i rx mx'"
proof -
  have "map fst (mx_outs mx') = map fst (mx_outs mx)" using streams_keys [of mx] streams_keys [of mx'] assms(3) by simp
  with assms show ?thesis unfolding one_call_def by simp
qed

definition task_of :: "mux \<Rightarrow> int \<times> 16 word \<Rightarrow> (int \<times> 16 word) \<times> int" where
  "task_of mx p = (p, output_stream (the (map_of (mx_outs mx) (fst p))))"

lemma start_writes_call:
  "one_call i rx mx \<Longrightarrow> fst ` set ps \<subseteq> fst ` set (mx_outs mx) \<Longrightarrow>
   start_writes ps mx = (map (task_of mx) ps, if ps = [] then mx else mx\<lparr>mx_ctrl_z := True\<rparr>)"
proof (induction ps arbitrary: mx)
  case (Cons p ps)
  obtain fd rv where p: "p = (fd, rv)" by (cases p)
  let ?mx = "mx\<lparr>mx_ctrl_z := True\<rparr>"
  have fd: "fd \<in> fst ` set (mx_outs mx)" using Cons.prems(2) by (simp add: p)
  have oc: "one_call i rx ?mx" using Cons.prems(1) by (rule one_call_cong) (simp_all add: streams_def)
  obtain cx where cx: "lookup_mutable_stream_ctx (mx_rms mx) fd = Some cx" "is_valid_init cx"
    using one_call_lookup(2) [OF Cons.prems(1) fd] by blast
  obtain o' where o: "map_of (mx_outs mx) fd = Some o'" using fd by (metis map_of_eq_None_iff not_Some_eq)
  have t: "task_of ?mx = task_of mx" by (simp add: task_of_def fun_eq_iff)
  have "start_writes ps ?mx = (map (task_of mx) ps, ?mx)"
    using Cons.IH [OF oc] Cons.prems(2) by (simp add: t)
  then show ?case using cx o by (simp add: p task_of_def)
qed simp

lemma tasks_separate:
  assumes "one_call i rx mx" and "distinct (map fst ps)" and "fst ` set ps \<subseteq> fst ` set (mx_outs mx)"
  shows "separate (map (task_of mx) ps) \<and> (\<forall>p\<in>set ps. (fst p, snd (task_of mx p)) \<in> set (streams mx))"
proof
  show m: "\<forall>p\<in>set ps. (fst p, snd (task_of mx p)) \<in> set (streams mx)"
  proof
    fix p assume "p \<in> set ps"
    with assms(3) have "fst p \<in> fst ` set (mx_outs mx)" by auto
    then obtain oc where oc: "map_of (mx_outs mx) (fst p) = Some oc" by (metis map_of_eq_None_iff not_Some_eq)
    from map_of_SomeD [OF this] show "(fst p, snd (task_of mx p)) \<in> set (streams mx)"
      unfolding streams_def task_of_def oc by (auto intro!: rev_image_eqI)
  qed
  have "distinct (map snd (streams mx))" using assms(1) by (simp add: one_call_def Let_def)
  then have "inj_on snd (set (streams mx))" by (simp add: distinct_map)
  then have "inj_on (\<lambda>p. snd (task_of mx p)) (set ps)"
  proof (intro inj_onI)
    fix p q assume i: "inj_on snd (set (streams mx))" and p: "p \<in> set ps" and q: "q \<in> set ps"
      and e: "snd (task_of mx p) = snd (task_of mx q)"
    have "fst p = fst q" using inj_onD [OF i, of "(fst p, snd (task_of mx p))" "(fst q, snd (task_of mx q))"] m p q e by auto
    with assms(2) p q show "p = q" by (auto simp: distinct_map dest: inj_onD)
  qed
  moreover have "distinct ps" using assms(2) by (simp add: distinct_map)
  ultimately have "distinct (map snd (map (task_of mx) ps))" by (simp add: distinct_map comp_def)
  moreover have "map thread_fd (map (task_of mx) ps) = map fst ps" by (simp add: thread_fd_def task_of_def)
  ultimately show "separate (map (task_of mx) ps)" using assms(2) by (simp only: separate_def)
qed

definition ended :: "(int \<times> write_result) list \<Rightarrow> write_result list" where
  "ended rs = filter (\<lambda>wr. \<not> can_continue wr) (map snd rs)"

lemma collect_closed:
  "fd_map (mx_rms mx) = [] \<Longrightarrow> wr \<noteq> NO_OP \<Longrightarrow> foldl (\<lambda>acc r. obtain_result r acc) (wr, mx) rs =
     (wr, if list_all ((=) END_OF_FILE) (ended rs) then mx else mx\<lparr>mx_ec := EXIT_FAILURE\<rparr>)"
proof (induction rs arbitrary: mx)
  case (Cons r rs)
  obtain fd wr2 where r: "r = (fd, wr2)" by (cases r)
  have l: "lookup_react_io_ctx (mx_rms mx) fd = None" using Cons.prems(1) by (simp add: lookup_react_io_ctx_def)
  show ?case
    using Cons.prems Cons.IH [of mx] Cons.IH [of "mx\<lparr>mx_ec := EXIT_FAILURE\<rparr>"]
    by (auto simp: r obtain_result_def l ended_def)
qed (simp add: ended_def)

lemma collect_call:
  assumes "one_call i rx mx" and "fst ` set rs \<subseteq> fst ` set (mx_outs mx)"
  shows "foldl (\<lambda>acc r. obtain_result r acc) (NO_OP, mx) rs =
     (if ended rs = [] then (NO_OP, mx)
      else (hd (ended rs), if list_all ((=) END_OF_FILE) (ended rs) then closed_call rx mx
                           else (closed_call rx mx)\<lparr>mx_ec := EXIT_FAILURE\<rparr>))"
  using assms(2)
proof (induction rs)
  case (Cons r rs)
  obtain fd wr2 where r: "r = (fd, wr2)" by (cases r)
  show ?case
  proof (cases "can_continue wr2")
    case True
    then show ?thesis using Cons by (simp add: r obtain_result_def ended_def)
  next
    case False
    let ?c = "closed_call rx mx"
    have "lookup_react_io_ctx (mx_rms mx) fd = Some rx" by (rule one_call_lookup(1) [OF assms(1)]) (use Cons.prems in \<open>simp add: r\<close>)
    then have o: "obtain_result r (NO_OP, mx) = (wr2, if wr2 \<noteq> END_OF_FILE then ?c\<lparr>mx_ec := EXIT_FAILURE\<rparr> else ?c)"
      using False remove_call [OF assms(1)] by (simp add: r obtain_result_def)
    have c: "fd_map (mx_rms ?c) = []" by (simp add: closed_call_def left_over_def)
    have "wr2 \<noteq> NO_OP" using False by (auto simp: can_continue_def)
    then show ?thesis
      using False c collect_closed [of ?c wr2 rs] collect_closed [of "?c\<lparr>mx_ec := EXIT_FAILURE\<rparr>" wr2 rs]
      by (auto simp: o) (simp_all add: ended_def r)
  qed
qed (simp add: ended_def)

text \<open>
  \<open>delivers mx mx'\<close>: what the streams of \<open>mx\<close> have brought is written, in order and complete; while
  the call is open nothing else is gone from the inputs.
\<close>

definition delivered :: "mux \<Rightarrow> int \<Rightarrow> int \<Rightarrow> mux \<Rightarrow> bool" where
  "delivered mx fd out mx' =
     (\<exists>d. written mx' out = written mx out @ d \<and> prefix d (data_of (mx_evs mx fd)) \<and>
        (mx_outs mx' \<noteq> [] \<longrightarrow> data_of (mx_evs mx fd) = d @ data_of (mx_evs mx' fd) \<and>
                            counter mx' fd = counter mx fd + of_nat (length d)))"

definition delivers :: "mux \<Rightarrow> mux \<Rightarrow> bool" where
  "delivers mx mx' =
     ((\<forall>(fd, out) \<in> set (streams mx). delivered mx fd out mx') \<and>
      (\<forall>out. out \<notin> snd ` set (streams mx) \<longrightarrow> mx_sinks mx' out = mx_sinks mx out))"

definition still_open :: "nat \<Rightarrow> react_io_ctx \<Rightarrow> mux \<Rightarrow> write_result \<Rightarrow> mux \<Rightarrow> bool" where
  "still_open i rx mx wr mx' =
     (wr = NO_OP \<and> one_call i rx mx' \<and> mx_ec mx' = mx_ec mx \<and> streams mx' = streams mx \<and> mx_host mx' = mx_host mx)"

definition all_written :: "mux \<Rightarrow> mux \<Rightarrow> bool" where
  \<comment> \<open>one of the streams has been written to its end\<close>
  "all_written mx mx' = (\<exists>(fd, out) \<in> set (streams mx). written mx' out = written mx out @ data_of (mx_evs mx fd))"

definition torn_down :: "react_io_ctx \<Rightarrow> mux \<Rightarrow> write_result \<Rightarrow> mux \<Rightarrow> bool" where
  \<comment> \<open>after the end of some stream\<close>
  "torn_down rx mx wr mx' =
     (\<not> can_continue wr \<and> mx_outs mx' = [] \<and> fd_map (mx_rms mx') = [] \<and> ms_items (mx_rms mx') = [] \<and>
      mx_host mx' = drop_react_io_ctx rx (mx_host mx) \<and>
      (mx_ec mx' = mx_ec mx \<or> mx_ec mx' = EXIT_FAILURE) \<and> (wr \<noteq> END_OF_FILE \<longrightarrow> mx_ec mx' = EXIT_FAILURE) \<and>
      (wr = END_OF_FILE \<longrightarrow> all_written mx mx'))"

lemma delivered_trans:
  assumes "delivered mx fd out mx1" and "mx_outs mx1 \<noteq> []" and "delivered mx1 fd out mx2"
  shows "delivered mx fd out mx2"
proof -
  obtain d where d: "written mx1 out = written mx out @ d" "data_of (mx_evs mx fd) = d @ data_of (mx_evs mx1 fd)"
    "counter mx1 fd = counter mx fd + of_nat (length d)" using assms(1,2) by (auto simp: delivered_def)
  obtain e where e: "written mx2 out = written mx1 out @ e" "prefix e (data_of (mx_evs mx1 fd))"
    "mx_outs mx2 \<noteq> [] \<Longrightarrow> data_of (mx_evs mx1 fd) = e @ data_of (mx_evs mx2 fd) \<and>
       counter mx2 fd = counter mx1 fd + of_nat (length e)" using assms(3) by (auto simp: delivered_def)
  show ?thesis unfolding delivered_def by (rule exI [of _ "d @ e"]) (use d e in auto)
qed

lemma call_open: "one_call i rx mx \<Longrightarrow> mx_outs mx \<noteq> []"
  by (auto simp: one_call_def Let_def)

lemma delivers_trans:
  assumes "delivers mx mx1" and "still_open i rx mx wr mx1" and "delivers mx1 mx2"
  shows "delivers mx mx2"
proof -
  have s: "streams mx1 = streams mx" and o: "mx_outs mx1 \<noteq> []" using assms(2) call_open by (auto simp: still_open_def)
  show ?thesis using assms(1,3) delivered_trans [OF _ o] unfolding delivers_def s by (auto; blast)
qed

lemma torn_down_trans:
  assumes "delivers mx mx1" and "still_open i rx mx wr mx1" and "torn_down rx mx1 wr' mx2"
  shows "torn_down rx mx wr' mx2"
proof -
  have s: "streams mx1 = streams mx" "mx_outs mx1 \<noteq> []" "mx_ec mx1 = mx_ec mx" "mx_host mx1 = mx_host mx"
    using assms(2) call_open by (auto simp: still_open_def)
  have "all_written mx mx2" if w: "all_written mx1 mx2"
  proof -
    obtain fd out where f: "(fd, out) \<in> set (streams mx)" "written mx2 out = written mx1 out @ data_of (mx_evs mx1 fd)"
      using w by (auto simp: all_written_def s)
    moreover have "delivered mx fd out mx1" using assms(1) f(1) by (auto simp: delivers_def)
    ultimately show ?thesis using s(2)
      by (auto simp: all_written_def delivered_def intro!: bexI [of _ "(fd, out)"])
  qed
  with assms(3) s show ?thesis by (auto simp: torn_down_def)
qed

lemma round_moved:
  \<comment> \<open>what the threads of a round did to each stream\<close>
  assumes "one_call i rx mx" and "distinct (map fst ps)" and "fst ` set ps \<subseteq> fst ` set (mx_outs mx)"
    and "run_writes (map (task_of mx) ps) mx = (rs, mx')"
  shows "map fst rs = map fst ps"
    and "one_call i rx mx'" and "streams mx' = streams mx" and "mx_host mx' = mx_host mx" and "mx_ec mx' = mx_ec mx"
    and "out \<notin> snd ` set (streams mx) \<Longrightarrow> mx_sinks mx' out = mx_sinks mx out"
    and "(fd, out) \<in> set (streams mx) \<Longrightarrow>
      \<exists>wr. (fd \<notin> fst ` set ps \<and> wr = NO_OP \<or> (fd, wr) \<in> set rs) \<and> moved mx fd out wr mx'"
proof -
  let ?fs = "map (task_of mx) ps"
  have t: "thread_fd (task_of mx p) = fst p" for p by (simp add: task_of_def thread_fd_def)
  note sep = tasks_separate [OF assms(1-3)]
  have fk: "thread_fd ` set ?fs \<subseteq> fst ` set (streams mx)" using sep by (force simp: t)
  have moved: "untouched (thread_fd ` set ?fs) (snd ` set ?fs) mx mx'" "map fst rs = map thread_fd ?fs"
    "\<And>f. f \<in> set ?fs \<Longrightarrow> \<exists>wr. (thread_fd f, wr) \<in> set rs \<and> moved mx (thread_fd f) (snd f) wr mx'"
    using run_writes_moved [OF assms(4) _ fk] sep by auto
  show "map fst rs = map fst ps" using moved(2) by (simp add: t)
  show s: "streams mx' = streams mx" and "mx_host mx' = mx_host mx" and "mx_ec mx' = mx_ec mx"
    using moved(1) by (simp_all add: untouched_def)
  show "one_call i rx mx'" by (rule one_call_cong [OF assms(1)]) (use moved(1) in \<open>simp_all add: untouched_def\<close>)
  show "mx_sinks mx' out = mx_sinks mx out" if "out \<notin> snd ` set (streams mx)"
  proof -
    have "out \<notin> snd ` set ?fs" using sep that by (metis (no_types, lifting) image_iff list.set_map snd_conv)
    with moved(1) show ?thesis by (simp add: untouched_def)
  qed
  have d: "distinct (map fst (streams mx))" "distinct (map snd (streams mx))"
    using assms(1) by (simp_all add: one_call_def Let_def streams_keys)
  show "\<exists>wr. (fd \<notin> fst ` set ps \<and> wr = NO_OP \<or> (fd, wr) \<in> set rs) \<and> moved mx fd out wr mx'"
    if fo: "(fd, out) \<in> set (streams mx)"
  proof (cases "fd \<in> fst ` set ps")
    case True
    then obtain p where p: "p \<in> set ps" "fst p = fd" by blast
    have "snd (task_of mx p) = out"
      using eq_key_imp_eq_value [OF d(1) fo, of "snd (task_of mx p)"] sep p by auto
    then show ?thesis using moved(3) [of "task_of mx p"] p by (auto simp: t)
  next
    case False
    have "out \<notin> snd ` set ?fs"
    proof
      assume "out \<in> snd ` set ?fs"
      then obtain p where p: "p \<in> set ps" "snd (task_of mx p) = out" by auto
      with sep fo have "(fst p, out) \<in> set (streams mx)" by auto
      with d(2) fo have "fst p = fd"
        using inj_onD [of snd "set (streams mx)" "(fst p, out)" "(fd, out)"] by (simp add: distinct_map)
      with p False show False by force
    qed
    moreover have "thread_fd ` set ?fs = fst ` set ps" by (simp add: image_image t)
    ultimately have "moved mx fd out NO_OP mx'"
      using moved(1) False by (auto simp: untouched_def moved_def written_def ends_def intro!: exI [of _ "[]"])
    with False show ?thesis by blast
  qed
qed

lemma moved_delivered:
  assumes "moved mx fd out wr mx1" and "written mx2 out = written mx1 out"
    and "mx_outs mx2 \<noteq> [] \<Longrightarrow> can_continue wr \<and> mx_evs mx2 fd = mx_evs mx1 fd \<and> counter mx2 fd = counter mx1 fd"
  shows "delivered mx fd out mx2"
  using assms unfolding moved_def delivered_def ends_def can_continue_def by auto

lemma round_delivers:
  assumes "one_call i rx mx" and "distinct (map fst ps)" and "fst ` set ps \<subseteq> fst ` set (mx_outs mx)"
    and "run_writes (map (task_of mx) ps) mx = (rs, mx1)"
    and "foldl (\<lambda>acc r. obtain_result r acc) (NO_OP, mx1) rs = (wr, mx')"
  shows "delivers mx mx' \<and> (still_open i rx mx wr mx' \<or> torn_down rx mx wr mx')"
proof -
  note m = round_moved [OF assms(1-4)]
  have k: "map fst (mx_outs mx1) = map fst (mx_outs mx)" using m(3) streams_keys [of mx1] streams_keys [of mx] by simp
  have "set (map fst rs) \<subseteq> set (map fst (mx_outs mx1))" using assms(3) by (simp only: m(1) k) simp
  then have rk: "fst ` set rs \<subseteq> fst ` set (mx_outs mx1)" by simp
  note c = collect_call [OF m(2) rk, unfolded assms(5)]
  have dr: "distinct (map fst rs)" using assms(2) m(1) by simp
  show ?thesis
  proof (cases "ended rs = []")
    case True
    with c have e: "wr = NO_OP" "mx' = mx1" by simp_all
    have "can_continue w" if "(fd, w) \<in> set rs" for fd w using True that by (force simp: ended_def filter_empty_conv)
    then have "delivered mx fd out mx'" if "(fd, out) \<in> set (streams mx)" for fd out
      using m(7) [OF that] by (auto simp: e can_continue_def intro: moved_delivered)
    then show ?thesis using m by (auto simp: delivers_def still_open_def e)
  next
    case False
    with c have e: "wr = hd (ended rs)" "mx_outs mx' = []" "written mx' = written mx1" "mx_sinks mx' = mx_sinks mx1"
      and ec: "mx_ec mx' = (if list_all ((=) END_OF_FILE) (ended rs) then mx_ec mx1 else EXIT_FAILURE)"
      and h: "fd_map (mx_rms mx') = []" "ms_items (mx_rms mx') = []" "mx_host mx' = drop_react_io_ctx rx (mx_host mx1)"
      by (auto simp: closed_call_def left_over_def written_def fun_eq_iff split: if_splits)
    have wr: "wr \<in> set (ended rs)" using e(1) False by simp
    have "delivered mx fd out mx'" if "(fd, out) \<in> set (streams mx)" for fd out
      using m(7) [OF that] by (auto simp: e intro: moved_delivered)
    then have "delivers mx mx'" using m(6) by (auto simp: delivers_def e)
    moreover have "all_written mx mx'" if eof: "wr = END_OF_FILE"
    proof -
      obtain fd where fd: "(fd, END_OF_FILE) \<in> set rs" using wr by (auto simp: ended_def eof)
      then have "fd \<in> set (map fst rs)" by force
      then have p: "fd \<in> fst ` set ps" using m(1) by simp
      then obtain out where o: "(fd, out) \<in> set (streams mx)" using assms(3) streams_keys [of mx]
      proof -
        have "fd \<in> set (map fst (streams mx))" using p assms(3) by (simp only: streams_keys) auto
        then show thesis using that by auto
      qed
      from m(7) [OF o] p obtain w where w: "(fd, w) \<in> set rs" "moved mx fd out w mx1" by auto
      have "w = END_OF_FILE" using eq_key_imp_eq_value [OF dr w(1) fd] .
      with w(2) have "written mx1 out = written mx out @ data_of (mx_evs mx fd)" by (auto simp: moved_def ends_def)
      with o show ?thesis by (auto simp: all_written_def e intro!: bexI [of _ "(fd, out)"])
    qed
    moreover have "\<not> can_continue wr" "wr \<noteq> END_OF_FILE \<longrightarrow> \<not> list_all ((=) END_OF_FILE) (ended rs)"
      using wr by (auto simp: ended_def list_all_iff)
    ultimately show ?thesis using e h ec m(4,5) by (auto simp: torn_down_def)
  qed
qed

lemma delivers_ctrl_z:
  "delivers (mx\<lparr>mx_ctrl_z := b\<rparr>) mx' = delivers mx mx'" "still_open i rx (mx\<lparr>mx_ctrl_z := b\<rparr>) wr mx' = still_open i rx mx wr mx'"
  "torn_down rx (mx\<lparr>mx_ctrl_z := b\<rparr>) wr mx' = torn_down rx mx wr mx'" "streams (mx\<lparr>mx_ctrl_z := b\<rparr>) = streams mx"
  by (simp_all add: delivers_def delivered_def still_open_def torn_down_def all_written_def streams_def written_def counter_def)

lemma read_round_spec:
  assumes "one_call i rx mx" and "distinct (map fst ps)" and "fst ` set ps \<subseteq> fst ` set (mx_outs mx)"
    and "read_round ps mx = (wr, mx')"
  shows "delivers mx mx' \<and> (still_open i rx mx wr mx' \<or> torn_down rx mx wr mx')"
proof -
  obtain mx0 where mx0: "start_writes ps mx = (map (task_of mx) ps, mx0)" "mx0 = mx \<or> mx0 = mx\<lparr>mx_ctrl_z := True\<rparr>"
    using start_writes_call [OF assms(1,3)] by simp
  have t: "task_of mx = task_of mx0" using mx0(2) by (auto simp: task_of_def fun_eq_iff)
  obtain rs mx1 where rs: "run_writes (map (task_of mx0) ps) mx0 = (rs, mx1)" by (metis surj_pair)
  have f: "foldl (\<lambda>acc r. obtain_result r acc) (NO_OP, mx1) rs = (wr, mx')"
    using assms(4) mx0(1) rs by (simp add: read_round_def t)
  have oc: "one_call i rx mx0" by (rule one_call_cong [OF assms(1)]) (use mx0(2) in \<open>auto simp: delivers_ctrl_z\<close>)
  have "delivers mx0 mx' \<and> (still_open i rx mx0 wr mx' \<or> torn_down rx mx0 wr mx')"
    by (rule round_delivers [OF oc assms(2) _ rs f]) (use assms(3) mx0(2) in \<open>elim disjE; simp\<close>)
  then show ?thesis using mx0(2) by (auto simp: delivers_ctrl_z)
qed

section \<open>The loop\<close>

lemma active_fds_ok:
  assumes "one_call i rx mx"
  shows "distinct (map fst (active_fds (mx_rms mx) rs))" and "fst ` set (active_fds (mx_rms mx) rs) \<subseteq> fst ` set (mx_outs mx)"
proof -
  show "distinct (map fst (active_fds (mx_rms mx) rs))"
    using distinct_clearjunk [of rs] by (auto simp: active_fds_def intro: distinct_map_filter)
  have "fst ` set (fd_map (mx_rms mx)) = fst ` set (mx_outs mx)"
    using assms by (simp add: one_call_def Let_def image_image)
  then show "fst ` set (active_fds (mx_rms mx) rs) \<subseteq> fst ` set (mx_outs mx)"
    by (auto simp: active_fds_def intro: rev_image_eqI)
qed

lemma poll_loop_active:
  "poll_loop ms evs = Poll_ret rc act evs' \<Longrightarrow>
     set evs' \<subseteq> set evs \<and> (rc = 0 \<or> rc = EINTR \<and> act = []) \<and> (\<exists>rs. act = active_fds ms rs)"
proof (induction evs)
  case (Cons e evs)
  have n: "\<exists>rs. [] = active_fds ms rs" by (rule exI [of _ "[]"]) (simp add: active_fds_def)
  show ?case using Cons n by (cases e) (auto split: if_splits)
qed simp

definition run_ok :: "nat \<Rightarrow> react_io_ctx \<Rightarrow> poll_ev list \<Rightarrow> mux \<Rightarrow> mux_result \<Rightarrow> bool" where
  "run_ok i rx evs mx r =
     (case r of
        Mux_ret ec wr mx' \<Rightarrow>
          delivers mx mx' \<and> ec = mx_ec mx' \<and> (still_open i rx mx wr mx' \<and> Flag_set \<in> set evs \<or> torn_down rx mx wr mx')
      | Mux_waits mx' \<Rightarrow> delivers mx mx' \<and> still_open i rx mx NO_OP mx'
      | Mux_assert \<Rightarrow> True)"

lemma delivers_refl: "one_call i rx mx \<Longrightarrow> delivers mx mx \<and> still_open i rx mx NO_OP mx"
  by (auto simp: delivers_def delivered_def still_open_def)

lemma call_size: "one_call i rx mx \<Longrightarrow> ms_size (mx_rms mx) > 0"
  by (auto simp: one_call_def ms_size_def Let_def)

lemma run_ok_before:
  assumes "delivers mx mx1" and "still_open i rx mx wr mx1" and "run_ok i rx evs mx1 r" and "set evs \<subseteq> set evs0"
  shows "run_ok i rx evs0 mx r"
proof -
  have o: "still_open i rx mx1 w m \<Longrightarrow> still_open i rx mx w m" for w m using assms(2) by (auto simp: still_open_def)
  show ?thesis
    using assms delivers_trans [OF assms(1,2)] torn_down_trans [OF assms(1,2)] o
    by (auto simp: run_ok_def split: mux_result.splits)
qed

lemma flag_set_iff: "flag_set evs \<longleftrightarrow> (\<exists>es. evs = Flag_set # es)"
  by (auto simp: flag_set_def split: list.splits poll_ev.splits)

lemma multi_loop_closed: "fd_map (mx_rms mx) = [] \<Longrightarrow> multi_loop evs wr mx = Mux_ret (mx_ec mx) wr mx"
  by (subst multi_loop.simps) (simp add: ms_size_def)

lemma multi_loop_ok: "one_call i rx mx \<Longrightarrow> run_ok i rx evs mx (multi_loop evs NO_OP mx)"
proof (induction "length evs" arbitrary: evs mx rule: less_induct)
  case less
  note size = call_size [OF less.prems]
  show ?case
  proof (cases "flag_set evs")
    case True
    then have "multi_loop evs NO_OP mx = Mux_ret (mx_ec mx) NO_OP mx" by (subst multi_loop.simps) simp
    with True delivers_refl [OF less.prems] show ?thesis by (auto simp: run_ok_def flag_set_iff)
  next
    case False
    show ?thesis
    proof (cases "poll_for_io (mx_rms mx) evs")
      case (Poll_ret rc act evs')
      then have l: "poll_loop (mx_rms mx) evs = Poll_ret rc act evs'" using size by (simp add: poll_for_io_def)
      note len = poll_loop_less [OF l False] and pa = poll_loop_active [OF l]
      show ?thesis
      proof (cases "rc = 0")
        case True
        obtain rs where act: "act = active_fds (mx_rms mx) rs" using pa by blast
        obtain wr mx1 where rr: "read_round act mx = (wr, mx1)" by (cases "read_round act mx")
        have m: "multi_loop evs NO_OP mx = multi_loop evs' wr mx1"
          by (subst multi_loop.simps) (simp add: size False Poll_ret True rr)
        from read_round_spec [OF less.prems active_fds_ok [OF less.prems] rr [unfolded act]]
        have d: "delivers mx mx1" and o: "still_open i rx mx wr mx1 \<or> torn_down rx mx wr mx1" by blast+
        from o show ?thesis
        proof
          assume s: "still_open i rx mx wr mx1"
          then have "one_call i rx mx1" "wr = NO_OP" by (auto simp: still_open_def)
          with less.hyps [OF len] m have "run_ok i rx evs' mx1 (multi_loop evs NO_OP mx)" by simp
          then show ?thesis using run_ok_before [OF d s] pa by blast
        next
          assume t: "torn_down rx mx wr mx1"
          then have "multi_loop evs' wr mx1 = Mux_ret (mx_ec mx1) wr mx1" by (simp add: torn_down_def multi_loop_closed)
          with d t show ?thesis by (simp add: m run_ok_def)
        qed
      next
        case False
        then have rc: "rc = EINTR" using pa by blast
        have "multi_loop evs NO_OP mx = multi_loop evs' NO_OP mx"
          by (subst multi_loop.simps) (simp add: size \<open>\<not> flag_set evs\<close> Poll_ret rc)
        moreover have "run_ok i rx evs' mx (multi_loop evs' NO_OP mx)" by (rule less.hyps [OF len less.prems])
        ultimately show ?thesis using run_ok_before [of mx mx] delivers_refl [OF less.prems] pa by metis
      qed
    next
      case Poll_assert
      then show ?thesis by (subst multi_loop.simps) (simp add: size False run_ok_def)
    next
      case Poll_waits
      then show ?thesis using delivers_refl [OF less.prems]
        by (subst multi_loop.simps) (simp add: size False run_ok_def)
    qed
  qed
qed

lemma start_call:
  assumes "one_call i rx mx"
  shows "one_call i rx (mx\<lparr>mx_ec := e\<rparr>)" "streams (mx\<lparr>mx_ec := e\<rparr>) = streams mx"
    "delivers (mx\<lparr>mx_ec := e\<rparr>) mx' = delivers mx mx'" "all_written (mx\<lparr>mx_ec := e\<rparr>) mx' = all_written mx mx'"
proof -
  show "one_call i rx (mx\<lparr>mx_ec := e\<rparr>)" by (rule one_call_cong [OF assms]) (simp_all add: streams_def)
qed (simp_all add: delivers_def delivered_def all_written_def streams_def written_def counter_def)

lemma multi_read_ok:
  assumes "one_call i rx mx" and "multi_read_on_ready evs mx = Mux_ret ec wr mx'"
  shows "delivers mx mx' \<and>
    (if wr = NO_OP then ec = EXIT_SUCCESS \<and> Flag_set \<in> set evs \<and> one_call i rx mx' \<and> mx_host mx' = mx_host mx
     else mx_outs mx' = [] \<and> ms_items (mx_rms mx') = [] \<and> mx_host mx' = drop_react_io_ctx rx (mx_host mx) \<and>
       (wr = END_OF_FILE \<longrightarrow> all_written mx mx') \<and> (wr \<noteq> END_OF_FILE \<longrightarrow> ec = EXIT_FAILURE))"
  using multi_loop_ok [OF start_call(1) [OF assms(1), of EXIT_SUCCESS], of evs] assms(2) start_call [OF assms(1), of EXIT_SUCCESS]
  by (auto simp: multi_read_on_ready_def run_ok_def still_open_def torn_down_def can_continue_def)

section \<open>A single stream arrives completely\<close>

text \<open>
  The input of a stream whose writer neither fails nor stays away: a read that would block is met
  only after data, never when \<open>poll\<close> has just reported the descriptor, and the end comes.
\<close>

fun paced :: "bool \<Rightarrow> read_ev list \<Rightarrow> bool" where
  "paced b [] = False"
| "paced b (Rd bs # evs) = (bs = [] \<or> paced True evs)"
| "paced b (Rd_err e # evs) = (b \<and> e = EAGAIN \<and> paced False evs)"

fun gaps :: "read_ev list \<Rightarrow> nat" where
  "gaps [] = 0"
| "gaps (Rd bs # evs) = gaps evs"
| "gaps (Rd_err e # evs) = Suc (gaps evs)"

definition healthy :: "pump \<Rightarrow> bool" where
  \<comment> \<open>no interruption, an output that takes everything, and fewer than 2^64 bytes\<close>
  "healthy st = (pm_intr st = [] \<and> sk_evs (pm_sink st) = [] \<and>
     unat (pm_read_total st) + length (data_of (pm_evs st)) < 2 ^ 64)"

definition goes_on :: "read_ev list \<Rightarrow> write_result \<Rightarrow> pump \<Rightarrow> bool" where
  "goes_on evs wr st' =
     (wr = END_OF_FILE \<or>
      wr = NO_OP \<and> paced False (pm_evs st') \<and> gaps (pm_evs st') < gaps evs \<and> pm_intr st' = [] \<and>
      sk_evs (pm_sink st') = [] \<and> length (data_of (pm_evs st')) \<le> length (data_of evs))"

lemma read_fd_paced:
  "read_fd n evs = (Inr buf, evs') \<Longrightarrow> buf \<noteq> [] \<Longrightarrow> paced b evs \<Longrightarrow> paced True evs' \<and> gaps evs' = gaps evs"
  by (cases "(n, evs)" rule: read_fd.cases) (auto split: if_splits)

lemma paced_read:
  "paced b evs \<Longrightarrow> 0 < n \<Longrightarrow>
     (\<exists>evs'. read_fd n evs = (Inr [], evs')) \<or> (\<exists>buf evs'. read_fd n evs = (Inr buf, evs') \<and> buf \<noteq> []) \<or>
     (\<exists>evs'. read_fd n evs = (Inl EAGAIN, evs') \<and> b \<and> evs = Rd_err EAGAIN # evs')"
proof (cases "(n, evs)" rule: read_fd.cases)
  case (3 n' bs evs')
  then show "0 < n \<Longrightarrow> ?thesis" by (cases "bs = []") auto
qed auto

lemma write_healthy:
  assumes "healthy st" and "read_fd n (pm_evs st) = (Inr buf, evs)" and "buf \<noteq> []"
  shows "\<exists>st'. write_output buf (st\<lparr>pm_evs := evs\<rparr>) = (SUCCESS, st') \<and> healthy st' \<and> pm_evs st' = evs \<and> pm_read_total st' \<noteq> 0"
proof -
  have d: "data_of (pm_evs st) = buf @ data_of evs" by (rule read_fd_data(1) [OF assms(2,3)])
  have h: "pm_intr st = []" "sk_evs (pm_sink st) = []" "unat (pm_read_total st) + (length buf + length (data_of evs)) < 2 ^ 64"
    using assms(1) by (simp_all add: healthy_def d)
  have u: "unat (pm_read_total st + of_nat (length buf)) = unat (pm_read_total st) + length buf"
    using h(3) by (subst unat_word_ariths(1)) (simp add: unat_of_nat)
  then have "pm_read_total st + of_nat (length buf) \<noteq> 0" using assms(3) by (metis add_eq_0_iff_both_eq_0 length_0_conv unat_0)
  then show ?thesis using h u assms(3) by (simp add: write_output_def write_fd_def healthy_def Let_def)
qed

lemma echo_paced:
  "healthy st \<Longrightarrow> paced b (pm_evs st) \<Longrightarrow> (b \<longrightarrow> pm_read_total st \<noteq> 0) \<Longrightarrow> echo st = (wr, st') \<Longrightarrow>
   goes_on (pm_evs st) wr st'"
proof (induction st arbitrary: b wr st' rule: echo.induct)
  case (1 st)
  have p: "pump_interrupted st = (False, st)" using "1.prems"(1) by (simp add: pump_interrupted_def healthy_def)
  consider
      evs' where "read_fd PIPE_BUF (pm_evs st) = (Inr [], evs')"
    | buf evs' where "read_fd PIPE_BUF (pm_evs st) = (Inr buf, evs')" "buf \<noteq> []"
    | evs' where "read_fd PIPE_BUF (pm_evs st) = (Inl EAGAIN, evs')" "b" "pm_evs st = Rd_err EAGAIN # evs'"
    using paced_read [OF "1.prems"(2), of PIPE_BUF, simplified] by (elim disjE exE conjE) simp_all
  then show ?case
  proof cases
    case 1
    with "1.prems"(4) p show ?thesis by (subst (asm) echo.simps) (auto simp: goes_on_def)
  next
    case 2
    from write_healthy [OF "1.prems"(1) 2] obtain st1 where
      w: "write_output buf (st\<lparr>pm_evs := evs'\<rparr>) = (SUCCESS, st1)" "healthy st1" "pm_evs st1 = evs'" "pm_read_total st1 \<noteq> 0"
      by blast
    have e: "echo st1 = (wr, st')" using "1.prems"(4) p 2 w(1) by (subst (asm) echo.simps) (simp add: can_continue_def)
    have c: "can_continue SUCCESS" by (simp add: can_continue_def)
    note pc = read_fd_paced [OF 2 "1.prems"(2)]
    have "goes_on (pm_evs st1) wr st'"
      by (rule "1.IH" [OF p [symmetric] _ 2(1) [symmetric] refl 2(2) w(1) [symmetric] c w(2), of True])
        (use pc w e in auto)
    then show ?thesis using pc w read_fd_data(1) [OF 2] by (auto simp: goes_on_def)
  next
    case 3
    with "1.prems" p show ?thesis
      by (subst (asm) echo.simps) (auto simp: goes_on_def would_block_def healthy_def word_gt_0)
  qed
qed

lemma write_to_output_stream_paced:
  assumes "pm_intr st = []" and "sk_evs (pm_sink st) = []" and "length (data_of (pm_evs st)) < 2 ^ 64"
    and "paced False (pm_evs st)" and "out \<noteq> -1" and "write_to_output_stream (fd, revents) out st = ((fd', wr), st')"
  shows "goes_on (pm_evs st) wr st'"
proof -
  let ?s = "st\<lparr>pm_read_total := 0\<rparr>" and ?bad = "revents AND (POLLERR OR POLLHUP OR POLLNVAL) \<noteq> 0"
  have h: "healthy ?s" using assms(1-3) by (simp add: healthy_def)
  show ?thesis
  proof (cases "?bad")
    case False
    with assms(5,6) have "echo ?s = (wr, st')" by (auto simp: write_to_output_stream_def split: prod.splits)
    from echo_paced [OF h _ _ this, of False] assms(4) show ?thesis by simp
  next
    case True
    consider evs' where "read_fd 8 (pm_evs ?s) = (Inr [], evs')"
      | buf evs' where "read_fd 8 (pm_evs ?s) = (Inr buf, evs')" "buf \<noteq> []"
      using paced_read [OF assms(4), of 8, simplified] by (elim disjE exE conjE) simp_all
    then show ?thesis
    proof cases
      case 1
      with True assms(5,6) show ?thesis by (auto simp: write_to_output_stream_def goes_on_def)
    next
      case 2
      from write_healthy [OF h 2] obtain st1 where
        w: "write_output buf (?s\<lparr>pm_evs := evs'\<rparr>) = (SUCCESS, st1)" "healthy st1" "pm_evs st1 = evs'" "pm_read_total st1 \<noteq> 0"
        by blast
      have e: "echo st1 = (wr, st')" using True assms(5,6) 2 w(1)
        by (simp add: write_to_output_stream_def can_continue_def split: prod.splits)
      have p: "paced False (pm_evs ?s)" using assms(4) by simp
      note pc = read_fd_paced [OF 2 p]
      have "goes_on (pm_evs st1) wr st'" by (rule echo_paced [OF w(2) _ _ e, of True]) (use pc w in auto)
      then show ?thesis using pc w read_fd_data(1) [OF 2] by (auto simp: goes_on_def)
    qed
  qed
qed

definition ready_stream :: "int \<Rightarrow> int \<Rightarrow> mux \<Rightarrow> bool" where
  \<comment> \<open>a single stream whose writer and whose output are well\<close>
  "ready_stream fd out mx =
     (streams mx = [(fd, out)] \<and> out \<noteq> -1 \<and> mx_intr mx fd = [] \<and> sk_evs (mx_sinks mx out) = [] \<and>
      paced False (mx_evs mx fd) \<and> length (data_of (mx_evs mx fd)) < 2 ^ 64)"

lemma run_write_paced:
  assumes "ready_stream fd out mx" and "run_write ((fd, revents), out) mx = (r, mx')"
  shows "\<exists>wr. r = (fd, wr) \<and> (wr = END_OF_FILE \<or>
    wr = NO_OP \<and> ready_stream fd out mx' \<and> gaps (mx_evs mx' fd) < gaps (mx_evs mx fd))"
proof -
  let ?st = "\<lparr>pm_evs = mx_evs mx fd, pm_intr = mx_intr mx fd, pm_sink = mx_sinks mx out,
     pm_read_total = 0, pm_n_read = 0, pm_n_writ = counter mx fd\<rparr>"
  obtain fd' wr pm where w: "write_to_output_stream (fd, revents) out ?st = ((fd', wr), pm)" by (metis surj_pair)
  have r: "r = (fd', wr)" "mx_evs mx' fd = pm_evs pm" "mx_intr mx' fd = pm_intr pm" "mx_sinks mx' out = pm_sink pm"
    using assms(2) w by (auto simp: run_write_def counter_def Let_def split: prod.splits)
  note a = assms(1) [unfolded ready_stream_def]
  have "goes_on (mx_evs mx fd) wr pm" using write_to_output_stream_paced [OF _ _ _ _ _ w] a by simp
  moreover have "fd' = fd" using write_to_output_stream_spec [OF w] by simp
  moreover have "streams mx' = [(fd, out)]" using run_write_local(5) [OF assms(2)] a by simp
  ultimately show ?thesis using r a by (auto simp: goes_on_def ready_stream_def)
qed

lemma round_paced:
  assumes "one_call i rx mx" and "ready_stream fd out mx" and "read_round [(fd, revents)] mx = (wr, mx')"
  shows "delivers mx mx' \<and>
    (wr = END_OF_FILE \<and> torn_down rx mx wr mx' \<and> mx_ec mx' = mx_ec mx \<or>
     still_open i rx mx wr mx' \<and> ready_stream fd out mx' \<and> gaps (mx_evs mx' fd) < gaps (mx_evs mx fd))"
proof -
  let ?mx = "mx\<lparr>mx_ctrl_z := True\<rparr>"
  have st: "streams mx = [(fd, out)]" using assms(2) by (simp add: ready_stream_def)
  obtain oc where oc: "mx_outs mx = [(fd, oc)]" "out = output_stream oc" using st by (auto simp: streams_def)
  have t: "task_of mx (fd, revents) = ((fd, revents), out)" by (simp add: task_of_def oc)
  have keys: "fst ` set [(fd, revents)] \<subseteq> fst ` set (mx_outs mx)" by (simp add: oc)
  have d: "distinct (map fst [(fd, revents)])" by simp
  obtain r mx2 where w: "run_write ((fd, revents), out) ?mx = (r, mx2)" by (metis surj_pair)
  have sc: "ready_stream fd out ?mx" using assms(2) by (simp add: ready_stream_def delivers_ctrl_z)
  from run_write_paced [OF sc w] obtain wr2 where r: "r = (fd, wr2)"
    and e: "wr2 = END_OF_FILE \<or> wr2 = NO_OP \<and> ready_stream fd out mx2 \<and> gaps (mx_evs mx2 fd) < gaps (mx_evs mx fd)" by auto
  have o: "obtain_result (fd, wr2) (NO_OP, mx2) = (wr, mx')"
    using assms(3) start_writes_call [OF assms(1) keys] w r by (simp add: read_round_def t)
  note spec = read_round_spec [OF assms(1) d keys assms(3)]
  show ?thesis
  proof (cases "wr2 = END_OF_FILE")
    case False
    with e o have "wr = NO_OP" "mx' = mx2" by (simp_all add: obtain_result_def can_continue_def)
    with spec e False show ?thesis by (auto simp: torn_down_def can_continue_def)
  next
    case True
    have m: "mx_rms mx2 = mx_rms mx" "mx_ec mx2 = mx_ec mx" "streams mx2 = streams mx" "map fst (mx_outs mx2) = map fst (mx_outs mx)"
      using run_write_local(1,3,5,6) [OF w] by (simp_all add: delivers_ctrl_z)
    have oc2: "one_call i rx mx2" by (rule one_call_cong [OF assms(1) m(1,3)])
    have "fst ` set [(fd, wr2)] \<subseteq> set (map fst (mx_outs mx2))" unfolding m(4) by (simp add: oc)
    then have "(wr, mx') = (END_OF_FILE, closed_call rx mx2)"
      using collect_call [OF oc2, of "[(fd, wr2)]"] o True by (simp add: ended_def can_continue_def)
    with spec m show ?thesis by (auto simp: still_open_def closed_call_def left_over_def)
  qed
qed

lemma multi_loop_paced:
  "one_call i rx mx \<Longrightarrow> ready_stream fd out mx \<Longrightarrow> 0 \<notin> set rs \<Longrightarrow> gaps (mx_evs mx fd) < length rs \<Longrightarrow>
   \<exists>mx'. multi_loop (map (\<lambda>r. Ready [(fd, r)]) rs) NO_OP mx = Mux_ret (mx_ec mx) END_OF_FILE mx' \<and> torn_down rx mx END_OF_FILE mx'"
proof (induction rs arbitrary: mx)
  case (Cons r rs)
  let ?evs = "\<lambda>rs. map (\<lambda>r. Ready [(fd, r)]) rs"
  have st: "streams mx = [(fd, out)]" using Cons.prems(2) by (simp add: ready_stream_def)
  have "fst ` set (fd_map (mx_rms mx)) = fst ` set (streams mx)"
    using Cons.prems(1) arg_cong [OF streams_keys [of mx], of set] by (simp add: one_call_def Let_def image_image)
  then have act: "active_fds (mx_rms mx) [(fd, r)] = [(fd, r)]" using Cons.prems(3) by (simp add: active_fds_def st)
  have p: "poll_for_io (mx_rms mx) (?evs (r # rs)) = Poll_ret 0 [(fd, r)] (?evs rs)"
    using call_size [OF Cons.prems(1)] by (simp add: poll_for_io_def act)
  obtain wr mx1 where rr: "read_round [(fd, r)] mx = (wr, mx1)" by (metis surj_pair)
  have m: "multi_loop (?evs (r # rs)) NO_OP mx = multi_loop (?evs rs) wr mx1"
    by (subst multi_loop.simps) (simp add: call_size [OF Cons.prems(1)] flag_set_def p [simplified] rr)
  from round_paced [OF Cons.prems(1,2) rr] have d: "delivers mx mx1" and
    "wr = END_OF_FILE \<and> torn_down rx mx wr mx1 \<and> mx_ec mx1 = mx_ec mx \<or>
     still_open i rx mx wr mx1 \<and> ready_stream fd out mx1 \<and> gaps (mx_evs mx1 fd) < gaps (mx_evs mx fd)" by blast+
  then show ?case
  proof (elim disjE conjE)
    assume "wr = END_OF_FILE" "torn_down rx mx wr mx1" "mx_ec mx1 = mx_ec mx"
    then show ?thesis unfolding m by (simp add: torn_down_def multi_loop_closed)
  next
    assume s: "still_open i rx mx wr mx1" and n: "ready_stream fd out mx1" "gaps (mx_evs mx1 fd) < gaps (mx_evs mx fd)"
    have o: "one_call i rx mx1" "wr = NO_OP" "mx_ec mx1 = mx_ec mx" using s by (simp_all add: still_open_def)
    have "\<exists>mx'. multi_loop (?evs rs) NO_OP mx1 = Mux_ret (mx_ec mx1) END_OF_FILE mx' \<and> torn_down rx mx1 END_OF_FILE mx'"
      by (rule Cons.IH [OF o(1) n(1)]) (use Cons.prems n in auto)
    then show ?thesis using m o torn_down_trans [OF d s] by auto
  qed
qed simp

end
