(* ===== verification/EchoStreams.thy ===== *)
theory EchoStreams
  imports CopyLoop
begin

text \<open>
  The last step of a client, \<open>stdout_echo_response_stream\<close> of \<open>echo-streams.cpp\<close>: it receives the
  descriptors of the response, copies what they bring, and kills the other process on an interrupt.
  What \<open>poll\<close>, \<open>read\<close> and \<open>write\<close> will answer is part of the environment, by descriptor. The
  handling of \<open>SIGPIPE\<close> and the log messages are left out.
\<close>

section \<open>The interrupt handler\<close>

record sig_state =
  child_prcs_pid :: int
  supervisor_pid :: int
  rsp_fd :: int
  err_fd :: int
  wrt_fd :: int

definition s_sig_state :: sig_state where
  \<comment> \<open>its initial value\<close>
  "s_sig_state = \<lparr>child_prcs_pid = 0, supervisor_pid = 0, rsp_fd = -1, err_fd = -1, wrt_fd = -1\<rparr>"

datatype sig_action = Close int | Kill_term int | Exits int | Warn_not_allowed | Waits_for_child

datatype wait_ev = W_err int | W_exited | W_signaled | W_stopped | W_other

fun wait_for_child :: "wait_ev list \<Rightarrow> bool" where
  \<comment> \<open>the loop of \<open>waitpid\<close>: whether it ends\<close>
  "wait_for_child [] = False"
| "wait_for_child (W_other # evs) = wait_for_child evs"
| "wait_for_child (e # evs) = True"

definition close_if :: "int \<Rightarrow> sig_action list" where
  "close_if tmp_fd = (if tmp_fd \<noteq> -1 then [Close tmp_fd] else [])"

definition ctrl_c_handler :: "wait_ev list \<Rightarrow> sig_state \<Rightarrow> sig_state \<times> sig_action list" where
  "ctrl_c_handler waits st =
     (s_sig_state,
      if child_prcs_pid st \<noteq> 0 \<and> child_prcs_pid st \<noteq> supervisor_pid st then
        close_if (rsp_fd st) @ close_if (err_fd st) @ close_if (wrt_fd st) @
        [Kill_term (child_prcs_pid st), if wait_for_child waits then Exits EXIT_FAILURE else Waits_for_child]
      else if supervisor_pid st \<noteq> 0 then [Warn_not_allowed] else [])"

section \<open>stdout_echo_response_stream\<close>

record echo_env =
  en_polls :: "poll_ev list"
  en_evs :: "int \<Rightarrow> read_ev list"
  en_intr :: "int \<Rightarrow> bool list"
  en_sinks :: "int \<Rightarrow> sink"
  en_fdopen :: bool \<comment> \<open>\<open>fdopen\<close> succeeds\<close>

record echo_state =
  es_host :: host
  es_sinks :: "int \<Rightarrow> sink"
  es_sig :: sig_state

datatype echo_result = Echo_ret int echo_state | Echo_throws launch_error host | Echo_assert | Echo_waits

definition set_sig_state :: "int \<Rightarrow> int \<Rightarrow> int \<Rightarrow> (int \<times> int) option \<Rightarrow> sig_state" where
  "set_sig_state child sv rsp ext =
     (let st = s_sig_state\<lparr>child_prcs_pid := child, supervisor_pid := sv, rsp_fd := rsp\<rparr>
      in case ext of None \<Rightarrow> st | Some (err, wrt) \<Rightarrow> st\<lparr>err_fd := err, wrt_fd := wrt\<rparr>)"

definition new_mux :: "echo_env \<Rightarrow> read_multi_stream \<Rightarrow> (int \<times> output_stream_context) list \<Rightarrow> host \<Rightarrow> mux" where
  "new_mux env ms outs h =
     \<lparr>mx_rms = ms, mx_outs = outs, mx_host = h, mx_evs = en_evs env, mx_intr = en_intr env,
      mx_sinks = en_sinks env, mx_ctrl_z = False, mx_ec = EXIT_SUCCESS\<rparr>"

definition close_all :: "int list \<Rightarrow> host \<Rightarrow> host" where
  \<comment> \<open>the smart pointers that still hold a descriptor, at the end of the function\<close>
  "close_all fds h = fold host_close fds h"

definition destroy_rms :: "read_multi_stream \<Rightarrow> host \<Rightarrow> host" where
  "destroy_rms ms h = foldl (\<lambda>h (i, rx). drop_react_io_ctx rx h) h (ms_items ms)"

definition echo_rtn :: "int \<Rightarrow> write_result \<Rightarrow> int" where
  "echo_rtn ec wr = (if ec = 0 \<or> wr = END_OF_FILE then EXIT_SUCCESS else EXIT_FAILURE)"

definition copy_streams :: "echo_env \<Rightarrow> sig_state \<Rightarrow> int list \<Rightarrow> read_multi_stream \<Rightarrow> (int \<times> output_stream_context) list
    \<Rightarrow> host \<Rightarrow> echo_result" where
  \<comment> \<open>the common end of both branches; \<open>owned\<close> are the descriptors the locals own\<close>
  "copy_streams env sg owned ms outs h =
     (case multi_read_on_ready (en_polls env) (new_mux env ms outs h) of
        Mux_assert \<Rightarrow> Echo_assert
      | Mux_waits mx \<Rightarrow> Echo_waits
      | Mux_ret ec wr mx \<Rightarrow>
          Echo_ret (echo_rtn ec wr)
            \<lparr>es_host = close_all owned (destroy_rms (mx_rms mx) (mx_host mx)), es_sinks = mx_sinks mx, es_sig = sg\<rparr>)"

definition echo_fails :: "echo_env \<Rightarrow> sig_state \<Rightarrow> int list \<Rightarrow> host \<Rightarrow> echo_result" where
  "echo_fails env sg owned h =
     Echo_ret EXIT_FAILURE \<lparr>es_host = close_all owned h, es_sinks = en_sinks env, es_sig = sg\<rparr>"

definition dup_stdin :: "host \<Rightarrow> (unit + int) \<times> host" where
  "dup_stdin h =
     (let (fd, h) = dup_fd 0 h in
      if fd = -1 then (Inl (), h)
      else (let (rtn, h) = set_nonblock fd h in if rtn = -1 then (Inl (), host_close fd h) else (Inr fd, h)))"

definition echo_react :: "echo_env \<Rightarrow> sig_state \<Rightarrow> int \<Rightarrow> int \<Rightarrow> int \<Rightarrow> host \<Rightarrow> echo_result" where
  "echo_react env sg rsp err wrt h =
     (case dup_stdin h of
        (Inl _, h) \<Rightarrow> echo_fails env sg [wrt, err, rsp] h
      | (Inr stdin_fd, h) \<Rightarrow>
          (let owned = [wrt, stdin_fd, err, rsp] in
           if \<not> en_fdopen env then echo_fails env sg owned h
           else
             (case add_entry_to_map rsp err stdin_fd ms_empty h of
                (Inl e, h) \<Rightarrow> echo_fails env sg owned h
              | (Inr ms, h) \<Rightarrow>
                  copy_streams env sg owned ms
                    (map_insert stdin_fd (output_stream_context wrt) (map_insert err (output_stream_context 2)
                      (map_insert rsp (output_stream_context 1) []))) h)))"

definition echo_single :: "echo_env \<Rightarrow> sig_state \<Rightarrow> int \<Rightarrow> host \<Rightarrow> echo_result" where
  "echo_single env sg rsp h =
     (case add_fd rsp ms_empty h of
        (Inl e, h) \<Rightarrow> echo_fails env sg [rsp] h
      | (Inr ms, h) \<Rightarrow> copy_streams env sg [rsp] ms (map_insert rsp (output_stream_context 1) []) h)"

definition stdout_echo_response_stream :: "nat \<Rightarrow> int \<Rightarrow> echo_env \<Rightarrow> host \<Rightarrow> echo_result" where
  "stdout_echo_response_stream socket_fd sv_pid env h =
     (case obtain_response_stream socket_fd (ho_sys h) of
        None \<Rightarrow> Echo_waits
      | Some (Inl e, s) \<Rightarrow> Echo_throws e (h\<lparr>ho_sys := s\<rparr>)
      | Some (Inr (child_pid, rsp, Some err, Some wrt), s) \<Rightarrow>
          echo_react env (set_sig_state child_pid sv_pid (int rsp) (Some (int err, int wrt)))
            (int rsp) (int err) (int wrt) (h\<lparr>ho_sys := s\<rparr>)
      | Some (Inr (child_pid, rsp, _, _), s) \<Rightarrow>
          echo_single env (set_sig_state child_pid sv_pid (int rsp) None) (int rsp) (h\<lparr>ho_sys := s\<rparr>))"

section \<open>Descriptors\<close>

lemma new_stream_ctx_spec:
  assumes "new_stream_ctx fd h = (r, h')"
  shows "(\<exists>e. r = Inl e \<and> host_fds h' = host_fds h) \<or>
    (\<exists>n. r = Inr \<lparr>cx_orig = fd, cx_dup = n, cx_is_stderr = False\<rparr> \<and> dup_of fd n h h')"
proof -
  obtain n h1 where d: "dup_fd fd h = (n, h1)" by (cases "dup_fd fd h")
  obtain rtn h2 where s: "set_nonblock n h1 = (rtn, h2)" by (cases "set_nonblock n h1")
  note ds = dup_fd_spec [OF d] and ss = set_nonblock_spec [OF s]
  have "fun_upd (host_fds h) k None = host_fds h" if "host_fds h k = None" for k using that by auto
  with assms ds ss show ?thesis
    by (auto simp: new_stream_ctx_def d s cx_default_def dup_of_def Let_def split: if_splits)
qed

lemma with_ctx_Inr:
  "with_ctx fd f h = (Inr a, h') \<longleftrightarrow> (\<exists>cx h1. new_stream_ctx fd h = (Inr cx, h1) \<and> f cx h1 = (Inr a, h'))"
  by (auto simp: with_ctx_def bind_s_def split: sum.splits prod.splits)

lemma with_ctx_Inl:
  assumes "with_ctx fd f h = (Inl e, h')" and "\<And>cx h1 h2 e. f cx h1 = (Inl e, h2) \<Longrightarrow> host_fds h2 = host_fds h1"
  shows "host_fds h' = host_fds h"
proof (cases "new_stream_ctx fd h")
  case (Pair r h1)
  show ?thesis
  proof (cases r)
    case (Inl e')
    with assms(1) Pair new_stream_ctx_spec [OF Pair] show ?thesis by (auto simp: with_ctx_def bind_s_def)
  next
    case (Inr cx)
    with assms(1) Pair obtain h2 where f: "f cx h1 = (Inl e, h2)" "h' = snd (close_dup_fd cx h2)"
      by (auto simp: with_ctx_def bind_s_def split: sum.splits prod.splits)
    with assms(2) [OF f(1)] new_stream_ctx_spec [OF Pair] Inr show ?thesis by (auto simp: dup_of_def)
  qed
qed

lemma react_io_ctx3_Inl: "react_io_ctx3 a b c h = (Inl e, h') \<Longrightarrow> host_fds h' = host_fds h"
  unfolding react_io_ctx3_def by (erule with_ctx_Inl, erule with_ctx_Inl, erule with_ctx_Inl) simp

definition made :: "react_io_ctx \<Rightarrow> host \<Rightarrow> host \<Rightarrow> bool" where
  \<comment> \<open>its destructor undoes what its constructor did\<close>
  "made rx h h' = (\<forall>h''. host_fds h'' = host_fds h' \<longrightarrow> host_fds (drop_react_io_ctx rx h'') = host_fds h)"

lemma dup_of_fresh: "dup_of fd n h h' \<Longrightarrow> (host_fds h')(nat n := None) = host_fds h"
  by (auto simp: dup_of_def)

lemma react_io_ctx1_spec:
  assumes "react_io_ctx1 fd h = (r, h')"
  shows "(\<exists>e. r = Inl e \<and> host_fds h' = host_fds h) \<or>
    (\<exists>rx. r = Inr rx \<and> made rx h h' \<and> get_stdout_fd rx = fd \<and> get_stderr_fd rx = -1 \<and> get_stdin_fd rx = -1 \<and>
       is_valid_init (stdout_ctx rx) \<and> 0 \<le> fd)"
proof -
  obtain q h1 where n: "new_stream_ctx fd h = (q, h1)" by (cases "new_stream_ctx fd h")
  from new_stream_ctx_spec [OF n] show ?thesis
  proof (elim disjE exE conjE)
    fix e assume "q = Inl e" "host_fds h1 = host_fds h"
    with assms n show ?thesis by (auto simp: react_io_ctx1_def bind_s_def)
  next
    fix m assume q: "q = Inr \<lparr>cx_orig = fd, cx_dup = m, cx_is_stderr = False\<rparr>" and d: "dup_of fd m h h1"
    with assms n have "r = Inr \<lparr>stdout_ctx = \<lparr>cx_orig = fd, cx_dup = m, cx_is_stderr = False\<rparr>,
        stderr_ctx = cx_default, stdin_ctx = cx_default\<rparr>" "h' = h1"
      by (simp_all add: react_io_ctx1_def bind_s_def)
    with d dup_of_fresh [OF d] show ?thesis
      by (auto simp: made_def drop_react_io_ctx_def cx_default_def get_stdout_fd_def get_stderr_fd_def get_stdin_fd_def
          is_valid_init_def dup_of_def)
  qed
qed

lemma react_io_ctx3_Inr:
  assumes "react_io_ctx3 a b c h = (Inr rx, h')"
  shows "made rx h h' \<and> get_stdout_fd rx = a \<and> get_stderr_fd rx = b \<and> get_stdin_fd rx = c \<and> 0 \<le> a \<and> 0 \<le> b \<and> 0 \<le> c \<and>
    (\<forall>cx \<in> {stdout_ctx rx, stderr_ctx rx, stdin_ctx rx}. is_valid_init cx)"
proof -
  from assms obtain c1 h1 c2 h2 c3 where n: "new_stream_ctx a h = (Inr c1, h1)" "new_stream_ctx b h1 = (Inr c2, h2)"
      "new_stream_ctx c h2 = (Inr c3, h')" and rx: "rx = \<lparr>stdout_ctx = c1, stderr_ctx = c2, stdin_ctx = c3\<rparr>"
    by (auto simp: react_io_ctx3_def with_ctx_Inr)
  from new_stream_ctx_spec [OF n(1)] obtain d1 where d1: "c1 = \<lparr>cx_orig = a, cx_dup = d1, cx_is_stderr = False\<rparr>" "dup_of a d1 h h1" by auto
  from new_stream_ctx_spec [OF n(2)] obtain d2 where d2: "c2 = \<lparr>cx_orig = b, cx_dup = d2, cx_is_stderr = False\<rparr>" "dup_of b d2 h1 h2" by auto
  from new_stream_ctx_spec [OF n(3)] obtain d3 where d3: "c3 = \<lparr>cx_orig = c, cx_dup = d3, cx_is_stderr = False\<rparr>" "dup_of c d3 h2 h'" by auto
  have "made rx h h'"
    unfolding made_def
  proof (intro allI impI)
    fix h'' assume "host_fds h'' = host_fds h'"
    with dup_of_fresh [OF d1(2)] dup_of_fresh [OF d2(2)] dup_of_fresh [OF d3(2)] d1 d2 d3
    show "host_fds (drop_react_io_ctx rx h'') = host_fds h"
      by (simp add: drop_react_io_ctx_def rx dup_of_def)
  qed
  then show ?thesis using d1 d2 d3
    by (simp add: rx dup_of_def get_stdout_fd_def get_stderr_fd_def get_stdin_fd_def is_valid_init_def)
qed

lemma made_stderr: "made (rx\<lparr>stderr_ctx := (stderr_ctx rx)\<lparr>cx_is_stderr := True\<rparr>\<rparr>) h h' = made rx h h'"
  by (simp add: made_def drop_react_io_ctx_def)

lemma add_fd_spec:
  assumes "add_fd fd ms_empty h = (r, h')"
  shows "(\<exists>e. r = Inl e \<and> host_fds h' = host_fds h) \<or>
    (\<exists>rx ms. r = Inr ms \<and> made rx h h' \<and>
       one_call 0 rx (new_mux env ms (map_insert fd (output_stream_context 1) []) h'))"
proof -
  obtain q h1 where q: "react_io_ctx1 fd h = (q, h1)" by (cases "react_io_ctx1 fd h")
  from react_io_ctx1_spec [OF q] show ?thesis
  proof (elim disjE exE conjE)
    fix e assume "q = Inl e" "host_fds h1 = host_fds h"
    with assms q show ?thesis by (auto simp: add_fd_def bind_s_def)
  next
    fix rx assume "q = Inr rx" and m: "made rx h h1" and g: "get_stdout_fd rx = fd" "get_stderr_fd rx = -1" "get_stdin_fd rx = -1"
      "is_valid_init (stdout_ctx rx)" "0 \<le> fd"
    with assms q have "r = Inr \<lparr>fd_map = [(fd, 0)], ms_items = [(0, rx)], ms_next = 1\<rparr>" "h' = h1"
      by (simp_all add: add_fd_def bind_s_def ms_empty_def map_insert_def release_items_def Let_def)
    with m g show ?thesis
      by (auto simp: one_call_def new_mux_def map_insert_def streams_def call_fds_def get_stderr_fd_def get_stdin_fd_def Let_def)
  qed
qed

lemma add_entry_spec:
  assumes "add_entry_to_map a b c ms_empty h = (r, h')" and "distinct [a, b, c]" and "distinct [1, 2, out]"
  shows "(\<exists>e. r = Inl e \<and> host_fds h' = host_fds h) \<or>
    (\<exists>rx ms. r = Inr ms \<and> made rx h h' \<and>
       one_call 0 rx (new_mux env ms (map_insert c (output_stream_context out) (map_insert b (output_stream_context 2)
         (map_insert a (output_stream_context 1) []))) h'))"
proof -
  obtain q h1 where q: "react_io_ctx3 a b c h = (q, h1)" by (cases "react_io_ctx3 a b c h")
  show ?thesis
  proof (cases q)
    case (Inl e)
    with assms(1) q react_io_ctx3_Inl [of a b c h e h1] show ?thesis by (auto simp: add_entry_to_map_def bind_s_def)
  next
    case (Inr rx)
    let ?rx = "rx\<lparr>stderr_ctx := (stderr_ctx rx)\<lparr>cx_is_stderr := True\<rparr>\<rparr>"
    note s = react_io_ctx3_Inr [OF q [unfolded Inr]]
    have r: "r = Inr \<lparr>fd_map = [(a, 0), (b, 0), (c, 0)], ms_items = [(0, ?rx)], ms_next = 1\<rparr>" "h' = h1"
      using assms q Inr by (auto simp: add_entry_to_map_def bind_s_def ms_empty_def map_insert_def release_items_def Let_def)
    have "made ?rx h h'" using s by (simp add: made_stderr r)
    moreover have "one_call 0 ?rx (new_mux env \<lparr>fd_map = [(a, 0), (b, 0), (c, 0)], ms_items = [(0, ?rx)], ms_next = 1\<rparr>
       (map_insert c (output_stream_context out) (map_insert b (output_stream_context 2)
         (map_insert a (output_stream_context 1) []))) h')"
      using s assms(2,3)
      by (auto simp: one_call_def new_mux_def map_insert_def streams_def call_fds_def get_stdout_fd_def
          get_stderr_fd_def get_stdin_fd_def is_valid_init_def output_stream_context_def Let_def)
    ultimately show ?thesis using r by blast
  qed
qed

lemma host_fds_close_all:
  "host_fds (close_all fds h) n = (if int n \<in> set fds then None else host_fds h n)"
proof (induction fds arbitrary: h)
  case (Cons fd fds)
  have "host_fds (host_close fd h) n = (if int n = fd then None else host_fds h n)" by auto
  with Cons show ?case by (auto simp: close_all_def)
qed (simp add: close_all_def)

lemma dup_stdin_spec:
  assumes "dup_stdin h = (r, h')"
  shows "(r = Inl () \<and> host_fds h' = host_fds h) \<or> (\<exists>i. r = Inr i \<and> dup_of 0 i h h')"
proof -
  obtain n h1 where d: "dup_fd 0 h = (n, h1)" by (cases "dup_fd 0 h")
  obtain rtn h2 where s: "set_nonblock n h1 = (rtn, h2)" by (cases "set_nonblock n h1")
  note ds = dup_fd_spec [OF d] and ss = set_nonblock_spec [OF s]
  have "fun_upd (host_fds h) k None = host_fds h" if "host_fds h k = None" for k using that by auto
  with assms ds ss show ?thesis by (auto simp: dup_stdin_def d s dup_of_def Let_def split: if_splits)
qed

section \<open>What the function shows\<close>

definition shown :: "echo_env \<Rightarrow> int \<Rightarrow> int \<Rightarrow> echo_state \<Rightarrow> bool" where
  \<comment> \<open>an output got nothing but a beginning of what came in\<close>
  "shown env fd out st = (\<exists>d. sk_bytes (es_sinks st out) = sk_bytes (en_sinks env out) @ d \<and> prefix d (data_of (en_evs env fd)))"

lemma copy_streams_spec:
  assumes "one_call 0 rx (new_mux env ms outs h1)" and "made rx h h1"
    and "copy_streams env sg owned ms outs h1 = Echo_ret rtn st"
  shows "(\<forall>n. host_fds (es_host st) n = (if int n \<in> set owned then None else host_fds h n)) \<and>
    (\<forall>(fd, oc) \<in> set outs. shown env fd (output_stream oc) st) \<and>
    (\<forall>out. out \<notin> output_stream ` snd ` set outs \<longrightarrow> es_sinks st out = en_sinks env out)"
proof -
  let ?mx = "new_mux env ms outs h1"
  obtain ec wr mx where m: "multi_read_on_ready (en_polls env) ?mx = Mux_ret ec wr mx"
    using assms(3) by (auto simp: copy_streams_def split: mux_result.splits)
  then have st: "st = \<lparr>es_host = close_all owned (destroy_rms (mx_rms mx) (mx_host mx)), es_sinks = mx_sinks mx, es_sig = sg\<rparr>"
    using assms(3) by (simp add: copy_streams_def)
  note ok = multi_read_ok [OF assms(1) m]
  have "host_fds (destroy_rms (mx_rms mx) (mx_host mx)) = host_fds h"
  proof (cases "wr = NO_OP")
    case True
    with ok have "one_call 0 rx mx" "mx_host mx = h1" by (simp_all add: new_mux_def)
    with assms(2) show ?thesis by (simp add: one_call_def destroy_rms_def made_def Let_def)
  next
    case False
    with ok have "ms_items (mx_rms mx) = []" "mx_host mx = drop_react_io_ctx rx h1" by (simp_all add: new_mux_def)
    with assms(2) show ?thesis by (simp add: destroy_rms_def made_def)
  qed
  moreover have d: "delivers ?mx mx" using ok by blast
  moreover have "shown env fd (output_stream oc) st" if "(fd, oc) \<in> set outs" for fd oc
  proof -
    have "(fd, output_stream oc) \<in> set (streams ?mx)" using that by (force simp: streams_def new_mux_def)
    with d have "delivered ?mx fd (output_stream oc) mx" by (auto simp: delivers_def)
    then show ?thesis by (auto simp: delivered_def shown_def st written_def new_mux_def)
  qed
  moreover have "es_sinks st out = en_sinks env out" if "out \<notin> output_stream ` snd ` set outs" for out
  proof -
    have "snd ` set (streams ?mx) = output_stream ` snd ` set outs" by (force simp: streams_def new_mux_def)
    with d that show ?thesis by (auto simp: delivers_def st new_mux_def)
  qed
  ultimately show ?thesis by (auto simp: st host_fds_close_all)
qed

lemma shown_nothing: "es_sinks st = en_sinks env \<Longrightarrow> shown env fd out st"
  by (auto simp: shown_def)

lemma echo_fails_spec:
  assumes "echo_fails env sg owned h = Echo_ret rtn st"
  shows "es_sinks st = en_sinks env \<and> (\<forall>n. host_fds (es_host st) n = (if int n \<in> set owned then None else host_fds h n))"
  using assms by (auto simp: echo_fails_def host_fds_close_all)

lemma echo_react_spec:
  assumes "echo_react env sg rsp err wrt h = Echo_ret rtn st" and "rsp \<noteq> err" and "wrt \<notin> {1, 2}"
    and "0 \<le> rsp" "0 \<le> err" "host_fds h (nat rsp) \<noteq> None" "host_fds h (nat err) \<noteq> None"
  shows "(\<forall>n. host_fds (es_host st) n = (if int n \<in> {rsp, err, wrt} then None else host_fds h n)) \<and>
    shown env rsp 1 st \<and> shown env err 2 st \<and> (\<exists>i. shown env i wrt st) \<and>
    (\<forall>out. out \<notin> {1, 2, wrt} \<longrightarrow> es_sinks st out = en_sinks env out)"
proof -
  obtain q h1 where q: "dup_stdin h = (q, h1)" by (cases "dup_stdin h")
  from dup_stdin_spec [OF q] show ?thesis
  proof (elim disjE exE conjE)
    assume "q = Inl ()" "host_fds h1 = host_fds h"
    with assms(1) q show ?thesis by (auto simp: echo_react_def echo_fails_def host_fds_close_all shown_nothing)
  next
    fix i assume qi: "q = Inr i" and d: "dup_of 0 i h h1"
    have i: "i \<noteq> rsp" "i \<noteq> err" "0 \<le> i" using d assms(6,7) by (auto simp: dup_of_def)
    have undone: "(if int n \<in> set [wrt, i, err, rsp] then None else host_fds h1 n) =
        (if int n \<in> {rsp, err, wrt} then None else host_fds h n)" for n
      using d i by (auto simp: dup_of_def)
    have fails: ?thesis if "echo_fails env sg [wrt, i, err, rsp] h' = Echo_ret rtn st" "host_fds h' = host_fds h1" for h'
    proof -
      have "\<forall>n. host_fds (es_host st) n = (if int n \<in> {rsp, err, wrt} then None else host_fds h n)"
        using echo_fails_spec [OF that(1)] unfolding that(2) undone by blast
      moreover have "es_sinks st = en_sinks env" using echo_fails_spec [OF that(1)] by blast
      ultimately show ?thesis by (auto simp: shown_nothing)
    qed
    obtain q2 h2 where a: "add_entry_to_map rsp err i ms_empty h1 = (q2, h2)" by (cases "add_entry_to_map rsp err i ms_empty h1")
    have dis: "distinct [rsp, err, i]" "distinct [1, 2, wrt]" using assms(2,3) i by auto
    from add_entry_spec [OF a dis, of env] show ?thesis
    proof (elim disjE exE conjE)
      fix e assume "q2 = Inl e" and h2: "host_fds h2 = host_fds h1"
      with assms(1) q qi a have "\<exists>h'. echo_fails env sg [wrt, i, err, rsp] h' = Echo_ret rtn st \<and> host_fds h' = host_fds h1"
        by (auto simp: echo_react_def Let_def split: if_splits)
      with h2 fails show ?thesis by blast
    next
      let ?outs = "map_insert i (output_stream_context wrt) (map_insert err (output_stream_context 2)
         (map_insert rsp (output_stream_context 1) []))"
      fix rx ms assume ms: "q2 = Inr ms" and m: "made rx h1 h2" and oc: "one_call 0 rx (new_mux env ms ?outs h2)"
      show ?thesis
      proof (cases "en_fdopen env")
        case True
        with assms(1) q qi a ms have c: "copy_streams env sg [wrt, i, err, rsp] ms ?outs h2 = Echo_ret rtn st"
          by (simp add: echo_react_def)
        have o: "?outs = [(rsp, output_stream_context 1), (err, output_stream_context 2), (i, output_stream_context wrt)]"
          using dis by (simp add: map_insert_def)
        from copy_streams_spec [OF oc m c, unfolded undone o] show ?thesis by (auto simp: output_stream_context_def)
      next
        case False
        with assms(1) q qi have "echo_fails env sg [wrt, i, err, rsp] h1 = Echo_ret rtn st" by (simp add: echo_react_def)
        with fails show ?thesis by blast
      qed
    qed
  qed
qed

section \<open>The stream of a simple command\<close>

lemma fd_alloc_free: "n < lim \<Longrightarrow> fd_at xs n = None \<Longrightarrow> \<exists>m ys. fd_alloc lim e xs = Some (m, ys)"
proof (induction lim e xs arbitrary: n rule: fd_alloc.induct)
  case (4 lim e x xs)
  then obtain k where "n = Suc k" by (cases n) auto
  with 4 show ?case by fastforce
qed auto

definition room :: "host \<Rightarrow> bool" where
  \<comment> \<open>one more descriptor can be opened\<close>
  "room h = (\<exists>n < pr_limit (snd (ho_sys h)). host_fds h n = None)"

lemma add_fd_single:
  assumes "host_fds h (nat rsp) = Some d" and "0 \<le> rsp" and "d \<notin> set (ho_fixed h)" and "room h"
  shows "\<exists>ms h'. add_fd rsp ms_empty h = (Inr ms, h')"
proof -
  obtain os p where s: "ho_sys h = (os, p)" by (cases "ho_sys h")
  from assms(4) obtain k where "k < pr_limit p" "fd_at (pr_fds p) k = None" by (auto simp: s room_def host_fds_def)
  from fd_alloc_free [OF this, of d] obtain n fds where f: "fd_alloc (pr_limit p) d (pr_fds p) = Some (n, fds)" by blast
  let ?h = "h\<lparr>ho_sys := (os, p\<lparr>pr_fds := fds\<rparr>)\<rparr>"
  have "dup_fd rsp h = (int n, ?h)" using assms(1,2) f by (simp add: dup_fd_def s)
  moreover have "host_fds ?h n = Some d" using fd_alloc_at [OF f] by (simp add: host_fds_def)
  ultimately obtain cx h1 where "new_stream_ctx rsp h = (Inr cx, h1)"
    using assms(3) by (auto simp: new_stream_ctx_def set_nonblock_def)
  then show ?thesis by (auto simp: add_fd_def react_io_ctx1_def bind_s_def case_prod_beta Let_def)
qed

definition good_writer :: "echo_env \<Rightarrow> int \<Rightarrow> bool" where
  \<comment> \<open>the other end of the descriptor writes, sometimes pauses, and closes; standard output takes it all;
      \<open>poll\<close> reports the descriptor often enough\<close>
  "good_writer env rsp =
     (paced False (en_evs env rsp) \<and> length (data_of (en_evs env rsp)) < 2 ^ 64 \<and> en_intr env rsp = [] \<and>
      sk_evs (en_sinks env 1) = [] \<and>
      (\<exists>rs. en_polls env = map (\<lambda>r. Ready [(rsp, r)]) rs \<and> 0 \<notin> set rs \<and> gaps (en_evs env rsp) < length rs))"

lemma echo_single_arrives:
  assumes "host_fds h (nat rsp) = Some d" and "0 \<le> rsp" and "d \<notin> set (ho_fixed h)"
    and "room h" and "good_writer env rsp"
  shows "\<exists>st. echo_single env sg rsp h = Echo_ret EXIT_SUCCESS st \<and>
    sk_bytes (es_sinks st 1) = sk_bytes (en_sinks env 1) @ data_of (en_evs env rsp) \<and>
    (\<forall>out. out \<noteq> 1 \<longrightarrow> es_sinks st out = en_sinks env out) \<and>
    (\<forall>n. host_fds (es_host st) n = (if int n = rsp then None else host_fds h n))"
proof -
  obtain ms h1 where a: "add_fd rsp ms_empty h = (Inr ms, h1)" using add_fd_single [OF assms(1-4)] by blast
  let ?outs = "map_insert rsp (output_stream_context 1) []" and ?mx = "new_mux env ms (map_insert rsp (output_stream_context 1) []) h1"
  from add_fd_spec [OF a, of env] obtain rx where m: "made rx h h1" and oc: "one_call 0 rx ?mx" by auto
  obtain rs where rs: "en_polls env = map (\<lambda>r. Ready [(rsp, r)]) rs" "0 \<notin> set rs" "gaps (en_evs env rsp) < length rs"
    using assms(5) by (auto simp: good_writer_def)
  have o: "?outs = [(rsp, output_stream_context 1)]" by (simp add: map_insert_def)
  have "ready_stream rsp 1 ?mx"
    using assms(5) by (simp add: ready_stream_def good_writer_def new_mux_def streams_def map_insert_def output_stream_context_def)
  moreover have "gaps (mx_evs ?mx rsp) < length rs" using rs by (simp add: new_mux_def)
  ultimately obtain mx' where l: "multi_loop (map (\<lambda>r. Ready [(rsp, r)]) rs) NO_OP ?mx = Mux_ret (mx_ec ?mx) END_OF_FILE mx'"
    and t: "torn_down rx ?mx END_OF_FILE mx'" using multi_loop_paced [OF oc _ rs(2)] by blast
  have "?mx\<lparr>mx_ec := EXIT_SUCCESS\<rparr> = ?mx" by (simp add: new_mux_def)
  then have r: "multi_read_on_ready (en_polls env) ?mx = Mux_ret EXIT_SUCCESS END_OF_FILE mx'"
    using l by (simp add: multi_read_on_ready_def rs(1) new_mux_def)
  have e: "\<exists>st. echo_single env sg rsp h = Echo_ret EXIT_SUCCESS st \<and> copy_streams env sg [rsp] ms ?outs h1 = Echo_ret EXIT_SUCCESS st \<and>
      es_sinks st = mx_sinks mx'"
    by (simp add: echo_single_def a copy_streams_def r echo_rtn_def)
  then obtain st where st: "echo_single env sg rsp h = Echo_ret EXIT_SUCCESS st" "es_sinks st = mx_sinks mx'"
      "copy_streams env sg [rsp] ms ?outs h1 = Echo_ret EXIT_SUCCESS st" by blast
  have "all_written ?mx mx'" using t by (simp add: torn_down_def)
  then have "sk_bytes (es_sinks st 1) = sk_bytes (en_sinks env 1) @ data_of (en_evs env rsp)"
    by (simp add: all_written_def new_mux_def streams_def map_insert_def output_stream_context_def written_def st(2))
  with copy_streams_spec [OF oc m st(3), unfolded o] st(1) show ?thesis by (auto simp: output_stream_context_def)
qed

lemma install_fds_limit: "install_fds ds p = (ns, p') \<Longrightarrow> pr_limit p' = pr_limit p"
  by (induction ds arbitrary: p ns) (fastforce split: option.splits prod.splits)+

lemma close_fd_limit: "pr_limit (snd (close_fd fd s)) = pr_limit (snd s)"
  by (simp add: close_fd_def case_prod_beta Let_def)

lemma recv_datagram_limit: "recv_datagram fd s = Some (d, s') \<Longrightarrow> snd s' = snd s"
  by (auto simp: recv_datagram_def split: prod.splits option.splits fdesc.splits list.splits)

lemma obtain_limit: "obtain_response_stream fd s = Some (r, s') \<Longrightarrow> pr_limit (snd s') = pr_limit (snd s)"
  by (auto simp: obtain_response_stream_def recv_pid_def receive_fds_def fd_cleanup_def close_fd_limit Let_def
      dest!: recv_datagram_limit install_fds_limit
      split: option.splits prod.splits sum.splits if_splits datagram.splits)

lemma response_arrives_client:
  assumes "open_write_anon_pipe n (os, srv) = (Inr wr, (os1, srv1))" and "fd_at (pr_fds srv) 0 = Some stdin"
    and "sock_addr n = Some a" and "os_bound os a = Some []"
    and "fd_at (pr_fds cl) sock = Some (Sock (Some a))" and "length (pr_fds cl) + 2 \<le> pr_limit cl"
    and "ho_sys h = (os1, cl)" and "ho_fixed h = []"
  shows "\<exists>k rd lost s. obtain_response_stream sock (ho_sys h) = Some (Inr (pr_pid srv, rd, None, None), s) \<and>
     table s rd = Some (Pipe_rd k) \<and> fd_at (pr_fds srv1) wr = Some (Pipe_wr k) \<and> fd_at (pr_fds cl) lost = None \<and>
     (good_writer env (int rd) \<longrightarrow>
       (\<exists>st. stdout_echo_response_stream sock sv env h = Echo_ret EXIT_SUCCESS st \<and>
         sk_bytes (es_sinks st 1) = sk_bytes (en_sinks env 1) @ data_of (en_evs env (int rd)) \<and>
         (\<forall>out. out \<noteq> 1 \<longrightarrow> es_sinks st out = en_sinks env out) \<and>
         host_fds (es_host st) = (fd_at (pr_fds cl))(lost \<mapsto> stdin, sock := None)))"
proof -
  obtain k rd lost os2 cl1 where o: "obtain_response_stream sock (os1, cl) = Some (Inr (pr_pid srv, rd, None, None), (os2, cl1))"
    and w: "fd_at (pr_fds srv1) = (fd_at (pr_fds srv))(wr \<mapsto> Pipe_wr k)"
    and d: "distinct [rd, lost]" "fd_at (pr_fds cl) rd = None" "fd_at (pr_fds cl) lost = None"
    and t: "fd_at (pr_fds cl1) = (fd_at (pr_fds cl))(rd \<mapsto> Pipe_rd k, lost \<mapsto> stdin, sock := None)"
    using write_pipe_ends [OF assms(1-6)] by blast
  let ?h = "h\<lparr>ho_sys := (os2, cl1)\<rparr>"
  have ne: "rd \<noteq> sock" "lost \<noteq> sock" using d assms(5) by auto
  have hf: "host_fds ?h = fd_at (pr_fds cl1)" by (simp add: host_fds_def)
  have "sock < length (pr_fds cl)" using assms(5) by (auto simp: fd_at_def split: if_splits)
  then have "sock < pr_limit cl1" using assms(6) obtain_limit [OF o] by simp
  then have r: "room ?h" unfolding room_def hf using t by auto
  have "\<exists>st. echo_single env sg (int rd) ?h = Echo_ret EXIT_SUCCESS st \<and>
      sk_bytes (es_sinks st 1) = sk_bytes (en_sinks env 1) @ data_of (en_evs env (int rd)) \<and>
      (\<forall>out. out \<noteq> 1 \<longrightarrow> es_sinks st out = en_sinks env out) \<and>
      host_fds (es_host st) = (fd_at (pr_fds cl))(lost \<mapsto> stdin, sock := None)" if good: "good_writer env (int rd)" for sg
  proof -
    have i: "host_fds ?h (nat (int rd)) = Some (Pipe_rd k)" using t d ne by (simp add: hf)
    obtain st where st: "echo_single env sg (int rd) ?h = Echo_ret EXIT_SUCCESS st"
        "sk_bytes (es_sinks st 1) = sk_bytes (en_sinks env 1) @ data_of (en_evs env (int rd))"
        "\<forall>out. out \<noteq> 1 \<longrightarrow> es_sinks st out = en_sinks env out"
        "\<forall>n. host_fds (es_host st) n = (if int n = int rd then None else host_fds ?h n)"
      using echo_single_arrives [OF i _ _ r good, of sg] assms(8) by auto
    have "host_fds (es_host st) = (fd_at (pr_fds cl))(lost \<mapsto> stdin, sock := None)"
      using st(4) d ne by (auto simp: fun_eq_iff hf t)
    with st show ?thesis by blast
  qed
  then show ?thesis
    by (intro exI [of _ k] exI [of _ rd] exI [of _ lost] exI [of _ "(os2, cl1)"])
      (use t d ne in \<open>simp add: stdout_echo_response_stream_def assms(7) o w table_def\<close>)
qed

text \<open>
  C7. The output of a command arrives. When a process has opened its response pipe for a waiting
  client, the client's end is a read end of that very pipe, and as long as the writer writes,
  pauses and closes, the client prints every byte of it, in order, nothing else anywhere, exits
  with success, and has closed what it was given; only the stray descriptor of the message stays.
\<close>

theorem response_arrives:
  assumes "open_write_anon_pipe n (os, srv) = (Inr wr, (os1, srv1))" and "fd_at (pr_fds srv) 0 = Some stdin"
    and "sock_addr n = Some a" and "os_bound os a = Some []"
    and "fd_at (pr_fds cl) sock = Some (Sock (Some a))" and "length (pr_fds cl) + 2 \<le> pr_limit cl"
    and "ho_sys h = (os1, cl)" and "ho_fixed h = []"
  shows "\<exists>k rd lost s. obtain_response_stream sock (ho_sys h) = Some (Inr (pr_pid srv, rd, None, None), s) \<and>
     table s rd = Some (Pipe_rd k) \<and> fd_at (pr_fds srv1) wr = Some (Pipe_wr k) \<and> fd_at (pr_fds cl) lost = None \<and>
     (good_writer env (int rd) \<longrightarrow>
       (\<exists>st. stdout_echo_response_stream sock sv env h = Echo_ret EXIT_SUCCESS st \<and>
         sk_bytes (es_sinks st 1) = sk_bytes (en_sinks env 1) @ data_of (en_evs env (int rd)) \<and>
         (\<forall>out. out \<noteq> 1 \<longrightarrow> es_sinks st out = en_sinks env out) \<and>
         host_fds (es_host st) = (fd_at (pr_fds cl))(lost \<mapsto> stdin, sock := None)))"
  by (rule response_arrives_client [OF assms])


section \<open>Interrupts\<close>

definition killed :: "sig_action list \<Rightarrow> int set" where
  "killed acts = {p. Kill_term p \<in> set acts}"



text \<open>
  C18. A request for the status names no supervisor, so an interrupt while the status is printed
  terminates the supervisor: it is the process that answered.
\<close>

theorem status_interrupt_kills_supervisor:
  assumes "open_write_anon_pipe n (os, srv) = (Inr wr, (os1, srv1))" and "fd_at (pr_fds srv) 0 = Some stdin"
    and "sock_addr n = Some a" and "os_bound os a = Some []"
    and "fd_at (pr_fds cl) sock = Some (Sock (Some a))" and "length (pr_fds cl) + 2 \<le> pr_limit cl"
    and "ho_sys h = (os1, cl)" and "0 < pr_pid srv"
    and "stdout_echo_response_stream sock (-1) env h = Echo_ret rtn st"
  shows "killed (snd (ctrl_c_handler waits (es_sig st))) = {pr_pid srv}"
proof -
  obtain rd os2 cl1 where o: "obtain_response_stream sock (os1, cl) = Some (Inr (pr_pid srv, rd, None, None), (os2, cl1))"
    using write_pipe_ends [OF assms(1-6)] by blast
  with assms(7,9) have "es_sig st = set_sig_state (pr_pid srv) (-1) (int rd) None"
    by (auto simp: stdout_echo_response_stream_def echo_single_def copy_streams_def echo_fails_def
        split: prod.splits sum.splits mux_result.splits)
  with assms(8) show ?thesis
    by (auto simp: ctrl_c_handler_def set_sig_state_def killed_def close_if_def)
qed

section \<open>The end of the input\<close>

lemma echo_at_end: "pm_evs st = Rd [] # evs \<Longrightarrow> pm_intr st = [] \<Longrightarrow> echo st = (END_OF_FILE, st\<lparr>pm_evs := evs\<rparr>)"
  by (subst echo.simps) (simp add: pump_interrupted_def)

lemma round_at_end:
  assumes "one_call i rx mx" and "(fd, out) \<in> set (streams mx)" and "out \<noteq> -1" and "mx_evs mx fd = Rd [] # evs"
    and "mx_intr mx fd = []"
  shows "\<exists>mx'. read_round [(fd, revents)] mx = (END_OF_FILE, mx') \<and> mx_sinks mx' = mx_sinks mx \<and> mx_ec mx' = mx_ec mx \<and>
    fd_map (mx_rms mx') = []"
proof -
  let ?mx = "mx\<lparr>mx_ctrl_z := True\<rparr>"
  have keys: "fst ` set [(fd, revents)] \<subseteq> fst ` set (mx_outs mx)"
    using assms(2) by (force simp: streams_def)
  have "distinct (map fst (mx_outs mx))" using assms(1) by (simp add: one_call_def Let_def)
  then obtain oc where oc: "map_of (mx_outs mx) fd = Some oc" "output_stream oc = out"
    using assms(2) by (auto simp: streams_def)
  then have t: "task_of mx (fd, revents) = ((fd, revents), out)" by (simp add: task_of_def)
  let ?st = "\<lparr>pm_evs = mx_evs mx fd, pm_intr = mx_intr mx fd, pm_sink = mx_sinks mx out,
     pm_read_total = 0, pm_n_read = 0, pm_n_writ = counter mx fd\<rparr>"
  have "\<exists>pm. write_to_output_stream (fd, revents) out ?st = ((fd, END_OF_FILE), pm) \<and> pm_sink pm = mx_sinks mx out"
    using assms(3-5) by (simp add: write_to_output_stream_def echo_at_end Let_def)
  then obtain pm where w: "write_to_output_stream (fd, revents) out ?st = ((fd, END_OF_FILE), pm)" "pm_sink pm = mx_sinks mx out" by blast
  obtain mx2 where r: "run_write ((fd, revents), out) ?mx = ((fd, END_OF_FILE), mx2)" "mx_sinks mx2 = mx_sinks mx"
    using w oc by (auto simp: run_write_def counter_def Let_def)
  note loc = run_write_local [OF r(1)]
  have oc2: "one_call i rx mx2" by (rule one_call_cong [OF assms(1)]) (use loc(1,5) in \<open>simp_all add: delivers_ctrl_z\<close>)
  have "fst ` set [(fd, END_OF_FILE)] \<subseteq> set (map fst (mx_outs mx2))" unfolding loc(6) using keys by simp
  then have "obtain_result (fd, END_OF_FILE) (NO_OP, mx2) = (END_OF_FILE, closed_call rx mx2)"
    using collect_call [OF oc2, of "[(fd, END_OF_FILE)]"] by (simp add: ended_def can_continue_def)
  then show ?thesis
    using start_writes_call [OF assms(1) keys] r loc(3) by (simp add: read_round_def t closed_call_def left_over_def)
qed

lemma copy_at_end:
  assumes "one_call i rx (new_mux env ms outs h)" and "(fd, out) \<in> set (streams (new_mux env ms outs h))" and "out \<noteq> -1"
    and "en_evs env fd = Rd [] # evs" and "en_intr env fd = []" and "en_polls env = Ready [(fd, revents)] # polls" and "revents \<noteq> 0"
  shows "\<exists>st. copy_streams env sg owned ms outs h = Echo_ret EXIT_SUCCESS st \<and> es_sinks st = en_sinks env"
proof -
  let ?mx = "new_mux env ms outs h"
  have e: "?mx\<lparr>mx_ec := EXIT_SUCCESS\<rparr> = ?mx" by (simp add: new_mux_def)
  obtain mx' where r: "read_round [(fd, revents)] ?mx = (END_OF_FILE, mx')" "mx_sinks mx' = mx_sinks ?mx"
      "mx_ec mx' = mx_ec ?mx" "fd_map (mx_rms mx') = []"
    using round_at_end [OF assms(1-3), of evs revents] assms(4,5) by (auto simp: new_mux_def)
  have "fst ` set (fd_map (mx_rms ?mx)) = fst ` set (streams ?mx)"
    using assms(1) arg_cong [OF streams_keys [of ?mx], of set] by (simp add: one_call_def Let_def image_image)
  then have act: "active_fds (mx_rms ?mx) [(fd, revents)] = [(fd, revents)]"
    using assms(2,7) by (auto simp: active_fds_def intro: rev_image_eqI)
  then have p: "poll_for_io (mx_rms ?mx) (Ready [(fd, revents)] # polls) = Poll_ret 0 [(fd, revents)] polls"
    using call_size [OF assms(1)] by (simp add: poll_for_io_def)
  have "mx_ec mx' = EXIT_SUCCESS" using r(3) by (simp add: new_mux_def)
  then have "multi_read_on_ready (en_polls env) ?mx = Mux_ret EXIT_SUCCESS END_OF_FILE mx'"
    unfolding multi_read_on_ready_def assms(6) e
    by (subst multi_loop.simps) (simp add: flag_set_def p r call_size [OF assms(1), simplified] multi_loop_closed)
  with r show ?thesis by (simp add: copy_streams_def echo_rtn_def new_mux_def)
qed

text \<open>
  C31. The end of any one stream ends the copying of all three: when the user's standard input is
  at its end before the command has answered, the client exits with success and shows none of the
  command's output, whatever the command writes.
\<close>

theorem stdin_end_drops_output:
  assumes "dup_stdin h = (Inr i, h1)" and "add_entry_to_map rsp err i ms_empty h1 = (Inr ms, h2)" and "en_fdopen env"
    and "distinct [rsp, err, i]" and "distinct [1, 2, wrt]" and "wrt \<noteq> -1"
    and "en_evs env i = Rd [] # evs" and "en_intr env i = []" and "en_polls env = Ready [(i, revents)] # polls" and "revents \<noteq> 0"
  shows "\<exists>st. echo_react env sg rsp err wrt h = Echo_ret EXIT_SUCCESS st \<and> es_sinks st = en_sinks env"
proof -
  let ?outs = "map_insert i (output_stream_context wrt) (map_insert err (output_stream_context 2)
         (map_insert rsp (output_stream_context 1) []))"
  obtain rx where oc: "one_call 0 rx (new_mux env ms ?outs h2)"
    using add_entry_spec [OF assms(2,4,5), of env] by auto
  have "(i, wrt) \<in> set (streams (new_mux env ms ?outs h2))"
    using assms(4) by (auto simp: streams_def new_mux_def map_insert_def output_stream_context_def)
  from copy_at_end [OF oc this assms(6-10)] show ?thesis by (simp add: echo_react_def assms(1-3))
qed

section \<open>Examples\<close>

text \<open>A client that waits on its socket for the answer of a reactive invocation.\<close>

definition hello :: "read_ev list" where
  "hello = [Rd ''hel'', Rd_err EAGAIN, Rd ''lo'', Rd []]"

definition quiet_sink :: sink where "quiet_sink = \<lparr>sk_bytes = [], sk_evs = []\<rparr>"

definition hello_env :: "poll_ev list \<Rightarrow> echo_env" where
  \<comment> \<open>output at descriptor 4, nothing on the others\<close>
  "hello_env polls = \<lparr>en_polls = polls, en_evs = (\<lambda>fd. if fd = 4 then hello else [Rd []]), en_intr = (\<lambda>fd. []),
     en_sinks = (\<lambda>out. quiet_sink), en_fdopen = True\<rparr>"

definition host_of :: "sys \<Rightarrow> host" where
  "host_of s = \<lparr>ho_sys = s, ho_nonblock = [], ho_fixed = []\<rparr>"

theorem response_arrives_witness:
  "\<exists>os1 srv1 st. open_write_anon_pipe ''/tmp/a'' (asked, runner) = (Inr 4, (os1, srv1)) \<and>
     stdout_echo_response_stream 3 300 (hello_env [Ready [(4, 1)], Ready [(4, 0x11)]]) (host_of (os1, asker)) = Echo_ret EXIT_SUCCESS st \<and>
     sk_bytes (es_sinks st 1) = ''hello'' \<and> host_fds (es_host st) 3 = None"
proof -
  let ?r = "open_write_anon_pipe ''/tmp/a'' (asked, runner)" and ?env = "hello_env [Ready [(4, 1)], Ready [(4, 0x11)]]"
  have "fst ?r = Inr 4" by code_simp
  then obtain os1 srv1 where o: "?r = (Inr 4, (os1, srv1))" by (cases ?r) auto
  have a: "sock_addr ''/tmp/a'' = Some (NUL # ''tmp/a'')" by code_simp
  have "map_option (\<lambda>(r, s). r) (obtain_response_stream 3 (fst (snd ?r), asker)) = Some (Inr (400, 4, None, None))" by code_simp
  then have rd: "obtain_response_stream 3 (os1, asker) = Some (Inr (400, rd, None, None), s) \<Longrightarrow> rd = 4" for rd s by (simp add: o)
  have g: "good_writer ?env 4"
    unfolding good_writer_def
    by (simp add: hello_env_def hello_def quiet_sink_def) (rule exI [of _ "[1, 0x11]"], simp)
  from response_arrives [OF o _ a, of "Pipe_rd 2" asker 3 "host_of (os1, asker)" ?env 300] obtain rd lost st where
      "rd = 4" and st: "fd_at (pr_fds asker) lost = None"
      "stdout_echo_response_stream 3 300 ?env (host_of (os1, asker)) = Echo_ret EXIT_SUCCESS st"
      "sk_bytes (es_sinks st 1) = sk_bytes (en_sinks ?env 1) @ data_of (en_evs ?env 4)"
      "host_fds (es_host st) 3 = None"
    using g rd by (auto simp: asked_def asker_def runner_def fd_at_def host_of_def)
  have "sk_bytes (es_sinks st 1) = ''hello''" using st(3) by (simp add: hello_env_def hello_def quiet_sink_def)
  with o st show ?thesis by blast
qed

definition react_client :: host where
  "react_client = host_of (fst (snd (open_react_anon_pipes ''/tmp/a'' (asked, runner))), asker)"

definition react_env :: echo_env where
  "react_env = hello_env [Ready [(4, 1), (5, 0)], Ready [(4, 0x11)]]"


theorem stdin_end_drops_output_witness:
  "\<exists>st. echo_react (hello_env [Ready [(7, 1)]]) s_sig_state 4 5 6
     (host_of (asked, asker\<lparr>pr_fds := pr_fds asker @ [Some (Pipe_rd 7), Some (Pipe_rd 8), Some (Pipe_wr 9)]\<rparr>)) = Echo_ret EXIT_SUCCESS st \<and>
     sk_bytes (es_sinks st 1) = []"
proof -
  let ?h = "host_of (asked, asker\<lparr>pr_fds := pr_fds asker @ [Some (Pipe_rd 7), Some (Pipe_rd 8), Some (Pipe_wr 9)]\<rparr>)"
  have "fst (dup_stdin ?h) = Inr 7" by code_simp
  then obtain h1 where d: "dup_stdin ?h = (Inr 7, h1)" by (cases "dup_stdin ?h") auto
  have "case fst (add_entry_to_map 4 5 7 ms_empty (snd (dup_stdin ?h))) of Inl e \<Rightarrow> False | Inr ms \<Rightarrow> True" by code_simp
  then obtain ms h2 where a: "add_entry_to_map 4 5 7 ms_empty h1 = (Inr ms, h2)"
    by (cases "add_entry_to_map 4 5 7 ms_empty h1") (auto simp: d split: sum.splits)
  from stdin_end_drops_output [OF d a, of "hello_env [Ready [(7, 1)]]" 6 "[]" 1 "[]" s_sig_state] show ?thesis
    by (auto simp: hello_env_def quiet_sink_def)
qed

theorem status_interrupt_kills_supervisor_witness:
  "\<exists>os1 srv1 st. open_write_anon_pipe ''/tmp/a'' (asked, runner) = (Inr 4, (os1, srv1)) \<and>
     stdout_echo_response_stream 3 (-1) (hello_env [Ready [(4, 1)], Ready [(4, 0x11)]]) (host_of (os1, asker)) = Echo_ret EXIT_SUCCESS st \<and>
     killed (snd (ctrl_c_handler [] (es_sig st))) = {400}"
proof -
  let ?r = "open_write_anon_pipe ''/tmp/a'' (asked, runner)" and ?env = "hello_env [Ready [(4, 1)], Ready [(4, 0x11)]]"
  have "fst ?r = Inr 4" by code_simp
  then obtain os1 srv1 where o: "?r = (Inr 4, (os1, srv1))" by (cases ?r) auto
  have a: "sock_addr ''/tmp/a'' = Some (NUL # ''tmp/a'')" by code_simp
  have "case stdout_echo_response_stream 3 (-1) ?env (host_of (fst (snd ?r), asker)) of Echo_ret rc st \<Rightarrow> rc = EXIT_SUCCESS | _ \<Rightarrow> False"
    by code_simp
  then obtain st where e: "stdout_echo_response_stream 3 (-1) ?env (host_of (os1, asker)) = Echo_ret EXIT_SUCCESS st"
    by (auto simp: o split: echo_result.splits)
  have "killed (snd (ctrl_c_handler [] (es_sig st))) = {pr_pid runner}"
    by (rule status_interrupt_kills_supervisor [OF o _ a _ _ _ _ _ e, where stdin = "Pipe_rd 2" and cl = asker])
      (simp_all add: asked_def asker_def runner_def fd_at_def host_of_def)
  with o e show ?thesis by (simp add: runner_def)
qed

end
