(* ===== verification/StatusRequest.thy ===== *)
theory StatusRequest
  imports Supervisor EchoStreams
begin

text \<open>
  A status request from end to end: \<open>client_status_request\<close> puts the name of its socket on the
  queue of the supervisor, the receive loop of the supervisor starts a thread for it, the thread
  opens the response pipe and calls the Java method, and the client prints what comes through the
  pipe. Nothing is defined here; the steps of the components are put together.
\<close>

lemma status_invoked:
  assumes ok: "jni_ok env" "jn_detach env" and name: "fullMethodName md = cls @ CHR ''/'' # meth" "CHR ''/'' \<notin> set meth" "meth \<noteq> []"
    and kind: "whichMethod md = WM_GET_STATUS" "\<not> isStaticMethod md"
  shows "\<exists>st'. invoke_java_method env md cmd [Some out, None, None] None pss st = (Invoked EXIT_SUCCESS False, st') \<and>
     js_calls st' = js_calls st @ [Instance_call (receiver md cls (js_obj st)) cls meth (descriptor md) [Jprint_stream out]] \<and>
     js_closed st' = js_closed st"
proof -
  let ?call = "Instance_call (receiver md cls (js_obj st)) cls meth (descriptor md) [Jprint_stream out]"
  let ?st = "describe_exception env md (jn_raises env ?call) (st\<lparr>js_obj := Some (receiver md cls (js_obj st)),
      js_fds := [None, None, None], js_passed := js_passed st @ [out], js_calls := js_calls st @ [?call]\<rparr>)"
  have b: "invoke_body env md None pss (st\<lparr>js_fds := [Some out, None, None]\<rparr>) = (Inr False, ?st)"
    using kind lookups_ok(3) [OF ok(1)]
    by (simp add: invoke_body_ok [OF ok(1) name] entry_call_def stream_call_def make_printstream_def open_stream_ok
        bind_s_def on_object_def jcall_def receiver_def Let_def del: One_nat_def)
  have f: "js_fds ?st = [None, None, None]" by simp
  show ?thesis
    unfolding invoke_java_method_quiet [where no = "[Some out, None, None]" and cmd = cmd, OF b ok(2) f] by simp
qed

lemma status_sent:
  assumes "arg_operation a = OP_STATUS" and "\<not> ce_flag env" and "ce_bind env status_cmd = Inr uds" and "is_cstr uds"
    and q: "mq_named w (g_supervisor_queue (ce_globals env)) = Some q" "length (STATUS_CMD @ '' '' @ uds) \<le> mq_msgsize q"
      "length (mq_msgs q) < mq_maxmsg q"
  shows "\<exists>w'. forkable_main_entry env (prog # a # rest) ext level w = Some (ce_echo env uds, w') \<and>
     queue_contents w' (g_supervisor_queue (ce_globals env)) = mq_msgs q @ [STATUS_CMD @ '' '' @ uds]"
proof -
  have sc: "scan_args (prog # a # rest) = \<lparr>sc_operation = OP_STATUS, sc_pipe_option = [], sc_command = status_cmd\<rparr>"
    unfolding scan_args_eq using assms(1) by simp
  have m: "do_msg_fmt 256 (STATUS_CMD @ '' '' @ uds) = STATUS_CMD @ '' '' @ uds"
    using assms(4) by (intro do_msg_fmt_id) (simp add: is_cstr_def STATUS_CMD_def)
  have r: "client_status_request env uds w = Some (ce_echo env uds, w\<lparr>mq_named := (mq_named w)
      (g_supervisor_queue (ce_globals env) \<mapsto> q\<lparr>mq_msgs := mq_msgs q @ [STATUS_CMD @ '' '' @ uds]\<rparr>)\<rparr>)"
    unfolding client_status_request_def Let_def m using assms(2) q by (simp add: send_queue_msg_def send_mq_msg_eq)
  show ?thesis
    by (simp add: forkable_main_entry_def sc Let_def client_loop.simps client_pass_def assms(3) r queue_contents_def)
qed

lemma status_received:
  assumes "is_cstr uds" and "CHR '' '' \<notin> set uds" and "uds \<noteq> []" and "\<not> sv_jvm_down sv"
  shows "receive_loop (msg_dispatch_for_supervisor jvm ss False locked) [(Recv (STATUS_CMD @ '' '' @ uds), False)] True buffer ec sv =
     (Loop_waiting, sv\<lparr>sv_status := sv_status sv @ [uds]\<rparr>)"
proof -
  let ?m = "STATUS_CMD @ '' '' @ uds"
  have c: "cstr ?m = ?m" "?m \<noteq> []" "?m \<noteq> SHUTDOWN_CMD" using assms(1) by (simp_all add: cstr_no_nul is_cstr_def STATUS_CMD_def SHUTDOWN_CMD_def)
  have s: "strneq ?m STATUS_CMD (length STATUS_CMD)" by (simp add: strneq_def)
  have "strtok_r '' '' (unwords [STATUS_CMD, uds]) = Some (STATUS_CMD, unwords [uds])"
    by (rule strtok_unwords) (simp_all add: STATUS_CMD_def)
  moreover have "strtok_r '' '' (unwords [uds]) = Some (uds, [])"
    using strtok_unwords [of uds "[]"] assms(2,3) by simp
  ultimately have "msg_dispatch_for_supervisor jvm ss False locked ?m sv = (Some (True, EXIT_SUCCESS), sv\<lparr>sv_status := sv_status sv @ [uds]\<rparr>)"
    using assms(4) c(3) s by (simp add: msg_dispatch_for_supervisor_def)
  then show ?thesis using c by (simp add: Let_def)
qed

text \<open>
  C4. A status request is answered. The client puts the name of its socket on the queue of the
  supervisor, whose receive loop starts a thread for exactly that socket; the thread calls the
  status method of the Java program once, with a stream on the write end of the very pipe whose
  read end the client obtains; and as long as that program writes, pauses and closes, the client
  prints all of it, in order, and exits with success.
\<close>

theorem status_request_answered:
  assumes client: "arg_operation a = OP_STATUS" "\<not> ce_flag env" "ce_bind env status_cmd = Inr uds"
      "\<forall>rc st. stdout_echo_response_stream sock sv_pid eenv h = Echo_ret rc st \<longrightarrow> ce_echo env uds = rc"
    and uds: "is_cstr uds" "CHR '' '' \<notin> set uds" "uds \<noteq> []"
    and queue: "mq_named w (g_supervisor_queue (ce_globals env)) = Some q"
      "length (STATUS_CMD @ '' '' @ uds) \<le> mq_msgsize q" "length (mq_msgs q) < mq_maxmsg q"
    and up: "\<not> sv_jvm_down sv"
    and java: "jni_ok jvm" "jn_detach jvm" "md = spartanGetStatusEntryPoint ss"
      "fullMethodName md = cls @ CHR ''/'' # meth" "CHR ''/'' \<notin> set meth" "meth \<noteq> []"
      "whichMethod md = WM_GET_STATUS" "\<not> isStaticMethod md"
    and pipes: "open_write_anon_pipe uds (wk_sys wk) = (Inr out, (os1, srv1))" "wk_sys wk = (os, srv)" "fd_at (pr_fds srv) 0 = Some stdin"
      "sock_addr uds = Some ad" "os_bound os ad = Some []" "fd_at (pr_fds cl) sock = Some (Sock (Some ad))"
      "length (pr_fds cl) + 2 \<le> pr_limit cl" "ho_sys h = (os1, cl)" "ho_fixed h = []"
    and writes: "\<forall>rd s. obtain_response_stream sock (os1, cl) = Some (Inr (pr_pid srv, rd, None, None), s) \<longrightarrow> good_writer eenv (int rd)"
  shows "\<exists>w' wk' k rd s st.
     forkable_main_entry env (prog # a # rest) ext level w = Some (EXIT_SUCCESS, w') \<and>
     queue_contents w' (g_supervisor_queue (ce_globals env)) = mq_msgs q @ [STATUS_CMD @ '' '' @ uds] \<and>
     receive_loop (msg_dispatch_for_supervisor jvm ss False locked) [(Recv (STATUS_CMD @ '' '' @ uds), False)] True buffer ec sv =
       (Loop_waiting, sv\<lparr>sv_status := sv_status sv @ [uds]\<rparr>) \<and>
     supervisor_status_response uds jvm md wk = (Rc EXIT_SUCCESS, wk') \<and>
     js_calls (wk_jvm wk') = js_calls (wk_jvm wk) @
       [Instance_call (receiver md cls (js_obj (wk_jvm wk))) cls meth (descriptor md) [Jprint_stream out]] \<and>
     fd_at (pr_fds (snd (wk_sys wk'))) out = Some (Pipe_wr k) \<and>
     obtain_response_stream sock (os1, cl) = Some (Inr (pr_pid srv, rd, None, None), s) \<and> table s rd = Some (Pipe_rd k) \<and>
     stdout_echo_response_stream sock sv_pid eenv h = Echo_ret EXIT_SUCCESS st \<and>
     sk_bytes (es_sinks st 1) = sk_bytes (en_sinks eenv 1) @ data_of (en_evs eenv (int rd))"
proof -
  note o = pipes(1) [unfolded pipes(2)]
  from response_arrives_client [OF o pipes(3-9), of eenv sv_pid] obtain k rd s where
    r: "obtain_response_stream sock (os1, cl) = Some (Inr (pr_pid srv, rd, None, None), s)" "table s rd = Some (Pipe_rd k)"
      "fd_at (pr_fds srv1) out = Some (Pipe_wr k)"
    and ex: "good_writer eenv (int rd) \<Longrightarrow> \<exists>st. stdout_echo_response_stream sock sv_pid eenv h = Echo_ret EXIT_SUCCESS st \<and>
         sk_bytes (es_sinks st 1) = sk_bytes (en_sinks eenv 1) @ data_of (en_evs eenv (int rd))"
    unfolding pipes(8) by blast
  from ex [OF writes [rule_format, OF r(1)]] obtain st where
    e: "stdout_echo_response_stream sock sv_pid eenv h = Echo_ret EXIT_SUCCESS st"
      "sk_bytes (es_sinks st 1) = sk_bytes (en_sinks eenv 1) @ data_of (en_evs eenv (int rd))" by blast
  from status_sent [OF client(1-3) uds(1) queue, of prog rest ext level, unfolded client(4) [rule_format, OF e(1)]] obtain w' where
    w': "forkable_main_entry env (prog # a # rest) ext level w = Some (EXIT_SUCCESS, w')"
      "queue_contents w' (g_supervisor_queue (ce_globals env)) = mq_msgs q @ [STATUS_CMD @ '' '' @ uds]" by blast
  from status_invoked [OF java(1,2,4-8), of "[]" out None "wk_jvm wk"] obtain st' where
    j: "invoke_java_method jvm md [] [Some out, None, None] None None (wk_jvm wk) = (Invoked EXIT_SUCCESS False, st')"
      "js_calls st' = js_calls (wk_jvm wk) @
        [Instance_call (receiver md cls (js_obj (wk_jvm wk))) cls meth (descriptor md) [Jprint_stream out]]"
      "js_closed st' = js_closed (wk_jvm wk)" by blast
  have t: "supervisor_status_response uds jvm md wk = (Rc EXIT_SUCCESS, wk\<lparr>wk_sys := (os1, srv1), wk_jvm := st'\<rparr>)"
    by (simp add: supervisor_status_response_def pipes(1) run_java_def j)
  show ?thesis
    using w' status_received [OF uds up] t j(2) r(1,2,3) e
    by (intro exI [of _ w'] exI [of _ "wk\<lparr>wk_sys := (os1, srv1), wk_jvm := st'\<rparr>"] exI [of _ k] exI [of _ rd] exI [of _ s] exI [of _ st])
      simp
qed

text \<open>A client that prints what its socket brings, and a session with a status method.\<close>

definition status_client :: "host \<Rightarrow> client_env" where
  "status_client h = example_client\<lparr>ce_bind := (\<lambda>c. Inr ''/tmp/a''),
     ce_echo := (\<lambda>u. case stdout_echo_response_stream 3 300 (hello_env [Ready [(4, 1)], Ready [(4, 0x11)]]) h of
        Echo_ret rc st \<Rightarrow> rc | _ \<Rightarrow> 1)\<rparr>"

definition status_session :: session_state where
  "status_session = ss_default\<lparr>
     spartanGetStatusEntryPoint := methodDescriptor ''app/Main/status'' ''(Ljava/io/PrintStream;)V'' False WM_GET_STATUS\<rparr>"

theorem status_request_answered_witness:
  "\<exists>os1 srv1 w' wk' st. open_write_anon_pipe ''/tmp/a'' (asked, runner) = (Inr 4, (os1, srv1)) \<and>
     forkable_main_entry (status_client (host_of (os1, asker))) [''p'', ''STATUS''] False INFO two_queues = Some (EXIT_SUCCESS, w') \<and>
     queue_contents w' ''/p_JSupervisor'' = [''--STATUS /tmp/a''] \<and>
     supervisor_status_response ''/tmp/a'' example_jvm (spartanGetStatusEntryPoint status_session) example_worker = (Rc EXIT_SUCCESS, wk') \<and>
     js_calls (wk_jvm wk') = [Instance_call ''app/Main'' ''app/Main'' ''status'' ''(Ljava/io/PrintStream;)V'' [Jprint_stream 4]] \<and>
     stdout_echo_response_stream 3 300 (hello_env [Ready [(4, 1)], Ready [(4, 0x11)]]) (host_of (os1, asker)) = Echo_ret EXIT_SUCCESS st \<and>
     sk_bytes (es_sinks st 1) = ''hello''"
proof -
  let ?r = "open_write_anon_pipe ''/tmp/a'' (asked, runner)" and ?env = "hello_env [Ready [(4, 1)], Ready [(4, 0x11)]]"
  let ?md = "spartanGetStatusEntryPoint status_session" and ?w = "example_worker"
  have "fst ?r = Inr 4" by code_simp
  then obtain os1 srv1 where o: "open_write_anon_pipe ''/tmp/a'' (wk_sys ?w) = (Inr 4, (os1, srv1))"
    by (cases ?r) (auto simp: example_worker_def)
  have o': "?r = (Inr 4, (os1, srv1))" using o by (simp add: example_worker_def)
  have ws: "wk_sys ?w = (asked, runner)" by (simp add: example_worker_def)
  have a: "sock_addr ''/tmp/a'' = Some (NUL # ''tmp/a'')" by code_simp
  have "map_option (\<lambda>(r, s). r) (obtain_response_stream 3 (fst (snd ?r), asker)) = Some (Inr (400, 4, None, None))" by code_simp
  then have rd: "obtain_response_stream 3 (os1, asker) = Some (Inr (pr_pid runner, rd, None, None), s) \<Longrightarrow> rd = 4" for rd s by (simp add: o')
  have g: "good_writer ?env 4"
    unfolding good_writer_def
    by (simp add: hello_env_def hello_def quiet_sink_def) (rule exI [of _ "[1, 0x11]"], simp)
  have writes: "\<forall>rd s. obtain_response_stream 3 (os1, asker) = Some (Inr (pr_pid runner, rd, None, None), s) \<longrightarrow> good_writer ?env (int rd)"
    using g by (intro allI impI) (drule rd, simp)
  let ?c = "status_client (host_of (os1, asker))"
  have c: "arg_operation ''STATUS'' = OP_STATUS" by code_simp
  have ce: "\<not> ce_flag ?c" "ce_bind ?c status_cmd = Inr ''/tmp/a''"
    "\<forall>rc st. stdout_echo_response_stream 3 300 ?env (host_of (os1, asker)) = Echo_ret rc st \<longrightarrow> ce_echo ?c ''/tmp/a'' = rc"
    by (simp_all add: status_client_def example_client_def)
  have gq: "g_supervisor_queue (ce_globals ?c) = ''/p_JSupervisor''"
    unfolding status_client_def example_client_def client_env.simps by code_simp
  have q: "mq_named two_queues ''/p_JSupervisor'' = Some \<lparr>mq_mode = 432, mq_maxmsg = 10, mq_msgsize = 4096, mq_msgs = []\<rparr>"
    by (simp add: two_queues_def mq_open_ex_def mq_open_def)
  have jo: "jni_ok example_jvm" "jn_detach example_jvm" by (simp_all add: jni_ok_def example_jvm_def)
  have md: "fullMethodName ?md = ''app/Main'' @ CHR ''/'' # ''status''" "CHR ''/'' \<notin> set ''status''" "''status'' \<noteq> []"
    "whichMethod ?md = WM_GET_STATUS" "\<not> isStaticMethod ?md" "descriptor ?md = ''(Ljava/io/PrintStream;)V''"
    by (simp_all add: status_session_def methodDescriptor_def)
  have p: "fd_at (pr_fds runner) 0 = Some (Pipe_rd 2)" "os_bound asked (NUL # ''tmp/a'') = Some []"
    "fd_at (pr_fds asker) 3 = Some (Sock (Some (NUL # ''tmp/a'')))" "length (pr_fds asker) + 2 \<le> pr_limit asker"
    "ho_sys (host_of (os1, asker)) = (os1, asker)" "ho_fixed (host_of (os1, asker)) = []"
    by (simp_all add: runner_def asked_def asker_def fd_at_def host_of_def)
  have l: "length (STATUS_CMD @ '' '' @ ''/tmp/a'') \<le> mq_msgsize \<lparr>mq_mode = 432, mq_maxmsg = 10, mq_msgsize = 4096, mq_msgs = []\<rparr>"
    by (simp add: STATUS_CMD_def)
  have st0: "\<not> sv_jvm_down (supervisor_start ?w)" by (simp add: supervisor_start_def)
  have j: "receiver ?md ''app/Main'' (js_obj (wk_jvm ?w)) = ''app/Main''" "js_calls (wk_jvm ?w) = []"
    by (simp_all add: receiver_def example_worker_def example_jstate_def)
  have u: "is_cstr ''/tmp/a''" "CHR '' '' \<notin> set ''/tmp/a''" "''/tmp/a'' \<noteq> []" by (simp_all add: is_cstr_def)
  have sk: "sk_bytes (en_sinks ?env 1) @ data_of (en_evs ?env (int 4)) = ''hello''"
    by (simp add: hello_env_def hello_def quiet_sink_def)
  from status_request_answered [where ss = status_session and locked = False and buffer = "[]" and ec = 0 and sv = "supervisor_start ?w"
      and prog = "''p''" and rest = "[]" and ext = False and level = INFO,
      OF c ce u q [folded gq] l _ st0 jo refl md(1-5) o ws p(1) a p(2-6) writes, unfolded md(6) gq j]
  obtain w' wk' k rd' s st where
    r: "forkable_main_entry ?c [''p'', ''STATUS''] False INFO two_queues = Some (EXIT_SUCCESS, w')"
      "queue_contents w' ''/p_JSupervisor'' = [STATUS_CMD @ '' '' @ ''/tmp/a'']"
      "supervisor_status_response ''/tmp/a'' example_jvm ?md ?w = (Rc EXIT_SUCCESS, wk')"
      "js_calls (wk_jvm wk') = [Instance_call ''app/Main'' ''app/Main'' ''status'' ''(Ljava/io/PrintStream;)V'' [Jprint_stream 4]]"
      "obtain_response_stream 3 (os1, asker) = Some (Inr (pr_pid runner, rd', None, None), s)"
      "stdout_echo_response_stream 3 300 ?env (host_of (os1, asker)) = Echo_ret EXIT_SUCCESS st"
      "sk_bytes (es_sinks st 1) = sk_bytes (en_sinks ?env 1) @ data_of (en_evs ?env (int rd'))" by auto
  from r(1-4,6,7) o' sk rd [OF r(5)] show ?thesis
    by (intro exI [of _ os1] exI [of _ srv1] exI [of _ w'] exI [of _ wk'] exI [of _ st]) (simp add: STATUS_CMD_def)
qed

end
