(* ===== verification/StopRequest.thy ===== *)
theory StopRequest
  imports Supervisor
begin

text \<open>
  A request to stop from end to end: the client's \<open>stop\<close> ends the receive loop of the launcher, the
  end of \<open>supervisor()\<close> in the launcher process unlinks its queue, asks the supervisor process to
  shut down and waits for every child, and the supervisor process calls the shutdown method of the
  Java program and leaves its own loop.
\<close>

section \<open>Leaving the function in the launcher process\<close>

definition leave_launcher ::
  "globals \<Rightarrow> int \<Rightarrow> waited list \<Rightarrow> launcher \<Rightarrow> mq_world \<Rightarrow> (int \<times> bool \<times> launcher \<times> mq_world) option" where
  \<comment> \<open>the locals are destroyed last to first, so \<open>mqd_sp\<close> before \<open>supervisor_jvm_context_sp\<close>; the
      value of \<open>return exit_code\<close> is fixed before that\<close>
  "leave_launcher g exit_code rs ln w =
     map_option (\<lambda>(rc, rest). (exit_code, rest)) (cleanup_launcher g rs ln (mq_unlink (g_launcher_queue g) w))"

section \<open>Waiting for the children\<close>

lemma length_filter_proc:
  "pid \<in> set (map fst procs) \<Longrightarrow> Suc (length (filter (\<lambda>(p, g). p \<noteq> pid) procs)) \<le> length (procs :: (int \<times> int) list)"
proof -
  assume "pid \<in> set (map fst procs)"
  then obtain g where "(pid, g) \<in> set procs" by auto
  then have "length (filter (\<lambda>(p, g). p \<noteq> pid) procs) < length procs"
    by (intro length_filter_less [of "(pid, g)"]) auto
  then show ?thesis by simp
qed

lemma waits_for_all:
  assumes "distinct pids" and "set pids = set (map fst (ln_procs ln))" and "int (length (ln_procs ln)) \<le> ds_count ln"
  shows "\<exists>ln'. waitid_on_forked_children (\<lambda>locked ln. (ds_count ln \<le> 0, ln\<lparr>ds_count := ds_count ln - 1\<rparr>))
     (map (\<lambda>p. (Changed True p lk, True)) pids @ (Wait_echild, True) # later) ln = (True, ln') \<and> ln_procs ln' = [] \<and>
     ds_count ln' = ds_count ln - int (length pids)"
  using assms
proof (induction pids arbitrary: ln)
  case Nil
  then show ?case by (intro exI [of _ ln]) simp
next
  case (Cons p pids)
  let ?procs = "filter (\<lambda>(q, g). q \<noteq> p) (ln_procs ln)"
  let ?ln = "ln\<lparr>ln_procs := ?procs, ds_count := ds_count ln - 1\<rparr>"
  let ?ln1 = "if \<not> ln_jvm_down ln then ?ln\<lparr>ln_sent := ln_sent ln @ [completion_notify_msg p]\<rparr> else ?ln"
  have p: "p \<in> set (map fst (ln_procs ln))" using Cons.prems(2) by auto
  note l = length_filter_proc [OF p]
  have c: "\<not> ds_count ln \<le> 0" using l Cons.prems(3) by auto
  have "set (map fst ?procs) = set (map fst (ln_procs ln)) - {p}" by force
  also have "\<dots> = insert p (set pids) - {p}" using Cons.prems(2) by simp
  finally have s: "set pids = set (map fst ?procs)" using Cons.prems(1) by simp
  have "set pids = set (map fst (ln_procs ?ln1))" "int (length (ln_procs ?ln1)) \<le> ds_count ?ln1"
    using s l Cons.prems(3) by simp_all
  from Cons.IH [OF _ this] Cons.prems(1) obtain ln' where
    "waitid_on_forked_children (\<lambda>locked ln. (ds_count ln \<le> 0, ln\<lparr>ds_count := ds_count ln - 1\<rparr>))
       (map (\<lambda>p. (Changed True p lk, True)) pids @ (Wait_echild, True) # later) ?ln1 = (True, ln')"
    "ln_procs ln' = []" "ds_count ln' = ds_count ?ln1 - int (length pids)" by auto
  with c show ?case by (intro exI [of _ ln']) (auto simp: Let_def)
qed

text \<open>
  A child that stops counts like one that ends: two reports that the only child has stopped end the
  wait while it is still there.
\<close>

theorem stops_end_wait:
  "case waitid_on_forked_children (\<lambda>locked ln. (ds_count ln \<le> 0, ln\<lparr>ds_count := ds_count ln - 1\<rparr>))
       [(Changed False p lk, True), (Changed False p lk, True)] (launcher_start g p) of
     (ended, ln) \<Rightarrow> ended \<and> ln_procs ln = [(p, g)]"
  by (simp add: launcher_start_def Let_def)

section \<open>The shutdown method\<close>

lemma shutdown_invoked:
  assumes ok: "jni_ok env" and name: "fullMethodName md = cls @ CHR ''/'' # meth" "CHR ''/'' \<notin> set meth" "meth \<noteq> []"
    and kind: "whichMethod md = WM_SUPERVISOR_SHUTDOWN" "\<not> isStaticMethod md"
    and call: "call = Instance_call (receiver md cls (js_obj st)) cls meth (descriptor md) []"
  shows "\<exists>st'. invoke_java_method env md cmd [None, None, None] None pss st =
       (Invoked (if jn_raises env call \<or> \<not> jn_detach env then EXIT_FAILURE else EXIT_SUCCESS) False, st') \<and>
     js_calls st' = js_calls st @ [call] \<and> js_closed st' = js_closed st"
proof -
  let ?st = "st\<lparr>js_fds := [None, None, None], js_obj := Some (receiver md cls (js_obj st)), js_calls := js_calls st @ [call]\<rparr>"
  have "invoke_body env md None pss (st\<lparr>js_fds := [None, None, None]\<rparr>) = (Inr (jn_raises env call), ?st)"
    using kind by (simp add: invoke_body_ok [OF ok name] entry_call_def on_object_def jcall_def receiver_def call Let_def)
  from invoke_java_method_Inr [OF this] show ?thesis by (simp add: close_held_def)
qed

lemma stop_sent:
  assumes "arg_operation a = OP_STOP" and "\<not> ce_flag env" and q: "mq_named w (g_launcher_queue (ce_globals env)) = Some q"
    and "length STOP_CMD \<le> mq_msgsize q" and "length (mq_msgs q) < mq_maxmsg q"
  shows "forkable_main_entry env (prog # a # rest) ext level w = Some (EXIT_SUCCESS,
     w\<lparr>mq_named := (mq_named w)(g_launcher_queue (ce_globals env) \<mapsto> q\<lparr>mq_msgs := mq_msgs q @ [STOP_CMD]\<rparr>)\<rparr>)"
proof -
  have sc: "sc_operation (scan_args (prog # a # rest)) = OP_STOP"
    unfolding scan_args_eq using assms(1) by simp
  show ?thesis using assms
    by (simp add: forkable_main_entry_def sc Let_def client_loop.simps client_pass_def send_queue_msg_def send_mq_msg_eq)
qed

lemma all_received: "list_all (\<lambda>m. m \<noteq> []) ms \<Longrightarrow> [m. Recv m \<leftarrow> map Recv ms, m \<noteq> []] = ms"
  by (induction ms) auto

section \<open>The whole way\<close>

text \<open>
  C5. A request to stop shuts everything down. The client queues it behind the requests before it;
  the launcher puts those into its work queue and leaves its loop with success; on its way out it
  unlinks its own queue, puts the shutdown request last on the queue of the supervisor, waits until
  every child has ended, whatever their number, and unlinks that queue too; and the supervisor
  process, which takes the request from its queue, calls the shutdown method of the Java program
  once and leaves its own loop with the result of that call.
\<close>

theorem stop_request_shuts_down:
  assumes client: "arg_operation a = OP_STOP" "\<not> ce_flag env" "g = ce_globals env"
    and launcher_queue: "mq_named w (g_launcher_queue g) = Some q" "length STOP_CMD \<le> mq_msgsize q" "length (mq_msgs q) < mq_maxmsg q"
      "list_all (\<lambda>m. m \<noteq> [] \<and> NUL \<notin> set m \<and> m \<noteq> STOP_CMD) (mq_msgs q)"
    and supervisor_queue: "g_supervisor_queue g \<noteq> g_launcher_queue g" "mq_named w (g_supervisor_queue g) = Some sq"
      "length SHUTDOWN_CMD \<le> mq_msgsize sq" "length (mq_msgs sq) < mq_maxmsg sq"
    and children: "distinct pids" "set pids = set (map fst (ln_procs ln))" "int (length (ln_procs ln)) \<le> ds_count ln"
    and java: "jni_ok jvm" "md = spartanSupervisorShutdownEntryPoint ss" "fullMethodName md = cls @ CHR ''/'' # meth"
      "CHR ''/'' \<notin> set meth" "meth \<noteq> []" "whichMethod md = WM_SUPERVISOR_SHUTDOWN" "\<not> isStaticMethod md"
      "call = Instance_call (receiver md cls (js_obj (wk_jvm (sv_worker sv)))) cls meth (descriptor md) []"
  shows "\<exists>w1 ready ln1 ln2 wm w2 sv'.
     forkable_main_entry env (prog # a # rest) ext level w = Some (EXIT_SUCCESS, w1) \<and>
     queue_contents w1 (g_launcher_queue g) = mq_msgs q @ [STOP_CMD] \<and>
     receive_loop (msg_dispatch_for_launcher True) (map (\<lambda>m. (Recv m, False)) (queue_contents w1 (g_launcher_queue g)) @ later) True buffer ec ln =
       (Loop_exit EXIT_SUCCESS, ln1) \<and> ln1 = ln\<lparr>ds_queue := ds_queue ln @ mq_msgs q, ds_qready := ready\<rparr> \<and>
     send_mq_msg SHUTDOWN_CMD (g_supervisor_queue g) (mq_unlink (g_launcher_queue g) w1) = Some (EXIT_SUCCESS, wm) \<and>
     queue_contents wm (g_supervisor_queue g) = mq_msgs sq @ [SHUTDOWN_CMD] \<and>
     leave_launcher g EXIT_SUCCESS (map (\<lambda>p. Changed True p lk) pids @ [Wait_echild]) ln1 w1 = Some (EXIT_SUCCESS, True, ln2, w2) \<and>
     ln_procs ln2 = [] \<and> mq_named w2 = (mq_named w)(g_launcher_queue g := None, g_supervisor_queue g := None) \<and>
     receive_loop (msg_dispatch_for_supervisor jvm ss stopping locked) ((Recv SHUTDOWN_CMD, flag) # later) True buffer ec sv =
       (Loop_exit (if jn_raises jvm call \<or> \<not> jn_detach jvm then EXIT_FAILURE else EXIT_SUCCESS), sv') \<and>
     js_calls (wk_jvm (sv_worker sv')) = js_calls (wk_jvm (sv_worker sv)) @ [call] \<and> sv_jvm_down sv'"
proof -
  let ?L = "g_launcher_queue g" and ?S = "g_supervisor_queue g"
  let ?w1 = "w\<lparr>mq_named := (mq_named w)(?L \<mapsto> q\<lparr>mq_msgs := mq_msgs q @ [STOP_CMD]\<rparr>)\<rparr>"
  let ?wm = "mq_unlink ?L ?w1\<lparr>mq_named := (mq_named (mq_unlink ?L ?w1))(?S \<mapsto> sq\<lparr>mq_msgs := mq_msgs sq @ [SHUTDOWN_CMD]\<rparr>)\<rparr>"
  have cl: "forkable_main_entry env (prog # a # rest) ext level w = Some (EXIT_SUCCESS, ?w1)"
    using stop_sent [OF client(1,2) launcher_queue(1-3) [unfolded client(3)]] by (simp add: client(3))
  have c1: "queue_contents ?w1 ?L = mq_msgs q @ [STOP_CMD]" by (simp add: queue_contents_def)
  have "list_all (\<lambda>r. case r of Recv m \<Rightarrow> NUL \<notin> set m \<and> m \<noteq> STOP_CMD | Timed_out \<Rightarrow> True | Recv_error \<Rightarrow> False) (map Recv (mq_msgs q))"
    using launcher_queue(4) by (auto simp: list_all_iff)
  from launcher_receives [OF this, of later buffer ec ln] obtain ready where
    "receive_loop (msg_dispatch_for_launcher True) (map (\<lambda>r. (r, False)) (map Recv (mq_msgs q)) @ (Recv STOP_CMD, False) # later) True buffer ec ln =
      (Loop_exit EXIT_SUCCESS, ln\<lparr>ds_queue := ds_queue ln @ [m. Recv m \<leftarrow> map Recv (mq_msgs q), m \<noteq> []], ds_qready := ready\<rparr>)" by blast
  moreover have "[m. Recv m \<leftarrow> map Recv (mq_msgs q), m \<noteq> []] = mq_msgs q"
    using launcher_queue(4) by (intro all_received) (auto simp: list_all_iff)
  ultimately have loop: "receive_loop (msg_dispatch_for_launcher True) (map (\<lambda>m. (Recv m, False)) (queue_contents ?w1 ?L) @ later) True buffer ec ln =
      (Loop_exit EXIT_SUCCESS, ln\<lparr>ds_queue := ds_queue ln @ mq_msgs q, ds_qready := ready\<rparr>)"
    by (simp add: c1 comp_def)
  let ?ln1 = "ln\<lparr>ds_queue := ds_queue ln @ mq_msgs q, ds_qready := ready\<rparr>"
  have sd: "send_mq_msg SHUTDOWN_CMD ?S (mq_unlink ?L ?w1) = Some (EXIT_SUCCESS, ?wm)"
    using supervisor_queue by (simp add: send_mq_msg_eq mq_unlink_def)
  have cm: "queue_contents ?wm ?S = mq_msgs sq @ [SHUTDOWN_CMD]" by (simp add: queue_contents_def)
  have "set pids = set (map fst (ln_procs ?ln1))" "int (length (ln_procs ?ln1)) \<le> ds_count ?ln1" using children by simp_all
  from waits_for_all [OF children(1) this, of lk "[]"] obtain ln2 where
    wt: "waitid_on_forked_children (\<lambda>locked ln. (ds_count ln \<le> 0, ln\<lparr>ds_count := ds_count ln - 1\<rparr>))
       (map (\<lambda>p. (Changed True p lk, True)) pids @ [(Wait_echild, True)]) ?ln1 = (True, ln2)" "ln_procs ln2 = []" by blast
  have lv: "leave_launcher g EXIT_SUCCESS (map (\<lambda>p. Changed True p lk) pids @ [Wait_echild]) ?ln1 ?w1 =
      Some (EXIT_SUCCESS, True, ln2, mq_unlink ?S ?wm)"
    by (simp add: leave_launcher_def cleanup_launcher_def sd comp_def wt(1))
  have fin: "mq_named (mq_unlink ?S ?wm) = (mq_named w)(?L := None, ?S := None)"
    using supervisor_queue(1) by (auto simp: mq_unlink_def fun_eq_iff)
  let ?wk = "sv_worker sv"
  from shutdown_invoked [OF java(1,3-7,8), of "[]" None] obtain st' where
    j: "invoke_java_method jvm md [] [None, None, None] None None (wk_jvm ?wk) =
       (Invoked (if jn_raises jvm call \<or> \<not> jn_detach jvm then EXIT_FAILURE else EXIT_SUCCESS) False, st')"
      "js_calls st' = js_calls (wk_jvm ?wk) @ [call]" "js_closed st' = js_closed (wk_jvm ?wk)" by blast
  have ne: "SHUTDOWN_CMD \<noteq> []" "cstr SHUTDOWN_CMD = SHUTDOWN_CMD" by (simp_all add: SHUTDOWN_CMD_def cstr_def)
  obtain sv' where d: "msg_dispatch_for_supervisor jvm ss stopping locked SHUTDOWN_CMD sv =
      (Some (False, if jn_raises jvm call \<or> \<not> jn_detach jvm then EXIT_FAILURE else EXIT_SUCCESS), sv')"
      "js_calls (wk_jvm (sv_worker sv')) = js_calls (wk_jvm ?wk) @ [call]" "sv_jvm_down sv'"
    using j by (auto simp: msg_dispatch_for_supervisor_def java(2) [symmetric] run_java_def note_log_def)
  have sl: "receive_loop (msg_dispatch_for_supervisor jvm ss stopping locked) ((Recv SHUTDOWN_CMD, flag) # later) True buffer ec sv =
      (Loop_exit (if jn_raises jvm call \<or> \<not> jn_detach jvm then EXIT_FAILURE else EXIT_SUCCESS), sv')"
    by (simp add: ne d(1) Let_def)
  show ?thesis
    by (intro exI conjI, rule cl, rule c1, rule loop, rule refl, rule sd, rule cm, rule lv, rule wt(2), rule fin, rule sl, rule d(2), rule d(3))
qed

definition stop_session :: session_state where
  "stop_session = ss_default\<lparr>
     spartanSupervisorShutdownEntryPoint := methodDescriptor ''app/Main/shutdown'' ''()V'' False WM_SUPERVISOR_SHUTDOWN\<rparr>"

theorem stop_request_shuts_down_witness:
  "\<exists>w1 ready ln2 w2 sv'. forkable_main_entry example_client [''p'', ''STOP''] False INFO two_queues = Some (EXIT_SUCCESS, w1) \<and>
     leave_launcher (ce_globals example_client) EXIT_SUCCESS [Changed True 12 True, Wait_echild]
       (launcher_start 10 12\<lparr>ds_queue := [], ds_qready := ready\<rparr>) w1 =
       Some (EXIT_SUCCESS, True, ln2, w2) \<and> ln_procs ln2 = [] \<and> mq_named w2 = Map.empty \<and>
     receive_loop (msg_dispatch_for_supervisor example_jvm stop_session False True) [(Recv SHUTDOWN_CMD, False)] True [] 0
       (supervisor_start example_worker) = (Loop_exit EXIT_SUCCESS, sv') \<and>
     js_calls (wk_jvm (sv_worker sv')) = [Instance_call ''app/Main'' ''app/Main'' ''shutdown'' ''()V'' []]"
proof -
  let ?g = "ce_globals example_client" and ?md = "spartanSupervisorShutdownEntryPoint stop_session"
  let ?q = "\<lparr>mq_mode = 432, mq_maxmsg = 10, mq_msgsize = 4096, mq_msgs = []\<rparr>"
  let ?call = "Instance_call ''app/Main'' ''app/Main'' ''shutdown'' ''()V'' []"
  have c: "arg_operation ''STOP'' = OP_STOP" "\<not> ce_flag example_client" by code_simp (simp add: example_client_def)
  have gl: "g_launcher_queue ?g = ''/p_JLauncher''" "g_supervisor_queue ?g = ''/p_JSupervisor''"
    unfolding example_client_def client_env.simps by code_simp+
  have q: "mq_named two_queues = [''/p_JLauncher'' \<mapsto> ?q, ''/p_JSupervisor'' \<mapsto> ?q]"
    by (simp add: two_queues_def mq_open_ex_def mq_open_def)
  have l: "mq_named two_queues (g_launcher_queue ?g) = Some ?q" "length STOP_CMD \<le> mq_msgsize ?q" "length (mq_msgs ?q) < mq_maxmsg ?q"
    "list_all (\<lambda>m. m \<noteq> [] \<and> NUL \<notin> set m \<and> m \<noteq> STOP_CMD) (mq_msgs ?q)"
    by (simp_all add: gl q STOP_CMD_def)
  have u: "g_supervisor_queue ?g \<noteq> g_launcher_queue ?g" "mq_named two_queues (g_supervisor_queue ?g) = Some ?q"
    "length SHUTDOWN_CMD \<le> mq_msgsize ?q" by (simp_all add: gl q SHUTDOWN_CMD_def)
  have ch: "distinct [12]" "set [12] = set (map fst (ln_procs (launcher_start 10 12)))"
    "int (length (ln_procs (launcher_start 10 12))) \<le> ds_count (launcher_start 10 12)" by (simp_all add: launcher_start_def)
  have md: "fullMethodName ?md = ''app/Main'' @ CHR ''/'' # ''shutdown''" "CHR ''/'' \<notin> set ''shutdown''" "''shutdown'' \<noteq> []"
    "whichMethod ?md = WM_SUPERVISOR_SHUTDOWN" "\<not> isStaticMethod ?md"
    "?call = Instance_call (receiver ?md ''app/Main'' (js_obj (wk_jvm (sv_worker (supervisor_start example_worker))))) ''app/Main'' ''shutdown'' (descriptor ?md) []"
    by (simp_all add: stop_session_def methodDescriptor_def supervisor_start_def example_worker_def example_jstate_def receiver_def)
  have j: "jni_ok example_jvm" "jn_detach example_jvm" "\<not> jn_raises example_jvm c" for c by (simp_all add: jni_ok_def example_jvm_def)
  have e: "ds_queue (launcher_start 10 12) @ mq_msgs ?q = []" "js_calls (wk_jvm (sv_worker (supervisor_start example_worker))) = []"
    by (simp_all add: launcher_start_def supervisor_start_def example_worker_def example_jstate_def)
  from stop_request_shuts_down [where prog = "''p''" and rest = "[]" and ext = False and level = INFO and lk = True and flag = False
      and later = "[]" and buffer = "[]" and ec = 0 and stopping = False and locked = True,
      OF c refl l u l(3) ch j(1) refl md]
  obtain w1 ready ln2 w2 sv' where
    r: "forkable_main_entry example_client [''p'', ''STOP''] False INFO two_queues = Some (EXIT_SUCCESS, w1)"
      "leave_launcher ?g EXIT_SUCCESS [Changed True 12 True, Wait_echild]
         (launcher_start 10 12\<lparr>ds_queue := [], ds_qready := ready\<rparr>) w1 = Some (EXIT_SUCCESS, True, ln2, w2)"
      "ln_procs ln2 = []" "mq_named w2 = (mq_named two_queues)(g_launcher_queue ?g := None, g_supervisor_queue ?g := None)"
      "receive_loop (msg_dispatch_for_supervisor example_jvm stop_session False True) [(Recv SHUTDOWN_CMD, False)] True [] 0
         (supervisor_start example_worker) = (Loop_exit EXIT_SUCCESS, sv')"
      "js_calls (wk_jvm (sv_worker sv')) = [?call]"
    using j(2,3) unfolding e by auto
  have "mq_named w2 = Map.empty" using r(4) by (simp add: q gl fun_eq_iff)
  with r show ?thesis by blast
qed

end
