(* ===== verification/ChildReports.thy ===== *)
theory ChildReports
  imports Supervisor
begin

text \<open>
  The reports of a child process from end to end: the launcher forks it and later sees it end, and
  for both it sends the supervisor a message, which calls a Java method with the pid.
\<close>

lemma completion_invoked:
  assumes ok: "jni_ok env" and name: "fullMethodName md = cls @ CHR ''/'' # meth" "CHR ''/'' \<notin> set meth" "meth \<noteq> []"
    and kind: "whichMethod md = WM_CHILD_COMPLETION_NOTIFY" "\<not> isStaticMethod md"
  shows "\<exists>rc st'. invoke_java_method env md cmd [None, None, None] (Some [pid]) pss st = (Invoked rc False, st') \<and>
     js_calls st' = js_calls st @ [Instance_call (receiver md cls (js_obj st)) cls meth (descriptor md) [Jint (jint_of pid)]] \<and>
     js_closed st' = js_closed st"
proof -
  let ?call = "Instance_call (receiver md cls (js_obj st)) cls meth (descriptor md) [Jint (jint_of pid)]"
  let ?st = "st\<lparr>js_fds := [None, None, None], js_obj := Some (receiver md cls (js_obj st)), js_calls := js_calls st @ [?call]\<rparr>"
  have "jn_new env ''java/lang/String''" using ok by (simp add: jni_ok_def)
  then have "invoke_body env md (Some [pid]) pss (st\<lparr>js_fds := [None, None, None]\<rparr>) = (Inr (jn_raises env ?call), ?st)"
    using kind by (simp add: invoke_body_ok [OF ok name] entry_call_def completion_call_def bind_s_def on_object_def jcall_def
        receiver_def Let_def del: One_nat_def)
  from invoke_java_method_Inr [OF this] show ?thesis by (simp add: close_held_def)
qed

lemma child_completion:
  assumes "jni_ok jvm" and "md = spartanChildCompletionNotifyEntryPoint ss"
    and name: "fullMethodName md = cls @ CHR ''/'' # meth" "CHR ''/'' \<notin> set meth" "meth \<noteq> []"
    and kind: "whichMethod md = WM_CHILD_COMPLETION_NOTIFY" "\<not> isStaticMethod md"
    and pid: "- (2 ^ 31) \<le> pid" "pid < 2 ^ 31"
  shows "\<exists>w'. handle_supervisor_msg popt ss jvm (completion_notify_msg pid) w = (Rc EXIT_SUCCESS, w') \<and>
     js_calls (wk_jvm w') = js_calls (wk_jvm w) @
       [Instance_call (receiver md cls (js_obj (wk_jvm w))) cls meth (descriptor md) [Jint pid]]"
proof -
  have m: "completion_notify_msg pid = unwords [CHILD_PID_COMPLETION_NOTIFY_CMD, show_int pid]"
  proof -
    have "is_cstr (CHILD_PID_COMPLETION_NOTIFY_CMD @ '' '' @ show_int pid)"
      using show_int_token(2) by (auto simp: is_cstr_def CHILD_PID_COMPLETION_NOTIFY_CMD_def)
    then show ?thesis by (simp add: completion_notify_msg_def)
  qed
  have t1: "strtok_r '' '' (unwords [CHILD_PID_COMPLETION_NOTIFY_CMD, show_int pid]) =
      Some (CHILD_PID_COMPLETION_NOTIFY_CMD, unwords [show_int pid])"
    by (rule strtok_unwords) (simp_all add: CHILD_PID_COMPLETION_NOTIFY_CMD_def)
  have t2: "strtok_r '' '' (unwords [show_int pid]) = Some (show_int pid, unwords [])"
    by (rule strtok_unwords) (simp_all add: show_int_token)
  have ne: "\<not> md_empty md" using name by (simp add: md_empty_def)
  have n: "strneq CHILD_PID_COMPLETION_NOTIFY_CMD CHILD_PID_COMPLETION_NOTIFY_CMD (length CHILD_PID_COMPLETION_NOTIFY_CMD)"
    "\<not> strneq CHILD_PID_COMPLETION_NOTIFY_CMD CHILD_PID_NOTIFY_CMD (length CHILD_PID_NOTIFY_CMD)"
    by (simp_all add: strneq_def CHILD_PID_COMPLETION_NOTIFY_CMD_def CHILD_PID_NOTIFY_CMD_def)
  obtain rc st' where j: "invoke_java_method jvm md [] no_fds (Some [show_int pid]) None (wk_jvm w) = (Invoked rc False, st')"
    and calls: "js_calls st' = js_calls (wk_jvm w) @ [Instance_call (receiver md cls (js_obj (wk_jvm w))) cls meth (descriptor md)
      [Jint (jint_of (show_int pid))]]" and cl: "js_closed st' = js_closed (wk_jvm w)"
    using completion_invoked [OF assms(1) name kind] by blast
  show ?thesis
    using calls cl ne unfolding m
    by (simp add: handle_supervisor_msg_def t1 n handle_completion_notify_def t2 assms(2) [symmetric]
        invoke_java_child_processor_completion_notify_def run_java_def j jint_of_show_int [OF pid] Let_def check_errcode_def note_log_def
        del: unwords.simps)
qed


definition report_session :: session_state where
  "report_session = example_session\<lparr>
     spartanChildCompletionNotifyEntryPoint := methodDescriptor ''app/Main/ended'' ''(I)V'' False WM_CHILD_COMPLETION_NOTIFY\<rparr>"


end
