(* ===== verification/OutCapture.thy ===== *)
theory OutCapture
  imports MultiStream
begin

text \<open>
  The capture of what is printed on standard output and standard error, \<open>StdOutCapture.cpp\<close>, by which
  the text of a Java exception gets into the log. The action that prints is the list of its writes;
  a write to a full nonblocking pipe is lost, as the writers do not try again. The stdio buffers
  are empty, and the mutex and the stream locks are left out: the model has one thread.
\<close>

section \<open>The console\<close>

record console =
  co_host :: host
  co_pipes :: "nat \<Rightarrow> string" \<comment> \<open>what is in each pipe\<close>
  co_seen :: "(fdesc \<times> string) list" \<comment> \<open>what was written elsewhere\<close>
  co_read_errno :: int \<comment> \<open>why the last \<open>read\<close> of an empty pipe fails\<close>

definition pipe_capacity :: nat where "pipe_capacity = 65536"

definition fd_put :: "'a option list \<Rightarrow> nat \<Rightarrow> 'a \<Rightarrow> 'a option list" where
  "fd_put xs n e = (if n < length xs then xs[n := Some e] else xs @ replicate (n - length xs) None @ [Some e])"

lemma fd_at_put [simp]: "fd_at (fd_put xs n e) = (fd_at xs)(n \<mapsto> e)"
  by (auto simp: fd_put_def fd_at_def fun_eq_iff nth_append nth_list_update)

definition dup2_fd :: "int \<Rightarrow> nat \<Rightarrow> host \<Rightarrow> bool \<times> host" where
  "dup2_fd fd new h =
     (case (if fd < 0 then None else host_fds h (nat fd)) of
        None \<Rightarrow> (False, h)
      | Some d \<Rightarrow> (let (os, p) = ho_sys h in (True, h\<lparr>ho_sys := (os, p\<lparr>pr_fds := fd_put (pr_fds p) new d\<rparr>)\<rparr>)))"

definition on_host :: "(host \<Rightarrow> host) \<Rightarrow> console \<Rightarrow> console" where
  "on_host f co = co\<lparr>co_host := f (co_host co)\<rparr>"

definition write_one :: "nat \<times> string \<Rightarrow> console \<Rightarrow> console" where
  \<comment> \<open>\<open>write\<close> to a descriptor; up to \<open>PIPE_BUF\<close> bytes go into a pipe all or not at all\<close>
  "write_one w co =
     (let (fd, buf) = w in
      case host_fds (co_host co) fd of
        None \<Rightarrow> co
      | Some d \<Rightarrow>
          (case d of
             Pipe_wr k \<Rightarrow>
               (if d \<in> set (ho_nonblock (co_host co)) then
                  (let free = pipe_capacity - length (co_pipes co k);
                       n = (if length buf \<le> PIPE_BUF \<and> free < length buf then 0 else min free (length buf))
                   in co\<lparr>co_pipes := (co_pipes co)(k := co_pipes co k @ take n buf)\<rparr>)
                else co\<lparr>co_seen := co_seen co @ [(d, buf)]\<rparr>)
           | _ \<Rightarrow> co\<lparr>co_seen := co_seen co @ [(d, buf)]\<rparr>))"

section \<open>StdOutCapture\<close>

datatype capture_error = Create_pipe_descriptors | Dup_file_descriptor | Read_file_descriptor

type_synonym 'a cap_act = "console \<Rightarrow> (capture_error + 'a) \<times> console"

record capture =
  is_capturing :: bool
  old_stdout :: int
  old_stderr :: int
  pipe_rd :: int
  pipe_wr :: int
  capture_buf :: string

definition cleanup :: "int \<Rightarrow> console \<Rightarrow> console" where
  "cleanup fd co = (if fd \<noteq> -1 then on_host (host_close fd) co else co)"

definition close_members :: "capture \<Rightarrow> console \<Rightarrow> console" where
  \<comment> \<open>the smart pointers, the last one first\<close>
  "close_members c co = cleanup (old_stdout c) (cleanup (old_stderr c) (cleanup (pipe_rd c) (cleanup (pipe_wr c) co)))"

definition redirect :: "int \<Rightarrow> nat \<Rightarrow> unit cap_act" where
  \<comment> \<open>\<open>dup2\<close>\<close>
  "redirect fd new co =
     (let (ok, h) = dup2_fd fd new (co_host co); co = co\<lparr>co_host := h\<rparr>
      in if ok then (Inr (), co) else (Inl Dup_file_descriptor, co))"

definition new_capture :: "capture cap_act" where
  "new_capture co =
     (let c = \<lparr>is_capturing = False, old_stdout = -1, old_stderr = -1, pipe_rd = -1, pipe_wr = -1, capture_buf = []\<rparr> in
      case make_anon_pipe (ho_sys (co_host co)) of
        (Inl e, s) \<Rightarrow> (Inl Create_pipe_descriptors, close_members c co)
      | (Inr (rd, wr), s) \<Rightarrow>
          (let co = on_host (\<lambda>h. h\<lparr>ho_sys := s\<rparr>) co; c = c\<lparr>pipe_rd := int rd, pipe_wr := int wr\<rparr>;
               (fd, h) = dup_fd 1 (co_host co); co = co\<lparr>co_host := h\<rparr>; c = c\<lparr>old_stdout := fd\<rparr> in
           if fd = -1 then (Inl Dup_file_descriptor, close_members c co)
           else
             (let (fd, h) = dup_fd 2 (co_host co); co = co\<lparr>co_host := h\<rparr>; c = c\<lparr>old_stderr := fd\<rparr> in
              if fd = -1 then (Inl Dup_file_descriptor, close_members c co) else (Inr c, co))))"

definition destroy_capture :: "capture \<Rightarrow> console \<Rightarrow> console" where
  "destroy_capture c co =
     close_members c (if is_capturing c then snd (redirect (old_stderr c) 2 (snd (redirect (old_stdout c) 1 co))) else co)"

definition start_capture :: "capture \<Rightarrow> capture cap_act" where
  "start_capture c co =
     (if is_capturing c then (Inr c, co)
      else
        bind_s (redirect (pipe_wr c) 1) (\<lambda>u. bind_s (redirect (pipe_wr c) 2) (\<lambda>u co.
          (Inr (c\<lparr>capture_buf := [], is_capturing := True\<rparr>), co))) (on_host (\<lambda>h. snd (set_nonblock (pipe_wr c) h)) co))"

function drain_pipe :: "string \<Rightarrow> string" where
  \<comment> \<open>what the reading loop appends: each buffer up to its first zero byte\<close>
  "drain_pipe s = (if s = [] then [] else cstr (take (PIPE_BUF - 1) s) @ drain_pipe (drop (PIPE_BUF - 1) s))"
  by pat_completeness auto
termination by (relation "measure length") auto

declare drain_pipe.simps [simp del]

definition get_capture :: "capture \<Rightarrow> (string \<times> capture) cap_act" where
  "get_capture c co =
     (let co = on_host (\<lambda>h. snd (set_nonblock (pipe_rd c) h)) co in
      case host_fds (co_host co) (nat (pipe_rd c)) of
        Some (Pipe_rd k) \<Rightarrow>
          (let buf = capture_buf c @ drain_pipe (co_pipes co k); co = co\<lparr>co_pipes := (co_pipes co)(k := [])\<rparr>
           in if co_read_errno co \<noteq> EAGAIN then (Inl Read_file_descriptor, co) else (Inr (buf, c\<lparr>capture_buf := []\<rparr>), co))
      | _ \<Rightarrow> (Inl Read_file_descriptor, co))"

definition stop_capture :: "capture \<Rightarrow> unit cap_act" where
  "stop_capture c co =
     (if is_capturing c then
        (case redirect (old_stdout c) 1 co of
           (Inl e, co) \<Rightarrow> (Inl e, snd (redirect (old_stderr c) 2 co))
         | (Inr u, co) \<Rightarrow> redirect (old_stderr c) 2 co)
      else (Inr (), co))"

definition capture_stdout_stderr :: "(nat \<times> string) list \<Rightarrow> string cap_act" where
  \<comment> \<open>the destructor runs on every way out once the object is made\<close>
  "capture_stdout_stderr action co =
     (case new_capture co of
        (Inl e, co) \<Rightarrow> (Inl e, co)
      | (Inr c, co) \<Rightarrow>
          (case start_capture c co of
             (Inl e, co) \<Rightarrow> (Inl e, destroy_capture c co)
           | (Inr c, co) \<Rightarrow>
               (case get_capture c (fold write_one action co) of
                  (Inl e, co) \<Rightarrow> (Inl e, destroy_capture c co)
                | (Inr (str, c), co) \<Rightarrow>
                    (let c' = c\<lparr>is_capturing := False\<rparr> in
                     case stop_capture c co of
                       (Inl e, co) \<Rightarrow> (Inl e, destroy_capture c' co)
                     | (Inr u, co) \<Rightarrow> (Inr str, destroy_capture c' co)))))"

section \<open>What the capture does\<close>

lemma dup2_fd_spec:
  "0 \<le> fd \<Longrightarrow> host_fds h (nat fd) = Some d \<Longrightarrow>
   fst (dup2_fd fd new h) \<and> host_fds (snd (dup2_fd fd new h)) = (host_fds h)(new \<mapsto> d) \<and>
   ho_nonblock (snd (dup2_fd fd new h)) = ho_nonblock h"
  by (auto simp: dup2_fd_def host_fds_def split: prod.splits)

lemma redirect_spec:
  assumes "0 \<le> fd" and "host_fds (co_host co) (nat fd) = Some d"
  shows "\<exists>h. redirect fd new co = (Inr (), co\<lparr>co_host := h\<rparr>) \<and> host_fds h = (host_fds (co_host co))(new \<mapsto> d) \<and>
    ho_nonblock h = ho_nonblock (co_host co)"
  using dup2_fd_spec [OF assms, of new] by (auto simp: redirect_def Let_def split: prod.splits)

lemma drain_pipe_plain: "NUL \<notin> set s \<Longrightarrow> drain_pipe s = s"
proof (induction s rule: drain_pipe.induct)
  case (1 s)
  show ?case
  proof (cases "s = []")
    case False
    have "NUL \<notin> set (take (PIPE_BUF - 1) s)" "NUL \<notin> set (drop (PIPE_BUF - 1) s)"
      using "1.prems" by (auto dest: in_set_takeD in_set_dropD)
    with 1 False show ?thesis by (subst drain_pipe.simps) (simp add: cstr_def takeWhile_not_all)
  qed (simp add: drain_pipe.simps)
qed

lemma drain_pipe_length: "length (drain_pipe s) \<le> length s"
proof (induction s rule: drain_pipe.induct)
  case (1 s)
  have "length (cstr (take n s)) \<le> length (take n s)" for n
    unfolding cstr_def by (rule length_takeWhile_le)
  from this [of "PIPE_BUF - 1"] 1 show ?case by (cases "s = []") (subst drain_pipe.simps, fastforce)+
qed

text \<open>
  The object once it is made: two new descriptors of one new pipe, and copies of the two streams.
\<close>

definition ready_capture :: "(nat \<Rightarrow> fdesc option) \<Rightarrow> nat \<Rightarrow> capture \<Rightarrow> (nat \<Rightarrow> fdesc option) \<Rightarrow> bool" where
  "ready_capture T k c U =
     (\<exists>rd wr o1 o2. c = \<lparr>is_capturing = False, old_stdout = int o1, old_stderr = int o2, pipe_rd = int rd, pipe_wr = int wr, capture_buf = []\<rparr> \<and>
        distinct [rd, wr, o1, o2] \<and> (\<forall>n\<in>{rd, wr, o1, o2}. T n = None) \<and> T 1 \<noteq> None \<and> T 2 \<noteq> None \<and>
        U = T(rd \<mapsto> Pipe_rd k, wr \<mapsto> Pipe_wr k, o1 := T 1, o2 := T 2))"

lemma host_fds_cleanup [simp]:
  "host_fds (co_host (cleanup fd co)) = (if fd \<ge> 0 then (host_fds (co_host co))(nat fd := None) else host_fds (co_host co))"
  "co_pipes (cleanup fd co) = co_pipes co" "co_seen (cleanup fd co) = co_seen co"
  "co_read_errno (cleanup fd co) = co_read_errno co"
  by (auto simp: cleanup_def on_host_def)

lemma cleanup_fixed [simp]: "ho_fixed (co_host (cleanup fd co)) = ho_fixed (co_host co)"
  by (simp add: cleanup_def on_host_def host_close_def)

lemma dup_fd_fixed: "dup_fd fd h = (n, h') \<Longrightarrow> ho_fixed h' = ho_fixed h"
  by (auto simp: dup_fd_def split: prod.splits option.splits)

lemma new_capture_spec:
  assumes "new_capture co = (r, co')" and one: "host_fds (co_host co) 1 \<noteq> None" and two: "host_fds (co_host co) 2 \<noteq> None"
  shows "co_pipes co' = co_pipes co \<and> co_seen co' = co_seen co \<and> co_read_errno co' = co_read_errno co \<and>
    ho_fixed (co_host co') = ho_fixed (co_host co) \<and>
    ((\<exists>e. r = Inl e \<and> e \<noteq> Read_file_descriptor \<and> host_fds (co_host co') = host_fds (co_host co)) \<or>
     (\<exists>c. r = Inr c \<and> ready_capture (host_fds (co_host co)) (os_pipes (fst (ho_sys (co_host co)))) c (host_fds (co_host co'))))"
proof -
  let ?T = "host_fds (co_host co)" and ?k = "os_pipes (fst (ho_sys (co_host co)))"
  let ?c = "\<lparr>is_capturing = False, old_stdout = -1, old_stderr = -1, pipe_rd = -1, pipe_wr = -1, capture_buf = []\<rparr>"
  obtain q s where p: "make_anon_pipe (ho_sys (co_host co)) = (q, s)" by (cases "make_anon_pipe (ho_sys (co_host co))")
  show ?thesis
  proof (cases q)
    case (Inl e)
    with assms(1) p show ?thesis by (auto simp: new_capture_def close_members_def cleanup_def)
  next
    case (Inr a)
    obtain rd wr where a: "a = (rd, wr)" by (cases a)
    let ?co1 = "on_host (\<lambda>h. h\<lparr>ho_sys := s\<rparr>) co"
    have t1: "host_fds (co_host ?co1) = ?T(rd \<mapsto> Pipe_rd ?k, wr \<mapsto> Pipe_wr ?k) \<and> rd \<noteq> wr \<and> ?T rd = None \<and> ?T wr = None"
    proof -
      obtain os pr where sys: "ho_sys (co_host co) = (os, pr)" by (cases "ho_sys (co_host co)")
      from p Inr a sys obtain f1 f2 where f: "fd_alloc (pr_limit pr) (Pipe_rd (os_pipes os)) (pr_fds pr) = Some (rd, f1)"
          "fd_alloc (pr_limit pr) (Pipe_wr (os_pipes os)) f1 = Some (wr, f2)"
          "s = (os\<lparr>os_pipes := Suc (os_pipes os)\<rparr>, pr\<lparr>pr_fds := f2\<rparr>)"
        by (auto simp: make_anon_pipe_Inr)
      from fd_alloc_at [OF f(1)] fd_alloc_at [OF f(2)] show ?thesis
        by (auto simp: host_fds_def on_host_def sys f(3) split: if_splits)
    qed
    obtain n1 h1 where d1: "dup_fd 1 (co_host ?co1) = (n1, h1)" by (cases "dup_fd 1 (co_host ?co1)")
    obtain n2 h2 where d2: "dup_fd 2 h1 = (n2, h2)" by (cases "dup_fd 2 h1")
    have ne: "rd \<noteq> 1" "rd \<noteq> 2" "wr \<noteq> 1" "wr \<noteq> 2" using t1 one two by auto
    have same: "co_pipes ?co1 = co_pipes co" "co_seen ?co1 = co_seen co" "co_read_errno ?co1 = co_read_errno co" "co_host ?co1 = (co_host co)\<lparr>ho_sys := s\<rparr>"
        "ho_fixed h1 = ho_fixed (co_host co)" "ho_fixed h2 = ho_fixed (co_host co)"
      using dup_fd_fixed [OF d1] dup_fd_fixed [OF d2] by (simp_all add: on_host_def)
    have "new_capture co =
        (if n1 = -1 then (Inl Dup_file_descriptor, close_members (?c\<lparr>pipe_rd := int rd, pipe_wr := int wr, old_stdout := n1\<rparr>) (?co1\<lparr>co_host := h1\<rparr>))
         else if n2 = -1 then (Inl Dup_file_descriptor, close_members (?c\<lparr>pipe_rd := int rd, pipe_wr := int wr, old_stdout := n1, old_stderr := n2\<rparr>) (?co1\<lparr>co_host := h2\<rparr>))
         else (Inr (?c\<lparr>pipe_rd := int rd, pipe_wr := int wr, old_stdout := n1, old_stderr := n2\<rparr>), ?co1\<lparr>co_host := h2\<rparr>))"
      using p Inr a d1 d2 by (simp add: new_capture_def Let_def)
    then have r: "n1 = -1 \<Longrightarrow> r = Inl Dup_file_descriptor \<and> co' = close_members (?c\<lparr>pipe_rd := int rd, pipe_wr := int wr, old_stdout := n1\<rparr>) (?co1\<lparr>co_host := h1\<rparr>)"
        "n1 \<noteq> -1 \<Longrightarrow> n2 = -1 \<Longrightarrow> r = Inl Dup_file_descriptor \<and>
           co' = close_members (?c\<lparr>pipe_rd := int rd, pipe_wr := int wr, old_stdout := n1, old_stderr := n2\<rparr>) (?co1\<lparr>co_host := h2\<rparr>)"
        "n1 \<noteq> -1 \<Longrightarrow> n2 \<noteq> -1 \<Longrightarrow> r = Inr (?c\<lparr>pipe_rd := int rd, pipe_wr := int wr, old_stdout := n1, old_stderr := n2\<rparr>) \<and> co' = ?co1\<lparr>co_host := h2\<rparr>"
      using assms(1) by (simp_all split: if_splits)
    consider "n1 = -1" "h1 = co_host ?co1" | "n1 \<noteq> -1" "n2 = -1" "h2 = h1" | "n1 \<noteq> -1" "n2 \<noteq> -1"
      using dup_fd_spec [OF d1] dup_fd_spec [OF d2] by fastforce
    then show ?thesis
    proof cases
      case 1
      with r(1) t1 same show ?thesis by (auto simp: close_members_def fun_eq_iff)
    next
      case 2
      with dup_fd_spec [OF d1] obtain d where d: "0 \<le> n1" "host_fds (co_host ?co1) (nat n1) = None"
          "host_fds h1 = (host_fds (co_host ?co1))(nat n1 \<mapsto> d)" by auto
      have "nat n1 \<noteq> rd" "nat n1 \<noteq> wr" "?T (nat n1) = None" using d(2) t1 by (auto split: if_splits)
      with 2 r(2) t1 same d show ?thesis by (auto simp: close_members_def fun_eq_iff)
    next
      case 3
      with dup_fd_spec [OF d1] obtain e1 where e1: "0 \<le> n1" "host_fds (co_host ?co1) (nat n1) = None" "host_fds (co_host ?co1) 1 = Some e1"
          "host_fds h1 = (host_fds (co_host ?co1))(nat n1 \<mapsto> e1)" by auto
      from 3 dup_fd_spec [OF d2] obtain e2 where e2: "0 \<le> n2" "host_fds h1 (nat n2) = None" "host_fds h1 2 = Some e2"
          "host_fds h2 = (host_fds h1)(nat n2 \<mapsto> e2)" by auto
      have f1: "nat n1 \<noteq> rd" "nat n1 \<noteq> wr" "?T (nat n1) = None" using e1(2) t1 by (auto split: if_splits)
      have f2: "nat n2 \<noteq> rd" "nat n2 \<noteq> wr" "nat n2 \<noteq> nat n1" "?T (nat n2) = None"
        using e2(2) t1 unfolding e1(4) by (auto split: if_splits)
      have v: "?T 1 = Some e1" "?T 2 = Some e2" using e1(3) e2(3) t1 ne f1(3) two unfolding e1(4) by (auto split: if_splits)
      have "ready_capture ?T ?k (?c\<lparr>pipe_rd := int rd, pipe_wr := int wr, old_stdout := n1, old_stderr := n2\<rparr>) (host_fds h2)"
        unfolding ready_capture_def
        by (rule exI [of _ rd], rule exI [of _ wr], rule exI [of _ "nat n1"], rule exI [of _ "nat n2"])
          (use f1 f2 t1 e1 e2 v in auto)
      with r(3) 3 same show ?thesis by simp
    qed
  qed
qed

lemma set_nonblock_adds:
  "0 \<le> fd \<Longrightarrow> host_fds h (nat fd) = Some d \<Longrightarrow> ho_fixed h = [] \<Longrightarrow>
   d \<in> set (ho_nonblock (snd (set_nonblock fd h))) \<and> host_fds (snd (set_nonblock fd h)) = host_fds h"
  by (simp add: set_nonblock_def host_fds_def)

definition same_console :: "console \<Rightarrow> console \<Rightarrow> bool" where
  \<comment> \<open>all but the descriptors and the flags of the process\<close>
  "same_console co co' = (co_pipes co' = co_pipes co \<and> co_seen co' = co_seen co \<and> co_read_errno co' = co_read_errno co)"

definition redirected :: "(nat \<Rightarrow> fdesc option) \<Rightarrow> nat \<Rightarrow> nat \<Rightarrow> fdesc option" where
  "redirected U k = U(1 \<mapsto> Pipe_wr k, 2 \<mapsto> Pipe_wr k)"

lemma ready_capture_fds:
  assumes "ready_capture T k c U"
  obtains rd wr o1 o2 d1 d2 where "c = \<lparr>is_capturing = False, old_stdout = int o1, old_stderr = int o2, pipe_rd = int rd,
      pipe_wr = int wr, capture_buf = []\<rparr>" "U rd = Some (Pipe_rd k)" "U wr = Some (Pipe_wr k)" "U o1 = Some d1" "U o2 = Some d2"
    "U 1 = Some d1" "U 2 = Some d2" "rd \<notin> {1, 2}" "wr \<notin> {1, 2}" "o1 \<notin> {1, 2}" "o2 \<notin> {1, 2}"
proof -
  obtain rd wr o1 o2 where r: "c = \<lparr>is_capturing = False, old_stdout = int o1, old_stderr = int o2, pipe_rd = int rd,
      pipe_wr = int wr, capture_buf = []\<rparr>" "distinct [rd, wr, o1, o2]" "T rd = None" "T wr = None" "T o1 = None" "T o2 = None"
      "T 1 \<noteq> None" "T 2 \<noteq> None" "U = T(rd \<mapsto> Pipe_rd k, wr \<mapsto> Pipe_wr k, o1 := T 1, o2 := T 2)"
    using assms unfolding ready_capture_def by auto
  then obtain d1 d2 where d: "T 1 = Some d1" "T 2 = Some d2" by auto
  have "rd \<notin> {1, 2}" "wr \<notin> {1, 2}" "o1 \<notin> {1, 2}" "o2 \<notin> {1, 2}" using r(3-8) by (metis empty_iff insert_iff)+
  then show thesis by (intro that [of o1 o2 rd wr d1 d2]) (use r d in auto)
qed

lemma start_capture_spec:
  assumes "ready_capture T k c (host_fds (co_host co))"
  shows "\<exists>co'. start_capture c co = (Inr (c\<lparr>capture_buf := [], is_capturing := True\<rparr>), co') \<and> same_console co co' \<and>
    host_fds (co_host co') = redirected (host_fds (co_host co)) k \<and>
    (ho_fixed (co_host co) = [] \<longrightarrow> Pipe_wr k \<in> set (ho_nonblock (co_host co')))"
proof -
  obtain wr where c: "pipe_wr c = int wr" "\<not> is_capturing c" "host_fds (co_host co) wr = Some (Pipe_wr k)" "wr \<noteq> 1"
    using ready_capture_fds [OF assms] by (metis capture.select_convs(1,5) insertCI)
  let ?h0 = "snd (set_nonblock (pipe_wr c) (co_host co))" and ?co0 = "on_host (\<lambda>h. snd (set_nonblock (pipe_wr c) h)) co"
  have h0: "host_fds ?h0 = host_fds (co_host co)"
    using set_nonblock_spec [of "pipe_wr c" "co_host co"] by (metis prod.collapse)
  have n0: "ho_fixed (co_host co) = [] \<longrightarrow> Pipe_wr k \<in> set (ho_nonblock ?h0)"
    using set_nonblock_adds [of "pipe_wr c" "co_host co"] c by auto
  have e0: "co_host ?co0 = ?h0" "same_console co ?co0" by (simp_all add: on_host_def same_console_def)
  have nw: "nat (pipe_wr c) = wr" using c(1) by simp
  have v0: "host_fds (co_host ?co0) (nat (pipe_wr c)) = Some (Pipe_wr k)"
    unfolding e0(1) h0 nw by (rule c(3))
  have nn: "0 \<le> pipe_wr c" using c by simp
  obtain h1 where r1: "redirect (pipe_wr c) 1 ?co0 = (Inr (), ?co0\<lparr>co_host := h1\<rparr>)" "host_fds h1 = (host_fds ?h0)(1 \<mapsto> Pipe_wr k)"
      "ho_nonblock h1 = ho_nonblock ?h0" using redirect_spec [OF nn v0, of 1] by (auto simp: e0)
  have v1: "host_fds (co_host (?co0\<lparr>co_host := h1\<rparr>)) (nat (pipe_wr c)) = Some (Pipe_wr k)"
    using c(3,4) by (simp add: r1(2) h0 nw)
  obtain h2 where r2: "redirect (pipe_wr c) 2 (?co0\<lparr>co_host := h1\<rparr>) = (Inr (), ?co0\<lparr>co_host := h2\<rparr>)"
      "host_fds h2 = (host_fds h1)(2 \<mapsto> Pipe_wr k)" "ho_nonblock h2 = ho_nonblock h1"
    using redirect_spec [OF nn v1, of 2] by auto
  have "start_capture c co = (Inr (c\<lparr>capture_buf := [], is_capturing := True\<rparr>), ?co0\<lparr>co_host := h2\<rparr>)"
    using c(2) by (simp add: start_capture_def bind_s_def r1(1) r2(1) del: One_nat_def)
  with e0 n0 r1 r2 show ?thesis by (auto simp: redirected_def h0 same_console_def)
qed

lemma write_one_host [simp]:
  "co_host (write_one w co) = co_host co" "co_read_errno (write_one w co) = co_read_errno co"
  by (auto simp: write_one_def Let_def split: prod.splits option.splits fdesc.splits)

lemma writes_host [simp]:
  "co_host (fold write_one ws co) = co_host co" "co_read_errno (fold write_one ws co) = co_read_errno co"
  by (induction ws arbitrary: co) simp_all

lemma get_capture_spec:
  assumes "0 \<le> pipe_rd c" and "host_fds (co_host co) (nat (pipe_rd c)) = Some (Pipe_rd k)"
  shows "\<exists>co'. host_fds (co_host co') = host_fds (co_host co) \<and> co_seen co' = co_seen co \<and>
    get_capture c co = (if co_read_errno co \<noteq> EAGAIN then Inl Read_file_descriptor
      else Inr (capture_buf c @ drain_pipe (co_pipes co k), c\<lparr>capture_buf := []\<rparr>), co')"
proof -
  let ?co = "on_host (\<lambda>h. snd (set_nonblock (pipe_rd c) h)) co"
  have "host_fds (co_host ?co) = host_fds (co_host co)"
    using set_nonblock_spec [of "pipe_rd c" "co_host co" "fst (set_nonblock (pipe_rd c) (co_host co))"] by (simp add: on_host_def)
  with assms show ?thesis by (auto simp: get_capture_def Let_def on_host_def)
qed

lemma back_from_redirected:
  assumes "ready_capture T k c U" and "host_fds (co_host co) = redirected U k"
  shows "\<exists>co'. stop_capture (c\<lparr>is_capturing := True\<rparr>) co = (Inr (), co') \<and> co_seen co' = co_seen co \<and> host_fds (co_host co') = U"
    and "\<exists>co'. snd (redirect (old_stderr c) 2 (snd (redirect (old_stdout c) 1 co))) = co' \<and> co_seen co' = co_seen co \<and> host_fds (co_host co') = U"
proof -
  obtain o1 o2 d1 d2 where c: "old_stdout c = int o1" "old_stderr c = int o2" "U o1 = Some d1" "U o2 = Some d2" "U 1 = Some d1" "U 2 = Some d2"
      "o1 \<noteq> 1" "o1 \<noteq> 2" "o2 \<noteq> 1" "o2 \<noteq> 2"
    using ready_capture_fds [OF assms(1)] by (metis capture.select_convs(2,3) insertCI)
  obtain h1 where r1: "redirect (old_stdout c) 1 co = (Inr (), co\<lparr>co_host := h1\<rparr>)" "host_fds h1 = (redirected U k)(1 \<mapsto> d1)"
    using redirect_spec [of "old_stdout c" co d1 1] c by (auto simp: assms(2) redirected_def)
  obtain h2 where r2: "redirect (old_stderr c) 2 (co\<lparr>co_host := h1\<rparr>) = (Inr (), co\<lparr>co_host := h2\<rparr>)" "host_fds h2 = (host_fds h1)(2 \<mapsto> d2)"
    using redirect_spec [of "old_stderr c" "co\<lparr>co_host := h1\<rparr>" d2 2] c by (auto simp: r1(2) redirected_def)
  have "host_fds h2 = U" using c by (auto simp: r2(2) r1(2) redirected_def fun_eq_iff)
  with r1(1) r2(1) show "\<exists>co'. stop_capture (c\<lparr>is_capturing := True\<rparr>) co = (Inr (), co') \<and> co_seen co' = co_seen co \<and> host_fds (co_host co') = U"
    and "\<exists>co'. snd (redirect (old_stderr c) 2 (snd (redirect (old_stdout c) 1 co))) = co' \<and> co_seen co' = co_seen co \<and> host_fds (co_host co') = U"
    by (simp_all add: stop_capture_def)
qed

lemma close_members_ready:
  assumes "ready_capture T k c U" and "host_fds (co_host co) = U"
  shows "host_fds (co_host (close_members c co)) = T" and "co_seen (close_members c co) = co_seen co"
  using assms by (auto simp: ready_capture_def close_members_def fun_eq_iff)

lemma capture_run:
  assumes "capture_stdout_stderr action co = (r, co')" and "host_fds (co_host co) 1 \<noteq> None" and "host_fds (co_host co) 2 \<noteq> None"
  shows "host_fds (co_host co') = host_fds (co_host co) \<and>
    ((\<exists>e. r = Inl e \<and> fst (new_capture co) = Inl e \<and> co_seen co' = co_seen co) \<or>
     (\<exists>k co1 c. fst (new_capture co) = Inr c \<and> k = os_pipes (fst (ho_sys (co_host co))) \<and> same_console co co1 \<and>
        host_fds (co_host co1) 1 = Some (Pipe_wr k) \<and> host_fds (co_host co1) 2 = Some (Pipe_wr k) \<and>
        (ho_fixed (co_host co) = [] \<longrightarrow> Pipe_wr k \<in> set (ho_nonblock (co_host co1))) \<and>
        r = (if co_read_errno co \<noteq> EAGAIN then Inl Read_file_descriptor
             else Inr (drain_pipe (co_pipes (fold write_one action co1) k))) \<and>
        co_seen co' = co_seen (fold write_one action co1)))"
proof -
  let ?T = "host_fds (co_host co)" and ?k = "os_pipes (fst (ho_sys (co_host co)))"
  obtain q co0 where n: "new_capture co = (q, co0)" by (cases "new_capture co")
  note ns = new_capture_spec [OF n assms(2,3)]
  show ?thesis
  proof (cases q)
    case (Inl e)
    with assms(1) n have "r = Inl e" "co' = co0" by (simp_all add: capture_stdout_stderr_def)
    with ns n Inl show ?thesis by simp
  next
    case (Inr c)
    with ns have rc: "ready_capture ?T ?k c (host_fds (co_host co0))" by auto
    let ?U = "host_fds (co_host co0)" and ?c1 = "c\<lparr>capture_buf := [], is_capturing := True\<rparr>"
    obtain co1 where s: "start_capture c co0 = (Inr ?c1, co1)" "same_console co0 co1" "host_fds (co_host co1) = redirected ?U ?k"
        "ho_fixed (co_host co0) = [] \<longrightarrow> Pipe_wr ?k \<in> set (ho_nonblock (co_host co1))"
      using start_capture_spec [OF rc] by auto
    let ?co2 = "fold write_one action co1"
    have c: "c\<lparr>capture_buf := []\<rparr> = c" "is_capturing c = False" "0 \<le> pipe_rd c" "?U (nat (pipe_rd c)) = Some (Pipe_rd ?k)"
        "nat (pipe_rd c) \<notin> {1, 2}"
      by (rule ready_capture_fds [OF rc]; simp)+
    have rd: "host_fds (co_host ?co2) (nat (pipe_rd ?c1)) = Some (Pipe_rd ?k)" using c by (simp add: s(3) redirected_def)
    obtain co3 where g: "host_fds (co_host co3) = redirected ?U ?k" "co_seen co3 = co_seen ?co2"
        "get_capture ?c1 ?co2 = (if co_read_errno ?co2 \<noteq> EAGAIN then Inl Read_file_descriptor
           else Inr (capture_buf ?c1 @ drain_pipe (co_pipes ?co2 ?k), ?c1\<lparr>capture_buf := []\<rparr>), co3)"
      using get_capture_spec [OF _ rd] c(3) s(3) by auto
    have se: "same_console co co1" "co_read_errno ?co2 = co_read_errno co"
      using s(2) ns by (simp_all add: same_console_def)
    have "\<exists>co4. co' = close_members c co4 \<and> host_fds (co_host co4) = ?U \<and> co_seen co4 = co_seen ?co2 \<and>
        r = (if co_read_errno co \<noteq> EAGAIN then Inl Read_file_descriptor else Inr (drain_pipe (co_pipes ?co2 ?k)))"
    proof (cases "co_read_errno co = EAGAIN")
      case False
      obtain co4 where b: "snd (redirect (old_stderr c) 2 (snd (redirect (old_stdout c) 1 co3))) = co4" "co_seen co4 = co_seen co3"
          "host_fds (co_host co4) = ?U" using back_from_redirected(2) [OF rc g(1)] by blast
      have "r = Inl Read_file_descriptor" "co' = destroy_capture ?c1 co3"
        using assms(1) n Inr s(1) g(3) False se(2) by (simp_all add: capture_stdout_stderr_def)
      moreover have "destroy_capture ?c1 co3 = close_members c co4"
        using b(1) by (simp add: destroy_capture_def close_members_def)
      ultimately show ?thesis using b g(2) False by auto
    next
      case True
      obtain co4 where b: "stop_capture (c\<lparr>is_capturing := True\<rparr>) co3 = (Inr (), co4)" "co_seen co4 = co_seen co3"
          "host_fds (co_host co4) = ?U" using back_from_redirected(1) [OF rc g(1)] by blast
      have e: "stop_capture (?c1\<lparr>capture_buf := []\<rparr>) co3 = stop_capture (c\<lparr>is_capturing := True\<rparr>) co3"
        by (simp add: stop_capture_def split: sum.split prod.split)
      have "r = Inr (drain_pipe (co_pipes ?co2 ?k))" "co' = destroy_capture (?c1\<lparr>capture_buf := [], is_capturing := False\<rparr>) co4"
        using assms(1) n Inr s(1) g(3) True se(2) b(1) e by (simp_all add: capture_stdout_stderr_def Let_def)
      moreover have "destroy_capture (?c1\<lparr>capture_buf := [], is_capturing := False\<rparr>) co4 = close_members c co4"
        by (simp add: destroy_capture_def close_members_def)
      ultimately show ?thesis using b g(2) True by auto
    qed
    then obtain co4 where f: "co' = close_members c co4" "host_fds (co_host co4) = ?U" "co_seen co4 = co_seen ?co2"
        "r = (if co_read_errno co \<noteq> EAGAIN then Inl Read_file_descriptor else Inr (drain_pipe (co_pipes ?co2 ?k)))" by blast
    have "host_fds (co_host co') = ?T" "co_seen co' = co_seen ?co2"
      using close_members_ready [OF rc f(2)] by (simp_all add: f(1,3))
    moreover have "host_fds (co_host co1) 1 = Some (Pipe_wr ?k)" "host_fds (co_host co1) 2 = Some (Pipe_wr ?k)"
      by (simp_all add: s(3) redirected_def)
    moreover have "ho_fixed (co_host co) = [] \<longrightarrow> Pipe_wr ?k \<in> set (ho_nonblock (co_host co1))"
      using s(4) ns by simp
    ultimately show ?thesis using f(4) se(1) n Inr by auto
  qed
qed

lemma writes_into_pipe:
  assumes "host_fds (co_host co) 1 = Some (Pipe_wr k)" and "host_fds (co_host co) 2 = Some (Pipe_wr k)"
    and "Pipe_wr k \<in> set (ho_nonblock (co_host co))" and "fst ` set ws \<subseteq> {1, 2}"
    and "length (co_pipes co k) + length (concat (map snd ws)) \<le> pipe_capacity"
  shows "co_pipes (fold write_one ws co) k = co_pipes co k @ concat (map snd ws) \<and> co_seen (fold write_one ws co) = co_seen co"
  using assms
proof (induction ws arbitrary: co)
  case (Cons w ws)
  obtain fd buf where w: "w = (fd, buf)" by (cases w)
  have fd: "host_fds (co_host co) fd = Some (Pipe_wr k)" using Cons.prems(1,2,4) by (auto simp: w)
  have "\<not> pipe_capacity - length (co_pipes co k) < length buf" using Cons.prems(5) by (simp add: w)
  then have "write_one w co = co\<lparr>co_pipes := (co_pipes co)(k := co_pipes co k @ buf)\<rparr>"
    using Cons.prems(3,5) fd by (simp add: w write_one_def Let_def min_def)
  with Cons.IH [of "write_one w co"] Cons.prems show ?case by (simp add: w)
qed simp

text \<open>
  C29. What an action prints is what the capture returns: up to the capacity of a pipe, and without
  zero bytes, every byte written to either stream comes back in the order of the writes and none
  reaches the real streams. In any case the two streams are as before and no descriptor is lost.
\<close>

theorem capture_returns_output:
  assumes "capture_stdout_stderr action co = (r, co')" and "host_fds (co_host co) 1 \<noteq> None" and "host_fds (co_host co) 2 \<noteq> None"
    and "ho_fixed (co_host co) = []" and "co_read_errno co = EAGAIN" and "co_pipes co (os_pipes (fst (ho_sys (co_host co)))) = []"
    and "fst ` set action \<subseteq> {1, 2}" and "NUL \<notin> set (concat (map snd action))" and "length (concat (map snd action)) \<le> pipe_capacity"
  shows "host_fds (co_host co') = host_fds (co_host co) \<and> co_seen co' = co_seen co \<and>
    r = (case fst (new_capture co) of Inl e \<Rightarrow> Inl e | Inr c \<Rightarrow> Inr (concat (map snd action)))"
proof -
  from capture_run [OF assms(1-3)] show ?thesis
  proof (elim conjE disjE exE)
    fix e assume "r = Inl e" "fst (new_capture co) = Inl e" "co_seen co' = co_seen co" "host_fds (co_host co') = host_fds (co_host co)"
    then show ?thesis by simp
  next
    fix k co1 c assume c: "fst (new_capture co) = Inr c" and k: "k = os_pipes (fst (ho_sys (co_host co)))" and s: "same_console co co1"
      and h: "host_fds (co_host co1) 1 = Some (Pipe_wr k)" "host_fds (co_host co1) 2 = Some (Pipe_wr k)"
        "ho_fixed (co_host co) = [] \<longrightarrow> Pipe_wr k \<in> set (ho_nonblock (co_host co1))"
      and r: "r = (if co_read_errno co \<noteq> EAGAIN then Inl Read_file_descriptor
             else Inr (drain_pipe (co_pipes (fold write_one action co1) k)))"
      and e: "co_seen co' = co_seen (fold write_one action co1)" "host_fds (co_host co') = host_fds (co_host co)"
    have p: "co_pipes co1 k = []" "co_seen co1 = co_seen co" using s assms(6) by (simp_all add: same_console_def k)
    have "co_pipes (fold write_one action co1) k = concat (map snd action) \<and> co_seen (fold write_one action co1) = co_seen co"
      using writes_into_pipe [OF h(1,2) _ assms(7)] h(3) assms(4,9) p by simp
    with c r e assms(5,8) show ?thesis by (simp add: drain_pipe_plain)
  qed
qed

definition example_console :: console where
  "example_console = \<lparr>co_host = \<lparr>ho_sys = (asked, asker), ho_nonblock = [], ho_fixed = []\<rparr>, co_pipes = (\<lambda>k. []),
     co_seen = [], co_read_errno = EAGAIN\<rparr>"

theorem capture_returns_output_witness:
  "\<exists>co'. capture_stdout_stderr [(2, ''Exception: ''), (1, ''at main'')] example_console = (Inr ''Exception: at main'', co') \<and>
     co_seen co' = [] \<and> host_fds (co_host co') = host_fds (co_host example_console)"
proof -
  let ?a = "[(2::nat, ''Exception: ''), (1, ''at main'')]"
  have n: "case fst (new_capture example_console) of Inl e \<Rightarrow> False | Inr c \<Rightarrow> True" by code_simp
  obtain r co' where c: "capture_stdout_stderr ?a example_console = (r, co')" by (metis surj_pair)
  have "host_fds (co_host example_console) 1 \<noteq> None" "host_fds (co_host example_console) 2 \<noteq> None"
    by (simp_all add: example_console_def host_fds_def asker_def fd_at_def)
  from capture_returns_output [OF c this] n c show ?thesis
    by (auto simp: example_console_def pipe_capacity_def split: sum.splits)
qed

end
