(* ===== verification/FifoPipe.thy ===== *)
theory FifoPipe
  imports UdsPipes
begin

text \<open>
  The named pipes of \<open>fifo-pipe.cpp\<close>: making, opening and closing one. The file system is the map
  from the names to the pipes, a process its table of descriptors. A call that fails for a reason
  outside the model is a parameter; \<open>strerror\<close> is left out of the messages.
\<close>

datatype fifo_fault = Make_fifo_pipe_exception string | Open_fifo_pipe_exception string | Close_fifo_pipe_exception string

record fifo_sys =
  ff_names :: "string \<rightharpoonup> nat"
  ff_next :: nat
  ff_pid :: int
  ff_limit :: nat
  ff_fds :: "nat option list"

record fifo_env =
  fe_mkfifo_fails :: bool
  fe_open_fails :: bool
  fe_close_fails :: bool \<comment> \<open>\<open>close\<close> reports an error, but the descriptor is gone\<close>

type_synonym 'a fifo_act = "fifo_sys \<Rightarrow> (fifo_fault + 'a) \<times> fifo_sys"

definition unlink_name :: "string \<Rightarrow> fifo_sys \<Rightarrow> fifo_sys" where
  "unlink_name n s = s\<lparr>ff_names := (ff_names s)(n := None)\<rparr>"

definition process_msg :: "string \<Rightarrow> fifo_sys \<Rightarrow> string \<Rightarrow> string" where
  "process_msg fn s what = format2str (fn @ ''() process '' @ show_int (ff_pid s) @ what)"

definition make_fifo_pipe :: "fifo_env \<Rightarrow> string \<Rightarrow> unit fifo_act" where
  \<comment> \<open>\<open>mkfifo\<close> refuses a name that exists\<close>
  "make_fifo_pipe env fifo_pipe_name s =
     (if fe_mkfifo_fails env \<or> ff_names s fifo_pipe_name \<noteq> None
      then (Inl (Make_fifo_pipe_exception (process_msg ''make_fifo_pipe'' s '' Failed making FIFO_PIPE: '')), s)
      else (Inr (), s\<lparr>ff_names := (ff_names s)(fifo_pipe_name \<mapsto> ff_next s), ff_next := Suc (ff_next s)\<rparr>))"

definition open_fifo_pipe :: "fifo_env \<Rightarrow> string \<Rightarrow> nat fifo_act" where
  "open_fifo_pipe env pathname s =
     (let fails = (Inl (Open_fifo_pipe_exception (process_msg ''open_fifo_pipe'' s ('' Could not open FIFO pipe '' @ [DQUOTE] @ pathname @ [DQUOTE, CHR '':'']))),
            unlink_name pathname s)
      in if fe_open_fails env then fails
         else (case ff_names s pathname of
                 None \<Rightarrow> fails
               | Some i \<Rightarrow> (case fd_alloc (ff_limit s) i (ff_fds s) of
                    None \<Rightarrow> fails
                  | Some (fd, fds) \<Rightarrow> (Inr fd, s\<lparr>ff_fds := fds\<rparr>))))"

definition close_fifo_pipe :: "fifo_env \<Rightarrow> nat \<Rightarrow> string \<Rightarrow> unit fifo_act" where
  "close_fifo_pipe env fd pipename s =
     (let was_open = fd_at (ff_fds s) fd \<noteq> None; s = s\<lparr>ff_fds := (ff_fds s)[fd := None]\<rparr> in
      if fe_close_fails env \<or> \<not> was_open
      then (Inl (Close_fifo_pipe_exception (process_msg ''close_fifo_pipe'' s ('' Failure closing FIFO pipe '' @ [DQUOTE] @ pipename @ [DQUOTE] @ '': ''))),
            unlink_name pipename s)
      else (Inr (), s))"

text \<open>
  A pipe that was made can be opened and closed, and leaves the descriptors as they were; a call
  that throws leaves no pipe of that name, except \<open>make_fifo_pipe\<close> when the name was taken.
\<close>

theorem fifo_open_close:
  assumes "make_fifo_pipe env n s = (Inr (), s1)" and "open_fifo_pipe env n s1 = (Inr fd, s2)"
  shows "\<exists>i. fd_at (ff_fds s2) = (fd_at (ff_fds s))(fd \<mapsto> i) \<and> ff_names s2 n = Some i \<and>
    fd_at (ff_fds (snd (close_fifo_pipe env fd n s2))) = fd_at (ff_fds s)"
proof -
  have s1: "s1 = s\<lparr>ff_names := (ff_names s)(n \<mapsto> ff_next s), ff_next := Suc (ff_next s)\<rparr>"
    using assms(1) by (auto simp: make_fifo_pipe_def split: if_splits)
  obtain fds where a: "fd_alloc (ff_limit s1) (ff_next s) (ff_fds s1) = Some (fd, fds)" and s2: "s2 = s1\<lparr>ff_fds := fds\<rparr>"
    using assms(2) by (auto simp: open_fifo_pipe_def s1 Let_def split: if_splits option.splits)
  note at = fd_alloc_at [OF a]
  have "fd_at (ff_fds s) fd = None" using at by (simp add: s1)
  then show ?thesis using at
    by (auto simp: s2 s1 close_fifo_pipe_def unlink_name_def Let_def fun_upd_idem)
qed

theorem fifo_errors_unlink:
  "open_fifo_pipe env n s = (Inl e, s') \<Longrightarrow> ff_names s' n = None"
  "close_fifo_pipe env fd n s = (Inl e, s') \<Longrightarrow> ff_names s' n = None"
  by (auto simp: open_fifo_pipe_def close_fifo_pipe_def unlink_name_def Let_def split: if_splits option.splits)

end
