(* ===== verification/ShmRegion.thy ===== *)
theory ShmRegion
  imports UdsPipes CmdDispatch MsgQueue
begin

text \<open>
  The shared memory object of \<open>shm.cpp\<close> around the allocator of theory \<open>SharedMem\<close>: creating,
  opening, mapping, committing and removing it, and how \<open>process-cmd-dispatch-info.cpp\<close> uses it
  to hand the session state from the supervisor to the children. The kernel keeps the named
  objects and their bytes, a process its descriptors and its mappings. \<open>strerror\<close> is left out of
  the messages; exceptions that leave a destructor end the process.
\<close>

section \<open>The system calls\<close>

record shm_kernel =
  shm_names :: "string \<rightharpoonup> nat"
  shm_data :: "nat \<Rightarrow> string"
  shm_next :: nat

record shm_proc =
  sp_pid :: int
  sp_limit :: nat
  sp_fds :: "nat option list"
  sp_maps :: "(64 word \<times> nat \<times> 64 word) list" \<comment> \<open>address, object and length\<close>
  sp_log :: "(logging_level \<times> string) list"

type_synonym shm_sys = "shm_kernel \<times> shm_proc"

datatype shm_call = C_open | C_ftruncate | C_fstat | C_mmap | C_munmap | C_unlink | C_msync

record shm_env =
  sh_progname :: string
  sh_pg_size :: "64 word"
  sh_place :: "shm_proc \<Rightarrow> 64 word" \<comment> \<open>the address \<open>mmap\<close> chooses\<close>
  sh_fails :: "shm_call \<Rightarrow> bool" \<comment> \<open>calls that fail for a reason outside the model\<close>

abbreviation O_RDWR :: "32 word" where "O_RDWR \<equiv> 2"
abbreviation O_TRUNC :: "32 word" where "O_TRUNC \<equiv> 512"

definition open_object :: "string \<Rightarrow> 32 word \<Rightarrow> shm_kernel \<Rightarrow> (nat \<times> shm_kernel) option" where
  "open_object name oflag k =
     (case shm_names k name of
        Some i \<Rightarrow> Some (i, if oflag AND O_TRUNC \<noteq> 0 then k\<lparr>shm_data := (shm_data k)(i := [])\<rparr> else k)
      | None \<Rightarrow>
          if oflag AND O_CREAT = 0 then None
          else Some (shm_next k, k\<lparr>shm_names := (shm_names k)(name \<mapsto> shm_next k),
                 shm_data := (shm_data k)(shm_next k := []), shm_next := Suc (shm_next k)\<rparr>))"

definition sys_shm_open :: "shm_env \<Rightarrow> string \<Rightarrow> 32 word \<Rightarrow> shm_sys \<Rightarrow> nat option \<times> shm_sys" where
  "sys_shm_open env name oflag s =
     (let (k, p) = s in
      if sh_fails env C_open then (None, s)
      else (case open_object name oflag k of
              None \<Rightarrow> (None, s)
            | Some (i, k) \<Rightarrow>
                (case fd_alloc (sp_limit p) i (sp_fds p) of
                   None \<Rightarrow> (None, s)
                 | Some (fd, fds) \<Rightarrow> (Some fd, (k, p\<lparr>sp_fds := fds\<rparr>)))))"

definition sys_ftruncate :: "shm_env \<Rightarrow> nat \<Rightarrow> 64 word \<Rightarrow> shm_sys \<Rightarrow> bool \<times> shm_sys" where
  \<comment> \<open>\<open>off_t\<close> is signed\<close>
  "sys_ftruncate env fd len s =
     (let (k, p) = s in
      case fd_at (sp_fds p) fd of
        None \<Rightarrow> (False, s)
      | Some i \<Rightarrow>
          if sh_fails env C_ftruncate \<or> sint len < 0 then (False, s)
          else let c = shm_data k i; n = unat len
               in (True, (k\<lparr>shm_data := (shm_data k)(i := take n c @ replicate (n - length c) NUL)\<rparr>, p)))"

definition sys_fstat :: "shm_env \<Rightarrow> nat \<Rightarrow> shm_sys \<Rightarrow> 64 word option" where
  "sys_fstat env fd s =
     (case fd_at (sp_fds (snd s)) fd of
        None \<Rightarrow> None
      | Some i \<Rightarrow> if sh_fails env C_fstat then None else Some (of_nat (length (shm_data (fst s) i))))"

definition sys_mmap :: "shm_env \<Rightarrow> 64 word \<Rightarrow> nat \<Rightarrow> shm_sys \<Rightarrow> 64 word option \<times> shm_sys" where
  "sys_mmap env len fd s =
     (let (k, p) = s in
      case fd_at (sp_fds p) fd of
        None \<Rightarrow> (None, s)
      | Some i \<Rightarrow>
          if sh_fails env C_mmap \<or> len = 0 then (None, s)
          else (Some (sh_place env p), (k, p\<lparr>sp_maps := (sh_place env p, i, len) # sp_maps p\<rparr>)))"

definition sys_munmap :: "shm_env \<Rightarrow> 64 word \<Rightarrow> shm_sys \<Rightarrow> bool \<times> shm_sys" where
  "sys_munmap env addr s =
     (let (k, p) = s in
      if sh_fails env C_munmap then (False, s)
      else (True, (k, p\<lparr>sp_maps := filter (\<lambda>m. fst m \<noteq> addr) (sp_maps p)\<rparr>)))"

definition sys_shm_unlink :: "shm_env \<Rightarrow> string \<Rightarrow> shm_sys \<Rightarrow> bool \<times> shm_sys" where
  "sys_shm_unlink env name s =
     (let (k, p) = s in
      if sh_fails env C_unlink \<or> shm_names k name = None then (False, s)
      else (True, (k\<lparr>shm_names := (shm_names k)(name := None)\<rparr>, p)))"

definition sys_close :: "nat \<Rightarrow> shm_sys \<Rightarrow> shm_sys" where
  "sys_close fd s = (let (k, p) = s in (k, p\<lparr>sp_fds := (sp_fds p)[fd := None]\<rparr>))"

text \<open>Loads and stores through a mapping.\<close>

definition mapped :: "64 word \<Rightarrow> shm_sys \<Rightarrow> string option" where
  "mapped addr s = map_option (\<lambda>(i, len). take (unat len) (shm_data (fst s) i)) (map_of (sp_maps (snd s)) addr)"

definition store_mapped :: "64 word \<Rightarrow> nat \<Rightarrow> string \<Rightarrow> shm_sys \<Rightarrow> shm_sys" where
  "store_mapped addr off bs s =
     (let (k, p) = s in
      case map_of (sp_maps p) addr of
        None \<Rightarrow> s
      | Some (i, len) \<Rightarrow> (k\<lparr>shm_data := (shm_data k)(i := mem_write off bs (shm_data k i))\<rparr>, p))"

section \<open>shm.cpp\<close>

datatype shm_fault = Throws shm_error | Terminates

type_synonym 'a shm_act = "shm_sys \<Rightarrow> (shm_fault + 'a) \<times> shm_sys"

definition throw_shm :: "string \<Rightarrow> 'a shm_act" where
  "throw_shm msg s = (Inl (Throws (Shared_mem_exception (format2str msg))), s)"

definition get_shm_name :: "shm_env \<Rightarrow> string" where
  "get_shm_name env = ''/'' @ sh_progname env"

definition in_dquotes :: "string \<Rightarrow> string" where
  "in_dquotes name = [DQUOTE] @ name @ [DQUOTE]"

definition open_shm :: "shm_env \<Rightarrow> string \<Rightarrow> 32 word \<Rightarrow> nat shm_act" where
  "open_shm env shm_name oflag s =
     (case sys_shm_open env shm_name oflag s of
        (None, s) \<Rightarrow> throw_shm (''failed shm_open('' @ in_dquotes shm_name @ ''):'') s
      | (Some fd, s) \<Rightarrow> (Inr fd, s))"

definition with_fd :: "nat \<Rightarrow> 'a shm_act \<Rightarrow> 'a shm_act" where
  \<comment> \<open>\<open>cleanup_fd\<close>: the scope of \<open>spfd\<close>\<close>
  "with_fd fd m s = (let (r, s) = m s in (r, sys_close fd s))"

definition object_msg :: "string \<Rightarrow> string \<Rightarrow> string" where
  "object_msg what shm_name = ''failed '' @ what @ '' on '' @ in_dquotes shm_name @ '' shared memory object:''"

definition show_size :: "64 word \<Rightarrow> string" where
  "show_size n = show_nat (unat n)"

definition map_object :: "shm_env \<Rightarrow> string \<Rightarrow> 64 word \<Rightarrow> nat \<Rightarrow> (64 word \<times> 64 word) shm_act" where
  \<comment> \<open>the \<open>mmap\<close> of \<open>allocate\<close> and of \<open>read_access\<close>\<close>
  "map_object env shm_name len fd s =
     (case sys_mmap env len fd s of
        (None, s) \<Rightarrow> throw_shm (object_msg (''mmap('' @ show_size len @ '')'') shm_name) s
      | (Some addr, s) \<Rightarrow> (Inr (addr, len), s))"

definition shm_allocate :: "shm_env \<Rightarrow> 32 word \<Rightarrow> (64 word \<times> 64 word) shm_act" where
  "shm_allocate env pages =
     (let shm_name = get_shm_name env in
      bind_s (open_shm env shm_name (O_RDWR OR O_CREAT OR O_TRUNC)) (\<lambda>fd. with_fd fd (\<lambda>s.
        let len = shm_page_length pages (sh_pg_size env) in
        (case sys_ftruncate env fd len s of
           (False, s) \<Rightarrow> throw_shm (object_msg (''ftruncate('' @ show_size len @ '')'') shm_name) s
         | (True, s) \<Rightarrow> map_object env shm_name len fd s))))"

definition read_access :: "shm_env \<Rightarrow> (64 word \<times> 64 word) shm_act" where
  "read_access env =
     (let shm_name = get_shm_name env in
      bind_s (open_shm env shm_name O_RDONLY) (\<lambda>fd. with_fd fd (\<lambda>s.
        (case sys_fstat env fd s of
           None \<Rightarrow> throw_shm (object_msg ''fstat()'' shm_name) s
         | Some len \<Rightarrow> map_object env shm_name len fd s))))"

fun hex_digits :: "nat \<Rightarrow> string" where
  "hex_digits n = (if n < 16 then [''0123456789abcdef'' ! n] else hex_digits (n div 16) @ [''0123456789abcdef'' ! (n mod 16)])"

declare hex_digits.simps [simp del]

definition show_ptr :: "64 word \<Rightarrow> string" where
  \<comment> \<open>\<open>%p\<close> of the C library\<close>
  "show_ptr p = (if p = 0 then ''(nil)'' else ''0x'' @ hex_digits (unat p))"

definition addr_msg :: "string \<Rightarrow> 64 word \<Rightarrow> 64 word \<Rightarrow> string \<Rightarrow> string" where
  "addr_msg call addr len shm_name =
     object_msg (call @ ''(0x'' @ show_ptr addr @ '', '' @ show_size len @ '')'') shm_name"

definition shm_unmap :: "shm_env \<Rightarrow> 64 word \<Rightarrow> 64 word \<Rightarrow> unit shm_act" where
  "shm_unmap env addr len s =
     (case sys_munmap env addr s of
        (False, s) \<Rightarrow> throw_shm (addr_msg ''munmap'' addr len (get_shm_name env)) s
      | (True, s) \<Rightarrow> (Inr (), s))"

definition log_line :: "logging_level \<Rightarrow> string \<Rightarrow> shm_sys \<Rightarrow> shm_sys" where
  "log_line l msg s = (let (k, p) = s in (k, p\<lparr>sp_log := sp_log p @ [(l, msg)]\<rparr>))"

definition shm_unlink_name :: "shm_env \<Rightarrow> shm_sys \<Rightarrow> shm_sys" where
  \<comment> \<open>the format has an escaped backslash before each quote\<close>
  "shm_unlink_name env s =
     (case sys_shm_unlink env (get_shm_name env) s of
        (False, s) \<Rightarrow> log_line WARN (''failed shm_unlink('' @ [CHR 0x5C, DQUOTE] @ get_shm_name env @ [CHR 0x5C, DQUOTE] @ ''):'') s
      | (True, s) \<Rightarrow> s)"

record shm_area =
  base_addr :: "64 word"
  allocator :: shm_allocator

definition shm_destroy :: "shm_env \<Rightarrow> shm_area \<Rightarrow> unit shm_act" where
  \<comment> \<open>\<open>~ShmAllocator\<close>, which is \<open>noexcept\<close>: the exception of \<open>unmap\<close> calls \<open>std::terminate\<close>\<close>
  "shm_destroy env a s =
     (case shm_unmap env (base_addr a) (max_size (allocator a)) s of
        (Inl e, s) \<Rightarrow> (Inl Terminates, s)
      | (Inr _, s) \<Rightarrow> (Inr (), shm_unlink_name env s))"

definition shm_commit :: "shm_env \<Rightarrow> 64 word \<Rightarrow> shm_area \<Rightarrow> unit shm_act" where
  \<comment> \<open>\<open>commit(len)\<close>; \<open>commit()\<close> passes the current offset\<close>
  "shm_commit env len a s =
     (if sh_fails env C_msync then throw_shm (addr_msg ''msync'' (base_addr a) len (get_shm_name env)) s
      else (Inr (), s))"

definition shm_commit_all :: "shm_env \<Rightarrow> shm_area \<Rightarrow> unit shm_act" where
  "shm_commit_all env a = shm_commit env (scast (curr_offset (allocator a))) a"

definition make_area :: "shm_env \<Rightarrow> 32 word \<Rightarrow> shm_area shm_act" where
  "make_area env pages =
     bind_s (shm_allocate env pages) (\<lambda>(addr, len) s.
       (Inr \<lparr>base_addr = addr, allocator = (shm_make pages (sh_pg_size env))\<lparr>max_size := len\<rparr>\<rparr>, s))"

section \<open>The supervisor's side and the child's\<close>

definition publish_region :: "shm_env \<Rightarrow> 32 word \<Rightarrow> 64 word \<Rightarrow> string \<Rightarrow> shm_area shm_act" where
  \<comment> \<open>\<open>process_initial_cmd_dispatch_info\<close> from \<open>shm::make\<close> on: placement \<open>new\<close> of the whole buffer, then
     the layout; \<open>sp_shm_alloc\<close> destroys the area when the placement \<open>new\<close> throws\<close>
  "publish_region env pgs shm_required_size bs =
     bind_s (make_area env pgs) (\<lambda>a s.
       case shm_alloc (get_shm_name env) shm_required_size (allocator a) of
         Inl e \<Rightarrow> (case shm_destroy env a s of (Inl t, s) \<Rightarrow> (Inl t, s) | (Inr _, s) \<Rightarrow> (Inl (Throws e), s))
       | Inr (off, al) \<Rightarrow> (Inr (a\<lparr>allocator := al\<rparr>), store_mapped (base_addr a) (unat off) bs s))"

definition unmap_shm_client :: "shm_env \<Rightarrow> 64 word \<Rightarrow> 64 word \<Rightarrow> unit shm_act" where
  "unmap_shm_client env p shm_size s =
     (if p = 0 then (Inr (), s)
      else bind_s (shm_unmap env p shm_size) (\<lambda>_ s.
        (Inr (), log_line DEBUG (''pid('' @ show_int (sp_pid (snd s)) @ ''): unmapped shared memory '' @
          in_dquotes (''/'' @ sh_progname env) @ '': '' @ show_ptr p @ '' of size '' @ show_size shm_size) s)) s)"

definition client_get_cmd_dispatch_info :: "shm_env \<Rightarrow> int \<Rightarrow> session_state \<Rightarrow> (session_state \<times> istream) option shm_act" where
  \<comment> \<open>\<open>get_cmd_dispatch_info\<close> with the mapping: read, deserialize, and unmap in the deleter, which may
     not throw; a bad access is \<open>None\<close>\<close>
  "client_get_cmd_dispatch_info env junk ss =
     bind_s (read_access env) (\<lambda>(shm_base, shm_size) s.
       let r = (case mapped shm_base s of None \<Rightarrow> None | Some mem \<Rightarrow> get_cmd_dispatch_info junk mem ss)
       in case unmap_shm_client env shm_base shm_size s of
            (Inl e, s) \<Rightarrow> (Inl Terminates, s)
          | (Inr _, s) \<Rightarrow> (Inr r, s))"


section \<open>Descriptors\<close>

text \<open>A statement that leaves the descriptors of the process as they were, however it ends.\<close>

definition same_fds :: "shm_sys \<Rightarrow> shm_sys \<Rightarrow> bool" where
  "same_fds s s' = (fd_at (sp_fds (snd s')) = fd_at (sp_fds (snd s)))"

definition keeps_fds :: "'a shm_act \<Rightarrow> bool" where
  "keeps_fds m = (\<forall>s r s'. m s = (r, s') \<longrightarrow> same_fds s s')"

lemma keeps_fdsI: "(\<And>s r s'. m s = (r, s') \<Longrightarrow> same_fds s s') \<Longrightarrow> keeps_fds m"
  by (simp add: keeps_fds_def)

lemma keeps_fdsD: "keeps_fds m \<Longrightarrow> m s = (r, s') \<Longrightarrow> same_fds s s'"
  unfolding keeps_fds_def by blast

lemma same_fds_refl [simp]: "same_fds s s"
  by (simp add: same_fds_def)

lemma same_fds_trans: "same_fds s t \<Longrightarrow> same_fds t u \<Longrightarrow> same_fds s u"
  by (simp add: same_fds_def)

lemma keeps_bind: "keeps_fds m \<Longrightarrow> (\<And>a. keeps_fds (f a)) \<Longrightarrow> keeps_fds (bind_s m f)"
  by (rule keeps_fdsI) (auto simp: bind_s_def split: prod.splits sum.splits dest: keeps_fdsD intro: same_fds_trans)

lemma map_object_same: "keeps_fds (map_object env n len fd)"
  by (rule keeps_fdsI)
    (auto simp: map_object_def sys_mmap_def throw_shm_def same_fds_def split: prod.splits option.splits if_splits)

lemma truncate_same: "sys_ftruncate env fd len s = (b, s') \<Longrightarrow> same_fds s s'"
  by (auto simp: sys_ftruncate_def same_fds_def Let_def split: prod.splits option.splits if_splits)

lemma keeps_open:
  assumes m: "\<And>fd. keeps_fds (m fd)"
  shows "keeps_fds (bind_s (open_shm env n oflag) (\<lambda>fd. with_fd fd (m fd)))"
proof (rule keeps_fdsI)
  fix s r s'
  assume r: "bind_s (open_shm env n oflag) (\<lambda>fd. with_fd fd (m fd)) s = (r, s')"
  obtain k p where s: "s = (k, p)" by (cases s)
  show "same_fds s s'"
  proof (cases "fst (open_shm env n oflag s)")
    case (Inl e)
    then show ?thesis using r
      by (auto simp: s bind_s_def open_shm_def sys_shm_open_def throw_shm_def same_fds_def
        split: prod.splits option.splits if_splits sum.splits)
  next
    case (Inr fd)
    then obtain i k' fds where a: "fd_alloc (sp_limit p) i (sp_fds p) = Some (fd, fds)"
      and o1: "open_shm env n oflag s = (Inr fd, (k', p\<lparr>sp_fds := fds\<rparr>))"
      by (auto simp: s open_shm_def sys_shm_open_def throw_shm_def split: prod.splits option.splits if_splits)
    obtain r1 s1 where b: "m fd (k', p\<lparr>sp_fds := fds\<rparr>) = (r1, s1)" by (cases "m fd (k', p\<lparr>sp_fds := fds\<rparr>)")
    have "fd_at (sp_fds (snd s1)) = (fd_at (sp_fds p))(fd \<mapsto> i)" "fd_at (sp_fds p) fd = None"
      using keeps_fdsD [OF m b] fd_alloc_at [OF a] by (auto simp: same_fds_def)
    then show ?thesis using r
      by (auto simp: s bind_s_def o1 [unfolded s] with_fd_def b sys_close_def same_fds_def split: prod.splits)
  qed
qed

lemma allocate_keeps_fds: "keeps_fds (shm_allocate env pages)"
  unfolding shm_allocate_def Let_def
  by (rule keeps_open, rule keeps_fdsI)
    (auto simp: throw_shm_def split: prod.splits bool.splits
      dest: truncate_same keeps_fdsD [OF map_object_same] intro: same_fds_trans)

lemma read_access_keeps_fds: "keeps_fds (read_access env)"
  unfolding read_access_def Let_def
  by (rule keeps_open, rule keeps_fdsI)
    (auto simp: throw_shm_def split: option.splits dest: keeps_fdsD [OF map_object_same])


section \<open>Creating and opening the object\<close>

definition no_failures :: "shm_env \<Rightarrow> bool" where
  "no_failures env = (\<forall>c. \<not> sh_fails env c)"

definition has_room :: "shm_proc \<Rightarrow> bool" where
  "has_room p = (length (sp_fds p) < sp_limit p)"

lemma no_failures_calls [simp]: "no_failures env \<Longrightarrow> \<not> sh_fails env c"
  by (simp add: no_failures_def)

lemma open_shm_room:
  assumes "no_failures env" and "has_room p" and "open_object n oflag k = Some (i, k')"
  obtains fd fds where "fd_alloc (sp_limit p) i (sp_fds p) = Some (fd, fds)"
    and "open_shm env n oflag (k, p) = (Inr fd, (k', p\<lparr>sp_fds := fds\<rparr>))"
proof -
  obtain fd fds where a: "fd_alloc (sp_limit p) i (sp_fds p) = Some (fd, fds)"
    using fd_alloc_room [of "sp_fds p" "sp_limit p" i] assms(2) by (auto simp: has_room_def)
  show ?thesis by (rule that [OF a]) (use assms a in \<open>simp add: open_shm_def sys_shm_open_def\<close>)
qed

definition fresh_place :: "shm_env \<Rightarrow> shm_proc \<Rightarrow> bool" where
  \<comment> \<open>\<open>mmap\<close> returns an address that is not null and not in use\<close>
  "fresh_place env p = (list_all (\<lambda>m. sh_place env p \<noteq> fst m) (sp_maps p) \<and> sh_place env p \<noteq> 0)"

definition maps_fresh :: "shm_env \<Rightarrow> shm_proc \<Rightarrow> bool" where
  "maps_fresh env p = (\<forall>fds. fresh_place env (p\<lparr>sp_fds := fds\<rparr>))"

lemma allocate_ok:
  assumes "no_failures env" and "has_room p" and len: "len = shm_page_length pages (sh_pg_size env)" "0 < sint len"
  shows "\<exists>addr i k' fds. shm_allocate env pages (k, p) =
      (Inr (addr, len), (k', p\<lparr>sp_fds := fds, sp_maps := (addr, i, len) # sp_maps p\<rparr>)) \<and>
    shm_names k' = (shm_names k)(get_shm_name env \<mapsto> i) \<and> shm_data k' i = replicate (unat len) NUL"
proof -
  let ?n = "get_shm_name env" and ?fl = "O_RDWR OR O_CREAT OR O_TRUNC"
  have o1: "\<exists>i k'. open_object ?n ?fl k = Some (i, k') \<and> shm_names k' = (shm_names k)(?n \<mapsto> i) \<and> shm_data k' i = []"
    by (cases "shm_names k ?n") (auto simp: open_object_def)
  then obtain i k1 where o1: "open_object ?n ?fl k = Some (i, k1)" and k1: "shm_names k1 = (shm_names k)(?n \<mapsto> i)"
    "shm_data k1 i = []" by blast
  obtain fd fds where a: "fd_alloc (sp_limit p) i (sp_fds p) = Some (fd, fds)"
    and o2: "open_shm env ?n ?fl (k, p) = (Inr fd, (k1, p\<lparr>sp_fds := fds\<rparr>))"
    by (rule open_shm_room [OF assms(1,2) o1])
  have at: "fd_at fds fd = Some i" using fd_alloc_at [OF a] by simp
  have nz: "len \<noteq> 0" "\<not> sint len < 0" using len(2) by auto
  let ?k = "k1\<lparr>shm_data := (shm_data k1)(i := replicate (unat len) NUL)\<rparr>"
  have t: "sys_ftruncate env fd len (k1, p\<lparr>sp_fds := fds\<rparr>) = (True, (?k, p\<lparr>sp_fds := fds\<rparr>))"
    using assms(1) nz by (simp add: sys_ftruncate_def at k1)
  have m: "map_object env ?n len fd (?k, p\<lparr>sp_fds := fds\<rparr>) =
      (Inr (sh_place env (p\<lparr>sp_fds := fds\<rparr>), len),
       (?k, p\<lparr>sp_fds := fds, sp_maps := (sh_place env (p\<lparr>sp_fds := fds\<rparr>), i, len) # sp_maps p\<rparr>))"
    using assms(1) nz by (simp add: map_object_def sys_mmap_def at)
  have "shm_allocate env pages (k, p) =
      (Inr (sh_place env (p\<lparr>sp_fds := fds\<rparr>), len),
       (?k, p\<lparr>sp_fds := fds[fd := None], sp_maps := (sh_place env (p\<lparr>sp_fds := fds\<rparr>), i, len) # sp_maps p\<rparr>))"
    by (simp add: shm_allocate_def Let_def bind_s_def o2 [simplified] with_fd_def len(1) [symmetric] t m sys_close_def)
  then show ?thesis using k1 by (intro exI conjI) (assumption, auto)
qed

lemma read_access_ok:
  assumes "no_failures env" and "has_room p" and "shm_names k (get_shm_name env) = Some i"
    and len: "len = of_nat (length (shm_data k i))" "len \<noteq> 0"
  shows "\<exists>addr fds fds'. addr = sh_place env (p\<lparr>sp_fds := fds'\<rparr>) \<and>
    read_access env (k, p) = (Inr (addr, len), (k, p\<lparr>sp_fds := fds, sp_maps := (addr, i, len) # sp_maps p\<rparr>))"
proof -
  have o1: "open_object (get_shm_name env) O_RDONLY k = Some (i, k)"
    using assms(3) by (simp add: open_object_def)
  obtain fd fds where a: "fd_alloc (sp_limit p) i (sp_fds p) = Some (fd, fds)"
    and o2: "open_shm env (get_shm_name env) O_RDONLY (k, p) = (Inr fd, (k, p\<lparr>sp_fds := fds\<rparr>))"
    by (rule open_shm_room [OF assms(1,2) o1])
  have at: "fd_at fds fd = Some i" using fd_alloc_at [OF a] by simp
  have st: "sys_fstat env fd (k, p\<lparr>sp_fds := fds\<rparr>) = Some len"
    using assms(1) len by (simp add: sys_fstat_def at)
  show ?thesis
    by (intro exI [of _ "sh_place env (p\<lparr>sp_fds := fds\<rparr>)"] exI [of _ "fds[fd := None]"] exI [of _ fds])
      (use assms(1) len(2) in \<open>simp add: read_access_def Let_def bind_s_def o2 with_fd_def st map_object_def
        sys_mmap_def at sys_close_def\<close>)
qed

lemma unmap_front:
  assumes "no_failures env" and "fresh_place env (p\<lparr>sp_fds := fds'\<rparr>)" and "addr = sh_place env (p\<lparr>sp_fds := fds'\<rparr>)"
  shows "shm_unmap env addr len (k, p\<lparr>sp_fds := fds, sp_maps := (addr, i, n) # sp_maps p\<rparr>) =
    (Inr (), (k, p\<lparr>sp_fds := fds\<rparr>))"
proof -
  have "filter (\<lambda>m. fst m \<noteq> addr) (sp_maps p) = sp_maps p"
    using assms(2,3) by (auto simp: filter_id_conv fresh_place_def list_all_iff)
  then show ?thesis using assms(1) by (simp add: shm_unmap_def sys_munmap_def)
qed


lemma unmap_client:
  assumes "addr \<noteq> 0" and "shm_unmap env addr n s = (Inr (), (k, q))"
  shows "\<exists>L. unmap_shm_client env addr n s = (Inr (), (k, q\<lparr>sp_log := L\<rparr>))"
  using assms by (auto simp: unmap_shm_client_def bind_s_def log_line_def intro: exI)

section \<open>From the supervisor to a child\<close>

lemma length_mem_write: "p + length bs \<le> length mem \<Longrightarrow> length (mem_write p bs mem) = length mem"
  by (simp add: mem_write_def)

lemma length_layout:
  assumes "0 < pg"
  shows "length (layout_region pg info membuf) = pages_for (8 + length info + length membuf) pg * pg"
proof -
  have "8 + length info + length membuf \<le> pages_for (8 + length info + length membuf) pg * pg"
    by (rule pages_enough [OF assms])
  then show ?thesis
    by (simp add: layout_region_def Let_def length_mem_write int32_bytes_def add_ac)
qed

lemma publish_ok:
  assumes env: "no_failures env" "has_room p" and pg: "sh_pg_size env = of_nat pg" "0 < n" "0 < pg" "n * pg < 2 ^ 31"
    and bs: "length bs = n * pg" and req: "req \<le> n * pg"
  shows "\<exists>a i k' fds. publish_region env (of_nat n) (of_nat req) bs (k, p) =
      (Inr a, (k', p\<lparr>sp_fds := fds, sp_maps := (base_addr a, i, max_size (allocator a)) # sp_maps p\<rparr>)) \<and>
    shm_names k' = (shm_names k)(get_shm_name env \<mapsto> i) \<and> shm_data k' i = bs"
proof -
  define len where "len = shm_page_length (of_nat n) (sh_pg_size env)"
  have n: "n < 2 ^ 31" using pg by (cases pg) auto
  then have "sint (of_nat n :: 32 word) = int n"
    by (simp add: signed_of_nat signed_take_bit_int_eq_self)
  then have "len = of_nat (n * pg)" unfolding len_def shm_page_length_def pg(1) scast_eq by simp
  moreover from this have u: "unat len = n * pg" using pg(4) by (simp only: unat_of_nat) simp
  ultimately have l: "0 < sint len" "uint len = int (n * pg)"
    using pg by (simp_all add: signed_of_nat signed_take_bit_int_eq_self uint_nat del: of_nat_mult)
  from allocate_ok [OF env len_def l(1)] obtain addr i k1 fds where
    al: "shm_allocate env (of_nat n) (k, p) = (Inr (addr, len), (k1, p\<lparr>sp_fds := fds, sp_maps := (addr, i, len) # sp_maps p\<rparr>))"
    and k1: "shm_names k1 = (shm_names k)(get_shm_name env \<mapsto> i)" "shm_data k1 i = replicate (unat len) NUL" by blast
  have le: "\<not> (of_nat req :: 64 word) > len" using req pg(4) by (simp add: word_less_nat_alt u unat_of_nat)
  have w: "mem_write 0 bs (replicate (n * pg) NUL) = bs" using bs by (simp add: mem_write_def)
  let ?a = "\<lparr>base_addr = addr, allocator = \<lparr>max_size = len, curr_offset = ucast (of_nat req :: 64 word),
      shm_bytes = replicate (unat len) NUL\<rparr>\<rparr>"
  have "publish_region env (of_nat n) (of_nat req) bs (k, p) =
      (Inr ?a, (k1\<lparr>shm_data := (shm_data k1)(i := bs)\<rparr>, p\<lparr>sp_fds := fds, sp_maps := (addr, i, len) # sp_maps p\<rparr>))"
    by (simp add: publish_region_def make_area_def bind_s_def al shm_alloc_def shm_make_def Let_def le
      store_mapped_def k1 u w len_def [symmetric])
  then show ?thesis using k1(1) by (intro exI [of _ ?a] exI [of _ i] exI conjI) (assumption | simp)+
qed

text \<open>
  C9. The supervisor creates the shared memory object, writes the session state it made from the
  dispatch information and the annotations, and keeps it mapped; a child that opens the object
  by name reads that session state, and gives back its mapping and its descriptor.
\<close>

theorem state_handed_over:
  assumes "process_initial_cmd_dispatch_info pg ser_info props di ss = Inr (ss', bs)"
    and "ss_text_ok ss'" and "0 < pg" and "length ser_info < 2 ^ 31" and "length (ss_out ss') < 2 ^ 31"
    and req: "req = 8 + length ser_info + length (ss_out ss')" and pgs: "pages_for req pg * pg < 2 ^ 31"
    and env: "no_failures env" "sh_pg_size env = of_nat pg" and p: "has_room p"
    and c: "has_room c" "maps_fresh env c"
  shows "\<exists>a k' p' c'. publish_region env (of_nat (pages_for req pg)) (of_nat req) bs (k, p) = (Inr a, (k', p')) \<and>
    client_get_cmd_dispatch_info env junk old (k', c) = (Inr (Some (ss_read ss' old, istr [])), (k', c')) \<and>
    fd_at (sp_fds c') = fd_at (sp_fds c) \<and> sp_maps c' = sp_maps c"
proof -
  let ?n = "pages_for req pg"
  have bs: "bs = layout_region pg ser_info (ss_out ss')"
    using assms(1) by (auto simp: process_initial_cmd_dispatch_info_def bind_r_Inr Let_def
        serialize_session_state_to_membuf_def)
  then have len: "length bs = ?n * pg" using length_layout [OF assms(3)] by (simp add: req add_ac)
  have enough: "req \<le> ?n * pg" by (rule pages_enough [OF assms(3)])
  then have n: "0 < ?n" using req by (cases ?n) auto
  from publish_ok [OF env(1) p env(2) n assms(3) pgs len enough] obtain a i k' fds where
    pub: "publish_region env (of_nat ?n) (of_nat req) bs (k, p) =
      (Inr a, (k', p\<lparr>sp_fds := fds, sp_maps := (base_addr a, i, max_size (allocator a)) # sp_maps p\<rparr>))"
    and k': "shm_names k' = (shm_names k)(get_shm_name env \<mapsto> i)" "shm_data k' i = bs" by blast
  define m where "m = (of_nat (length bs) :: 64 word)"
  have um: "unat m = length bs" using pgs by (simp add: m_def len unat_of_nat del: of_nat_mult)
  then have "m \<noteq> 0" using enough req len by (auto simp: unat_eq_0)
  then obtain addr cf f where addr: "addr = sh_place env (c\<lparr>sp_fds := f\<rparr>)"
    and rd: "read_access env (k', c) = (Inr (addr, m), (k', c\<lparr>sp_fds := cf, sp_maps := (addr, i, m) # sp_maps c\<rparr>))"
    using read_access_ok [OF env(1) c(1), of k' i m] k' by (auto simp: m_def)
  have fr: "fresh_place env (c\<lparr>sp_fds := f\<rparr>)" using c(2) by (simp add: maps_fresh_def)
  then have a0: "addr \<noteq> 0" by (simp add: addr fresh_place_def)
  have mem: "mapped addr (k', c\<lparr>sp_fds := cf, sp_maps := (addr, i, m) # sp_maps c\<rparr>) = Some bs"
    by (simp add: mapped_def k' um)
  have g: "get_cmd_dispatch_info junk bs old = Some (ss_read ss' old, istr [])"
    unfolding bs by (rule layout_roundtrip [OF assms(2-5)])
  have fd: "fd_at cf = fd_at (sp_fds c)"
    using keeps_fdsD [OF read_access_keeps_fds rd] by (simp add: same_fds_def)
  from unmap_client [OF a0 unmap_front [OF env(1) fr addr]] obtain L where
    um: "unmap_shm_client env addr m (k', c\<lparr>sp_fds := cf, sp_maps := (addr, i, m) # sp_maps c\<rparr>) =
      (Inr (), (k', c\<lparr>sp_fds := cf, sp_log := L\<rparr>))" by blast
  have "client_get_cmd_dispatch_info env junk old (k', c) =
      (Inr (Some (ss_read ss' old, istr [])), (k', c\<lparr>sp_fds := cf, sp_log := L\<rparr>))"
    by (simp add: client_get_cmd_dispatch_info_def bind_s_def rd mem g um)
  with pub show ?thesis by (intro exI conjI) (assumption | simp add: fd)+
qed


definition shm_demo_env :: shm_env where
  "shm_demo_env = \<lparr>sh_progname = ''app'', sh_pg_size = 4096,
     sh_place = (\<lambda>p. of_nat (4096 * Suc (length (sp_maps p)))), sh_fails = (\<lambda>_. False)\<rparr>"

definition shm_demo_proc :: "int \<Rightarrow> shm_proc" where
  "shm_demo_proc pid = \<lparr>sp_pid = pid, sp_limit = 1024, sp_fds = replicate 3 (Some 0), sp_maps = [], sp_log = []\<rparr>"

definition shm_demo_kernel :: shm_kernel where
  "shm_demo_kernel = \<lparr>shm_names = Map.empty, shm_data = (\<lambda>_. []), shm_next = 1\<rparr>"

lemma shm_demo:
  "no_failures shm_demo_env" "has_room (shm_demo_proc n)" "maps_fresh shm_demo_env (shm_demo_proc n)"
  by (simp_all add: shm_demo_env_def shm_demo_proc_def no_failures_def has_room_def maps_fresh_def fresh_place_def)

lemma pages_bound: "0 < pg \<Longrightarrow> pages_for n pg * pg < n + pg"
  by (auto simp: pages_for_def Let_def)
   (metis div_mult_mod_eq add_less_cancel_left less_add_same_cancel1 not_gr_zero)+

lemma example_shared_small: "length (ss_out example_shared) < 4096"
  by code_simp

theorem state_handed_over_witness:
  "\<exists>a k' p' c'. publish_region shm_demo_env (of_nat (pages_for (18 + length (ss_out example_shared)) 4096))
      (of_nat (18 + length (ss_out example_shared)))
      (layout_region 4096 ''serialized'' (ss_out example_shared)) (shm_demo_kernel, shm_demo_proc 1) = (Inr a, (k', p')) \<and>
    client_get_cmd_dispatch_info shm_demo_env 0 ss_default (k', shm_demo_proc 2) =
      (Inr (Some (ss_read example_shared ss_default, istr [])), (k', c')) \<and>
    fd_at (sp_fds c') = fd_at (sp_fds (shm_demo_proc 2)) \<and> sp_maps c' = sp_maps (shm_demo_proc 2)"
proof (rule state_handed_over [OF example_processed example_shared_ok])
  show "length (ss_out example_shared) < 2 ^ 31" using example_shared_small by simp
  have "pages_for (18 + length (ss_out example_shared)) 4096 * 4096 < 18 + length (ss_out example_shared) + 4096"
    by (rule pages_bound) simp
  then show "pages_for (18 + length (ss_out example_shared)) 4096 * 4096 < 2 ^ 31"
    using example_shared_small by simp
  show "sh_pg_size shm_demo_env = of_nat 4096" by (simp add: shm_demo_env_def)
qed (simp_all add: shm_demo)

section \<open>Failures\<close>

text \<open>
  Whatever system call fails, creating, opening and reading the shared memory leave the
  process with the descriptors it had.
\<close>

theorem shm_fds_kept:
  "same_fds s (snd (shm_allocate env pages s)) \<and> same_fds s (snd (read_access env s)) \<and>
   same_fds s (snd (client_get_cmd_dispatch_info env junk ss s))"
proof -
  have u: "keeps_fds (shm_unmap env addr n)" for addr n
    by (rule keeps_fdsI) (auto simp: shm_unmap_def sys_munmap_def throw_shm_def same_fds_def
      split: prod.splits bool.splits if_splits)
  have l: "keeps_fds (\<lambda>s. (Inr (), log_line l msg s))" for l msg
    by (rule keeps_fdsI) (auto simp: log_line_def same_fds_def split: prod.splits)
  have c: "keeps_fds (unmap_shm_client env addr n)" for addr n
    using u unfolding unmap_shm_client_def [abs_def] keeps_fds_def bind_s_def
    by (auto simp: log_line_def same_fds_def split: prod.splits sum.splits if_splits)
  have "keeps_fds (client_get_cmd_dispatch_info env junk ss)"
    unfolding client_get_cmd_dispatch_info_def
    by (rule keeps_bind [OF read_access_keeps_fds])
      (auto simp: Let_def intro!: keeps_fdsI split: prod.splits sum.splits dest: keeps_fdsD [OF c])
  then show ?thesis using allocate_keeps_fds read_access_keeps_fds
    unfolding keeps_fds_def by (metis prod.collapse)
qed

text \<open>
  When the size cannot be set or the object not be mapped, \<open>allocate\<close> throws and leaves the
  object it created behind under its name; when the mapping cannot be removed, the destructor
  ends the process and leaves the name too.
\<close>

theorem failed_allocate_leaves_name:
  assumes "sh_fails env C_ftruncate \<or> sh_fails env C_mmap" and "\<not> sh_fails env C_open" and "has_room p"
  shows "\<exists>e k' p'. shm_allocate env pages (k, p) = (Inl (Throws e), (k', p')) \<and> shm_names k' (get_shm_name env) \<noteq> None"
proof -
  let ?fl = "O_RDWR OR O_CREAT OR O_TRUNC"
  obtain i k1 where o1: "open_object (get_shm_name env) ?fl k = Some (i, k1)" and n: "shm_names k1 (get_shm_name env) = Some i"
    by (cases "shm_names k (get_shm_name env)") (auto simp: open_object_def)
  obtain fd fds where a: "fd_alloc (sp_limit p) i (sp_fds p) = Some (fd, fds)"
    using fd_alloc_room [of "sp_fds p" "sp_limit p" i] assms(3) by (auto simp: has_room_def)
  then have o2: "open_shm env (get_shm_name env) ?fl (k, p) = (Inr fd, (k1, p\<lparr>sp_fds := fds\<rparr>))"
    using assms(2) o1 by (simp add: open_shm_def sys_shm_open_def)
  have at: "fd_at fds fd = Some i" using fd_alloc_at [OF a] by simp
  show ?thesis using assms(1) n
    by (auto simp: shm_allocate_def Let_def bind_s_def o2 [simplified] with_fd_def sys_ftruncate_def at throw_shm_def
      map_object_def sys_mmap_def sys_close_def)
qed

theorem failed_unmap_terminates:
  assumes "sh_fails env C_munmap"
  shows "shm_destroy env a s = (Inl Terminates, s)"
  using assms by (auto simp: shm_destroy_def shm_unmap_def sys_munmap_def throw_shm_def split: prod.splits)

theorem destroyed_area_gone:
  assumes "no_failures env" and "shm_destroy env a (k, p) = (r, (k', p'))"
  shows "r = Inr () \<and> shm_names k' (get_shm_name env) = None \<and> base_addr a \<notin> fst ` set (sp_maps p')"
  using assms
  by (auto simp: shm_destroy_def shm_unmap_def sys_munmap_def shm_unlink_name_def sys_shm_unlink_def log_line_def
    split: prod.splits if_splits)

end
