(* ===== verification/SignalHandling.thy ===== *)
theory SignalHandling
  imports Prelude
begin

text \<open>
  \<open>signal-handling.cpp\<close>: the flag that ends the copying loops, the handlers of \<open>SIGINT\<close>,
  \<open>SIGTERM\<close> and \<open>SIGTSTP\<close>, and the two mutexes they take. The threads of the process run the
  functions of the module one instruction at a time; a signal pushes its handler on the thread
  it interrupts. The functions the rest of the program registers are named by a number, and
  run in one step. A signal is blocked while its own handler runs, as \<open>signal\<close> arranges it.
\<close>

section \<open>State\<close>

abbreviation SIGINT :: int where "SIGINT \<equiv> 2"
abbreviation SIGTERM :: int where "SIGTERM \<equiv> 15"
abbreviation SIGTSTP :: int where "SIGTSTP \<equiv> 20"

datatype guard = Signals_guard | Ctrl_z_guard

datatype handler_fn =
    Callback \<comment> \<open>\<open>signal_callback_handler\<close>\<close>
  | Callback_sigint \<comment> \<open>the default of \<open>ctrl_z_handler\<close>\<close>
  | User nat

datatype disposition = Sig_dfl | Sig_ign | Quit_handler | Ctrl_c_handler | Ctrl_z_handler

record sg_globals =
  quit_flag :: int
  ctrl_c_fn :: handler_fn
  ctrl_z_fn :: handler_fn
  ctrl_z_handler_sig :: int
  disp :: "int \<Rightarrow> disposition"
  owner :: "guard \<Rightarrow> nat option"
  sg_log :: "(string \<times> int \<times> int) list" \<comment> \<open>function, signal and flag\<close>
  user_calls :: "(nat \<times> int) list"

definition sg_start :: sg_globals where
  "sg_start = \<lparr>quit_flag = 0, ctrl_c_fn = Callback, ctrl_z_fn = Callback_sigint, ctrl_z_handler_sig = SIGINT,
     disp = (\<lambda>_. Sig_dfl), owner = (\<lambda>_. None), sg_log = [], user_calls = []\<rparr>"

datatype instr =
    Acquire guard
  | Release guard
  | Clear_quit
  | Set_quit
  | Save_quit
  | Log_flag string int
  | Set_ctrl_c handler_fn
  | Set_ctrl_z int handler_fn
  | Signal int disposition
  | Ignore_ctrl_z_sig
  | Restore_ctrl_z_sig
  | Call_ctrl_c int
  | Call_ctrl_z
  | Return_from int

record sg_thread =
  code :: "instr list"
  saved :: "disposition list" \<comment> \<open>the locals \<open>sav_cb\<close> of the active handlers\<close>
  tmp_quit_flag :: "int list"
  blocked :: "int list"

section \<open>The functions of the module\<close>

definition signal_callback_handler :: "int \<Rightarrow> instr list" where
  "signal_callback_handler sig =
     [Acquire Signals_guard, Set_quit, Release Signals_guard, Log_flag ''signal_callback_handler'' sig]"

definition signal_callback_ctrl_c_handler :: "int \<Rightarrow> instr list" where
  "signal_callback_ctrl_c_handler sig =
     [Acquire Signals_guard, Call_ctrl_c sig, Save_quit, Release Signals_guard,
      Log_flag ''signal_callback_ctrl_c_handler'' sig]"

definition set_signals_handler :: "nat \<Rightarrow> instr list" where
  "set_signals_handler sigint_handler =
     [Acquire Signals_guard, Clear_quit, Set_ctrl_c (User sigint_handler), Signal SIGINT Ctrl_c_handler,
      Signal SIGTERM Quit_handler, Signal SIGTSTP Quit_handler, Release Signals_guard]"

definition signal_callback_ctrl_z_handler :: "int \<Rightarrow> instr list" where
  "signal_callback_ctrl_z_handler sig =
     [Acquire Ctrl_z_guard, Ignore_ctrl_z_sig, Call_ctrl_z, Restore_ctrl_z_sig, Save_quit, Release Ctrl_z_guard,
      Log_flag ''signal_callback_ctrl_z_handler'' sig]"

definition register_ctrl_z_handler_sig :: "int \<Rightarrow> handler_fn \<Rightarrow> instr list" where
  "register_ctrl_z_handler_sig sig cb =
     [Acquire Ctrl_z_guard, Set_ctrl_z sig cb, Signal SIGTSTP Ctrl_z_handler, Release Ctrl_z_guard]"

definition register_ctrl_z_handler :: "handler_fn \<Rightarrow> instr list" where
  "register_ctrl_z_handler cb = register_ctrl_z_handler_sig SIGINT cb"

definition interrupted :: "sg_globals \<Rightarrow> bool" where
  "interrupted g = (quit_flag g \<noteq> 0)"

fun call_fn :: "handler_fn \<Rightarrow> int \<Rightarrow> sg_globals \<Rightarrow> instr list \<times> sg_globals" where
  "call_fn Callback sig g = (signal_callback_handler sig, g)"
| "call_fn Callback_sigint sig g = (signal_callback_handler SIGINT, g)"
| "call_fn (User n) sig g = ([], g\<lparr>user_calls := user_calls g @ [(n, sig)]\<rparr>)"

section \<open>Execution\<close>

text \<open>
  One instruction of thread \<open>t\<close>; \<open>None\<close> when it waits for a mutex. The mutexes are
  \<open>std::mutex\<close>, which a thread that owns it cannot take again.
\<close>

fun exec :: "nat \<Rightarrow> instr \<Rightarrow> sg_globals \<Rightarrow> sg_thread \<Rightarrow> (sg_globals \<times> sg_thread) option" where
  "exec t (Acquire m) g th = (if owner g m = None then Some (g\<lparr>owner := (owner g)(m := Some t)\<rparr>, th) else None)"
| "exec t (Release m) g th = (if owner g m = Some t then Some (g\<lparr>owner := (owner g)(m := None)\<rparr>, th) else None)"
| "exec t Clear_quit g th = Some (g\<lparr>quit_flag := 0\<rparr>, th)"
| "exec t Set_quit g th = Some (g\<lparr>quit_flag := 1\<rparr>, th\<lparr>tmp_quit_flag := 1 # tmp_quit_flag th\<rparr>)"
| "exec t Save_quit g th = Some (g, th\<lparr>tmp_quit_flag := quit_flag g # tmp_quit_flag th\<rparr>)"
| "exec t (Log_flag fn sig) g th =
     (case tmp_quit_flag th of
        [] \<Rightarrow> None
      | q # qs \<Rightarrow> Some (g\<lparr>sg_log := sg_log g @ [(fn, sig, q)]\<rparr>, th\<lparr>tmp_quit_flag := qs\<rparr>))"
| "exec t (Set_ctrl_c f) g th = Some (g\<lparr>ctrl_c_fn := f\<rparr>, th)"
| "exec t (Set_ctrl_z sig f) g th = Some (g\<lparr>ctrl_z_handler_sig := sig, ctrl_z_fn := f\<rparr>, th)"
| "exec t (Signal sig d) g th = Some (g\<lparr>disp := (disp g)(sig := d)\<rparr>, th)"
| "exec t Ignore_ctrl_z_sig g th =
     Some (g\<lparr>disp := (disp g)(ctrl_z_handler_sig g := Sig_ign)\<rparr>, th\<lparr>saved := disp g (ctrl_z_handler_sig g) # saved th\<rparr>)"
| "exec t Restore_ctrl_z_sig g th =
     (case saved th of
        [] \<Rightarrow> None
      | d # ds \<Rightarrow> Some (g\<lparr>disp := (disp g)(ctrl_z_handler_sig g := d)\<rparr>, th\<lparr>saved := ds\<rparr>))"
| "exec t (Call_ctrl_c sig) g th =
     (let (is, g) = call_fn (ctrl_c_fn g) sig g in Some (g, th\<lparr>code := is @ code th\<rparr>))"
| "exec t Call_ctrl_z g th =
     (let (is, g) = call_fn (ctrl_z_fn g) (ctrl_z_handler_sig g) g in Some (g, th\<lparr>code := is @ code th\<rparr>))"
| "exec t (Return_from sig) g th = Some (g, th\<lparr>blocked := remove1 sig (blocked th)\<rparr>)"

type_synonym sg_state = "sg_globals \<times> (nat \<Rightarrow> sg_thread)"

definition run_next :: "nat \<Rightarrow> sg_state \<Rightarrow> sg_state option" where
  "run_next t s =
     (let (g, ths) = s in
      case code (ths t) of
        [] \<Rightarrow> None
      | i # is \<Rightarrow> map_option (\<lambda>(g, th). (g, ths(t := th))) (exec t i g ((ths t)\<lparr>code := is\<rparr>)))"

fun handler_code :: "disposition \<Rightarrow> int \<Rightarrow> instr list option" where
  \<comment> \<open>\<open>None\<close>: no handler runs\<close>
  "handler_code Sig_dfl sig = None"
| "handler_code Sig_ign sig = None"
| "handler_code Quit_handler sig = Some (signal_callback_handler sig)"
| "handler_code Ctrl_c_handler sig = Some (signal_callback_ctrl_c_handler sig)"
| "handler_code Ctrl_z_handler sig = Some (signal_callback_ctrl_z_handler sig)"

definition deliver :: "nat \<Rightarrow> int \<Rightarrow> sg_state \<Rightarrow> sg_state option" where
  \<comment> \<open>a handler starts on thread \<open>t\<close>\<close>
  "deliver t sig s =
     (let (g, ths) = s; th = ths t in
      if sig \<in> set (blocked th) then None
      else map_option (\<lambda>is. (g, ths(t := th\<lparr>code := is @ [Return_from sig] @ code th, blocked := sig # blocked th\<rparr>)))
             (handler_code (disp g sig) sig))"

inductive sg_step :: "sg_state \<Rightarrow> sg_state \<Rightarrow> bool" where
  run: "run_next t s = Some s' \<Longrightarrow> sg_step s s'"
| signal: "deliver t sig s = Some s' \<Longrightarrow> sg_step s s'"

inductive_cases sg_stepE: "sg_step s s'"

datatype api = Set_signals nat | Register_ctrl_z int handler_fn

fun api_code :: "api \<Rightarrow> instr list" where
  "api_code (Set_signals n) = set_signals_handler n"
| "api_code (Register_ctrl_z sig f) = register_ctrl_z_handler_sig sig f"

definition sg_init :: "(nat \<Rightarrow> api list) \<Rightarrow> sg_state" where
  "sg_init calls = (sg_start, \<lambda>t. \<lparr>code = concat (map api_code (calls t)), saved = [], tmp_quit_flag = [], blocked = []\<rparr>)"

inductive sg_reachable :: "(nat \<Rightarrow> api list) \<Rightarrow> sg_state \<Rightarrow> bool" for calls where
  init: "sg_reachable calls (sg_init calls)"
| step: "sg_reachable calls s \<Longrightarrow> sg_step s s' \<Longrightarrow> sg_reachable calls s'"


section \<open>A held mutex will be released by its owner\<close>

fun locks :: "guard \<Rightarrow> instr list \<Rightarrow> bool list" where
  \<comment> \<open>what a thread has still to do with one mutex: \<open>True\<close> for taking it\<close>
  "locks m [] = []"
| "locks m (Acquire n # is) = (if n = m then True # locks m is else locks m is)"
| "locks m (Release n # is) = (if n = m then False # locks m is else locks m is)"
| "locks m (i # is) = locks m is"

lemma locks_append [simp]: "locks m (xs @ ys) = locks m xs @ locks m ys"
  by (induction m xs rule: locks.induct) simp_all

fun brackets :: "bool list \<Rightarrow> bool \<Rightarrow> bool" where
  \<comment> \<open>takes and releases alternate, from a state in which the mutex is held or not\<close>
  "brackets [] h = (\<not> h)"
| "brackets (True # False # xs) h = brackets xs h"
| "brackets (False # xs) h = (h \<and> brackets xs False)"
| "brackets [True] h = False"
| "brackets (True # True # xs) h = False"

lemma brackets_take: "brackets (True # xs) False \<Longrightarrow> brackets xs True"
  by (cases xs; cases "hd xs") auto

lemma brackets_push: "brackets xs False \<Longrightarrow> brackets (xs @ ys) h = brackets ys h"
  by (induction xs False rule: brackets.induct) auto

definition lock_inv :: "sg_state \<Rightarrow> bool" where
  "lock_inv s = (\<forall>t m. brackets (locks m (code (snd s t))) (owner (fst s) m = Some t))"

lemma handler_brackets: "handler_code d sig = Some is \<Longrightarrow> brackets (locks m is) False"
  by (cases d; cases m; auto simp: signal_callback_handler_def signal_callback_ctrl_c_handler_def
      signal_callback_ctrl_z_handler_def)

lemma call_fn_brackets: "call_fn f sig g = (is, g') \<Longrightarrow> brackets (locks m is) False"
  by (cases f; cases m; auto simp: signal_callback_handler_def)

lemma api_brackets: "brackets (locks m (api_code a)) False"
  by (cases a; cases m; simp add: set_signals_handler_def register_ctrl_z_handler_sig_def)

lemma call_fn_owner [simp]: "call_fn f sig g = (is, g') \<Longrightarrow> owner g' = owner g"
  by (cases f) auto

lemma exec_inv:
  assumes "exec t i g (th\<lparr>code := is\<rparr>) = Some (g', th')" and "brackets (locks m (i # is)) (owner g m = Some t)"
  shows "brackets (locks m (code th')) (owner g' m = Some t)"
proof (cases i)
  case (Call_ctrl_c sig)
  then show ?thesis using assms by (auto split: prod.splits simp: brackets_push [OF call_fn_brackets])
next
  case Call_ctrl_z
  then show ?thesis using assms by (auto split: prod.splits simp: brackets_push [OF call_fn_brackets])
qed (use assms in \<open>auto split: if_splits list.splits simp: brackets_take\<close>)

lemma exec_others:
  "exec t i g th = Some (g', th') \<Longrightarrow> t' \<noteq> t \<Longrightarrow> (owner g' m = Some t') = (owner g m = Some t')"
  by (cases i) (auto split: if_splits list.splits prod.splits)

lemma run_nextE:
  assumes "run_next t (g, ths) = Some s'"
  obtains i "is" g' th' where "code (ths t) = i # is" and "exec t i g ((ths t)\<lparr>code := is\<rparr>) = Some (g', th')"
    and "s' = (g', ths(t := th'))"
  using assms by (auto simp: run_next_def split: list.splits)

lemma deliverE:
  assumes "deliver t sig (g, ths) = Some s'"
  obtains "is" where "handler_code (disp g sig) sig = Some is"
    and "s' = (g, ths(t := (ths t)\<lparr>code := is @ [Return_from sig] @ code (ths t), blocked := sig # blocked (ths t)\<rparr>))"
  using assms by (auto simp: deliver_def Let_def split: if_splits)

lemma lock_inv_step:
  assumes "lock_inv s" and "sg_step s s'"
  shows "lock_inv s'"
proof -
  obtain g ths where s: "s = (g, ths)" by (cases s)
  have inv: "brackets (locks m (code (ths t))) (owner g m = Some t)" for t m
    using assms(1) by (simp add: lock_inv_def s)
  from assms(2) consider (runs) t where "run_next t (g, ths) = Some s'" | (interrupted) t sig where "deliver t sig (g, ths) = Some s'"
    unfolding s by (cases rule: sg_stepE) blast+
  then show ?thesis
  proof cases
    case (runs t)
    then obtain i "is" g' th' where c: "code (ths t) = i # is" and e: "exec t i g ((ths t)\<lparr>code := is\<rparr>) = Some (g', th')"
      and s': "s' = (g', ths(t := th'))" by (rule run_nextE)
    show ?thesis unfolding lock_inv_def s'
      using exec_inv [OF e] inv [of _ t] inv c exec_others [OF e] by simp
  next
    case (interrupted t sig)
    then obtain "is" where h: "handler_code (disp g sig) sig = Some is"
      and s': "s' = (g, ths(t := (ths t)\<lparr>code := is @ [Return_from sig] @ code (ths t), blocked := sig # blocked (ths t)\<rparr>))"
      by (rule deliverE)
    show ?thesis unfolding lock_inv_def s'
      using inv brackets_push [OF handler_brackets [OF h]] by simp
  qed
qed

lemma lock_inv_init: "lock_inv (sg_init calls)"
proof -
  have "brackets (locks m (concat (map api_code cs))) False" for m cs
    by (induction cs) (simp_all add: brackets_push [OF api_brackets])
  then show ?thesis by (simp add: lock_inv_def sg_init_def sg_start_def)
qed

lemma reachable_inv: "sg_reachable calls s \<Longrightarrow> lock_inv s"
  by (induction rule: sg_reachable.induct) (auto intro: lock_inv_init lock_inv_step)

lemma brackets_held: "brackets xs True \<Longrightarrow> False \<in> set xs"
  by (induction xs True rule: brackets.induct) auto

lemma locks_release: "False \<in> set (locks m is) \<Longrightarrow> Release m \<in> set is"
  by (induction m "is" rule: locks.induct) (auto split: if_splits)




section \<open>A signal that arrives while its thread holds the mutex\<close>

definition stuck_on :: "guard \<Rightarrow> nat \<Rightarrow> instr list \<Rightarrow> sg_state \<Rightarrow> bool" where
  \<comment> \<open>thread \<open>t\<close> holds the mutex and has to take it again before it can release it\<close>
  "stuck_on m t rest s = (owner (fst s) m = Some t \<and>
     (\<exists>pre. code (snd s t) = pre @ Acquire m # rest \<and> (case locks m pre of [] \<Rightarrow> True | b # _ \<Rightarrow> b)))"

lemma handler_starts: "handler_code d sig = Some is \<Longrightarrow> locks m is = [] \<or> locks m is = [True, False]"
  by (cases d; cases m; auto simp: signal_callback_handler_def signal_callback_ctrl_c_handler_def
      signal_callback_ctrl_z_handler_def)

lemma call_fn_starts: "call_fn f sig g = (is, g') \<Longrightarrow> locks m is = [] \<or> locks m is = [True, False]"
  by (cases f; cases m; auto simp: signal_callback_handler_def)

lemma exec_code:
  "exec t i g th = Some (g', th') \<Longrightarrow> \<exists>is. code th' = is @ code th \<and> (locks m is = [] \<or> locks m is = [True, False])"
  by (cases i) (auto split: if_splits list.splits prod.splits dest: call_fn_starts [of _ _ _ _ _ m])

lemma stuck_step:
  assumes "stuck_on m t rest s" and "sg_step s s'"
  shows "stuck_on m t rest s'"
proof -
  obtain g ths where s: "s = (g, ths)" by (cases s)
  obtain pre where o1: "owner g m = Some t" and c: "code (ths t) = pre @ Acquire m # rest"
    and p: "case locks m pre of [] \<Rightarrow> True | b # _ \<Rightarrow> b"
    using assms(1) by (auto simp: stuck_on_def s)
  have push: "stuck_on m t rest (g', ths')"
    if "owner g' m = Some t" "code (ths' t) = is @ pre' @ Acquire m # rest" "locks m is = [] \<or> locks m is = [True, False]"
      "case locks m pre' of [] \<Rightarrow> True | b # _ \<Rightarrow> b" for g' ths' "is" pre'
    unfolding stuck_on_def using that by (intro conjI exI [of _ "is @ pre'"]) auto
  from assms(2) consider (runs) u where "run_next u (g, ths) = Some s'" | (interrupted) u sig where "deliver u sig (g, ths) = Some s'"
    unfolding s by (cases rule: sg_stepE) blast+
  then show ?thesis
  proof cases
    case (runs u)
    then obtain i "is" g' th' where ci: "code (ths u) = i # is" and e: "exec u i g ((ths u)\<lparr>code := is\<rparr>) = Some (g', th')"
      and s': "s' = (g', ths(u := th'))" by (rule run_nextE)
    show ?thesis
    proof (cases "u = t")
      case True
      have pre: "\<exists>pre'. pre = i # pre' \<and> is = pre' @ Acquire m # rest"
        using ci c e o1 True by (cases pre) (auto split: if_splits)
      then obtain pre' where pre': "pre = i # pre'" "is = pre' @ Acquire m # rest" by blast
      obtain js where js: "code th' = js @ is" "locks m js = [] \<or> locks m js = [True, False]"
        using exec_code [OF e, of m] by auto
      have ni: "i \<noteq> Acquire m" "i \<noteq> Release m" using e o1 p pre'(1) by auto
      then have "owner g' m = Some t" using e o1 by (cases i) (auto split: if_splits list.splits prod.splits)
      moreover have "locks m pre' = locks m pre" using ni unfolding pre'(1) by (cases i) auto
      ultimately show ?thesis unfolding s' using True js pre'(2) p by (intro push [of _ _ js pre']) auto
    next
      case False
      then have "owner g' m = Some t" using exec_others [OF e, of t m] o1 by simp
      then show ?thesis unfolding s' using False c p by (intro push [of _ _ "[]" pre]) auto
    qed
  next
    case (interrupted u sig)
    then obtain "is" where h: "handler_code (disp g sig) sig = Some is"
      and s': "s' = (g, ths(u := (ths u)\<lparr>code := is @ [Return_from sig] @ code (ths u), blocked := sig # blocked (ths u)\<rparr>))"
      by (rule deliverE)
    show ?thesis
    proof (cases "u = t")
      case True
      then show ?thesis unfolding s' using o1 c p handler_starts [OF h, of m]
        by (intro push [of _ _ "is @ [Return_from sig]" pre]) auto
    next
      case False
      then show ?thesis unfolding s' using o1 c p by (intro push [of _ _ "[]" pre]) auto
    qed
  qed
qed

lemma stuck_steps: "sg_step\<^sup>*\<^sup>* s s' \<Longrightarrow> stuck_on m t rest s \<Longrightarrow> stuck_on m t rest s'"
  by (induction rule: rtranclp_induct) (auto intro: stuck_step)


fun run_thread :: "nat \<Rightarrow> nat \<Rightarrow> sg_state \<Rightarrow> sg_state option" where
  \<comment> \<open>\<open>n\<close> instructions of thread \<open>t\<close> without interruption\<close>
  "run_thread t 0 s = Some s"
| "run_thread t (Suc n) s = Option.bind (run_next t s) (run_thread t n)"

lemma run_thread_reachable: "run_thread t n s = Some s' \<Longrightarrow> sg_reachable calls s \<Longrightarrow> sg_reachable calls s'"
proof (induction n arbitrary: s)
  case (Suc n)
  then obtain u where "run_next t s = Some u" "run_thread t n u = Some s'" by (auto simp: Option.bind_eq_Some_conv)
  with Suc show ?case by (blast intro: sg_reachable.step sg_step.run)
qed simp

definition echo_client :: "nat \<Rightarrow> api list" where
  "echo_client t = (if t = 0 then [Set_signals 7] else [])"



section \<open>A handler that is not disturbed\<close>

text \<open>
  A \<open>SIGTERM\<close> that finds the mutex free sets the flag and returns to where it interrupted the
  thread. Once \<open>register_ctrl_z_handler\<close> has taken \<open>SIGTSTP\<close> over, a Ctrl-Z runs the registered
  function with \<open>SIGINT\<close> ignored and leaves the flag, and so the copying loops, as they were.
\<close>

theorem sigterm_sets_flag:
  assumes "deliver t sig (g, ths) = Some s1" and "disp g sig = Quit_handler" and "owner g Signals_guard = None"
  shows "\<exists>ths'. run_thread t 5 s1 = Some (g\<lparr>quit_flag := 1, sg_log := sg_log g @ [(''signal_callback_handler'', sig, 1)]\<rparr>, ths') \<and>
    ths' t = ths t"
  using assms
  by (auto simp: deliver_def Let_def eval_nat_numeral run_next_def signal_callback_handler_def fun_upd_idem
      split: if_splits)

theorem ctrl_z_keeps_flag:
  assumes "deliver t sig (g, ths) = Some s1" and "disp g sig = Ctrl_z_handler" and "owner g Ctrl_z_guard = None"
    and "ctrl_z_fn g = User n"
  shows "\<exists>g' ths'. run_thread t 8 s1 = Some (g', ths') \<and> quit_flag g' = quit_flag g \<and> disp g' = disp g \<and> owner g' = owner g \<and>
    user_calls g' = user_calls g @ [(n, ctrl_z_handler_sig g)] \<and> ths' t = ths t"
  using assms
  by (auto simp: deliver_def Let_def eval_nat_numeral run_next_def signal_callback_ctrl_z_handler_def fun_upd_idem
      split: if_splits)

end
