(* ===== verification/FileWalk.thy ===== *)
theory FileWalk
  imports ProgramPath
begin

text \<open>
  The file tree walk of \<open>findfiles.cpp\<close> and its users: \<open>findfiles\<close>, the search for the JVM
  library in \<open>createjvm.cpp\<close> and the Java visitor of \<open>walk-file-tree.cpp\<close>. A directory is what
  \<open>readdir\<close> lists of it. The callback is any function on the caller's state that returns or
  throws. The recursion into directories takes fuel, because followed links can lead round in
  circles; the length limit of a path bounds it. Messages are given without the text of
  \<open>strerror\<close> at their end.
\<close>

section \<open>Visits\<close>

datatype visit_result = VR_CONTINUE | VR_TERMINATE | VR_SKIP_SUBTREE | VR_SKIP_SIBLINGS
datatype visit_kind = VK_POST_VISIT_DIRECTORY | VK_PRE_VISIT_DIRECTORY | VK_VISIT_FILE | VK_VISIT_FILE_FAILED

abbreviation DT_UNKNOWN :: nat where "DT_UNKNOWN \<equiv> 0"
abbreviation DT_DIR :: nat where "DT_DIR \<equiv> 4"
abbreviation DT_REG :: nat where "DT_REG \<equiv> 8"
abbreviation DT_LNK :: nat where "DT_LNK \<equiv> 10"

datatype ff_error = Findfiles_exception string | Out_of_fuel

type_synonym 'u findfiles_cb =
  "'u \<Rightarrow> string \<Rightarrow> string \<Rightarrow> int \<Rightarrow> nat \<Rightarrow> visit_kind \<Rightarrow> ff_error + visit_result \<times> 'u"

record find_files =
  separator_char :: char
  maxdepth :: int
  follow_links :: bool

abbreviation MAXDEPTH :: int where "MAXDEPTH \<equiv> 0x7FFFFFFF"

definition normalize_depth :: "int \<Rightarrow> int" where
  "normalize_depth depth = (if depth \<le> 0 then 1 else depth)"

record dir_env =
  de_readdir :: "string \<Rightarrow> (string \<times> nat) list option" \<comment> \<open>\<open>None\<close>: \<open>opendir\<close> fails\<close>
  de_stat :: "string \<Rightarrow> 32 word option"

unbundle bit_operations_syntax

section \<open>The walk\<close>

definition visit_dir ::
  "(int \<Rightarrow> string \<Rightarrow> 'u \<Rightarrow> ff_error + bool \<times> 'u) \<Rightarrow> 'u findfiles_cb \<Rightarrow> int \<Rightarrow> int \<Rightarrow> string \<Rightarrow> string \<Rightarrow> 'u \<Rightarrow>
   ff_error + bool \<times> int \<times> 'u" where
  \<comment> \<open>the first argument is the recursive call of \<open>walk_file_tree\<close>\<close>
  "visit_dir walk callback depth skip_sibs filepath filename u =
     bind_r (callback u filepath filename depth DT_DIR VK_PRE_VISIT_DIRECTORY) (\<lambda>(vr, u).
       (case vr of
          VR_TERMINATE \<Rightarrow> Inr (True, skip_sibs, u)
        | VR_SKIP_SUBTREE \<Rightarrow> Inr (False, skip_sibs, u)
        | VR_SKIP_SIBLINGS \<Rightarrow> Inr (False, depth, u)
        | VR_CONTINUE \<Rightarrow>
            bind_r (walk (depth + 1) filepath u) (\<lambda>(stop, u).
            bind_r (callback u filepath filename depth DT_DIR VK_POST_VISIT_DIRECTORY) (\<lambda>(vr, u).
              Inr (if vr = VR_TERMINATE then True else stop, skip_sibs, u)))))"

definition visit_file ::
  "'u findfiles_cb \<Rightarrow> int \<Rightarrow> int \<Rightarrow> string \<Rightarrow> string \<Rightarrow> nat \<Rightarrow> visit_kind \<Rightarrow> 'u \<Rightarrow> ff_error + bool \<times> int \<times> 'u" where
  "visit_file callback depth skip_sibs filepath filename d_type vk u =
     bind_r (callback u filepath filename depth d_type vk) (\<lambda>(vr, u).
       Inr (vr = VR_TERMINATE, if vr = VR_SKIP_SIBLINGS then depth else skip_sibs, u))"

definition entry_path :: "find_files \<Rightarrow> string \<Rightarrow> string \<Rightarrow> string" where
  "entry_path ff start_dir name =
     (let last_ch = last start_dir;
          no_explicit_sep_ch = (last_ch = kPathSeparator \<or> last_ch = separator_char ff)
      in if no_explicit_sep_ch then start_dir @ name else start_dir @ separator_char ff # name)"

abbreviation strbuf_size :: nat where "strbuf_size \<equiv> 2048"

definition visit_entry ::
  "find_files \<Rightarrow> dir_env \<Rightarrow> (int \<Rightarrow> string \<Rightarrow> 'u \<Rightarrow> ff_error + bool \<times> 'u) \<Rightarrow> 'u findfiles_cb \<Rightarrow> int \<Rightarrow> int \<Rightarrow> string \<Rightarrow>
   string \<Rightarrow> nat \<Rightarrow> 'u \<Rightarrow> ff_error + bool \<times> int \<times> 'u" where
  \<comment> \<open>the dispatch on the type of an entry whose path is \<open>strbuf\<close>\<close>
  "visit_entry ff env walk callback depth skip_sibs strbuf name d_type u =
     (if d_type = DT_UNKNOWN \<or> (d_type = DT_LNK \<and> follow_links ff) then
        (case de_stat env strbuf of
           None \<Rightarrow> visit_file callback depth skip_sibs strbuf name d_type VK_VISIT_FILE_FAILED u
         | Some mode \<Rightarrow>
             (if mode AND S_IFMT = S_IFDIR then
                (if depth < maxdepth ff then visit_dir walk callback depth skip_sibs strbuf name u
                 else Inr (False, skip_sibs, u))
              else if mode AND S_IFMT = S_IFREG
              then visit_file callback depth skip_sibs strbuf name DT_REG VK_VISIT_FILE u
              else Inr (False, skip_sibs, u)))
      else if d_type = DT_DIR then
        (if depth < maxdepth ff then visit_dir walk callback depth skip_sibs strbuf name u
         else Inr (False, skip_sibs, u))
      else visit_file callback depth skip_sibs strbuf name d_type VK_VISIT_FILE u)"

fun walk_entries ::
  "find_files \<Rightarrow> dir_env \<Rightarrow> (int \<Rightarrow> string \<Rightarrow> 'u \<Rightarrow> ff_error + bool \<times> 'u) \<Rightarrow> 'u findfiles_cb \<Rightarrow> int \<Rightarrow> string \<Rightarrow>
   (string \<times> nat) list \<Rightarrow> int \<Rightarrow> 'u \<Rightarrow> ff_error + bool \<times> 'u" where
  \<comment> \<open>the loop over \<open>readdir\<close>\<close>
  "walk_entries ff env walk callback depth start_dir [] skip_sibs u = Inr (False, u)"
| "walk_entries ff env walk callback depth start_dir ((name, d_type) # entries) skip_sibs u =
     (if depth = skip_sibs \<or> name = ''.'' \<or> name = ''..''
      then walk_entries ff env walk callback depth start_dir entries skip_sibs u
      else if length (entry_path ff start_dir name) \<ge> strbuf_size
      then Inl (Findfiles_exception (format2str (''failed forming full path name for '' @ [DQUOTE] @ name @ [DQUOTE])))
      else
        bind_r (visit_entry ff env walk callback depth skip_sibs (entry_path ff start_dir name) name d_type u)
          (\<lambda>(stop, skip_sibs, u).
             if stop then Inr (True, u)
             else walk_entries ff env walk callback depth start_dir entries skip_sibs u))"

primrec walk_dir ::
  "nat \<Rightarrow> find_files \<Rightarrow> dir_env \<Rightarrow> 'u findfiles_cb \<Rightarrow> int \<Rightarrow> string \<Rightarrow> 'u \<Rightarrow> ff_error + bool \<times> 'u" where
  \<comment> \<open>the private \<open>walk_file_tree(depth, start_dir, callback)\<close>\<close>
  "walk_dir 0 ff env callback depth start_dir u = Inl Out_of_fuel"
| "walk_dir (Suc fuel) ff env callback depth start_dir u =
     (case de_readdir env start_dir of
        None \<Rightarrow> Inl (Findfiles_exception
                  (format2str (''could not open specified directory '' @ [DQUOTE] @ start_dir @ [DQUOTE])))
      | Some entries \<Rightarrow>
          walk_entries ff env (walk_dir fuel ff env callback) callback depth start_dir entries 0 u)"

definition walk_file_tree ::
  "nat \<Rightarrow> find_files \<Rightarrow> dir_env \<Rightarrow> 'u findfiles_cb \<Rightarrow> string \<Rightarrow> 'u \<Rightarrow> ff_error + bool \<times> 'u" where
  \<comment> \<open>the answer of the callback for the start directory is not used\<close>
  "walk_file_tree fuel ff env callback start_dir u =
     bind_r (callback u start_dir (basename start_dir) 0 DT_DIR VK_PRE_VISIT_DIRECTORY) (\<lambda>(vr, u).
       walk_dir fuel ff env callback 1 start_dir u)"

section \<open>The users of the walk\<close>

definition findfiles_cb :: "('u \<Rightarrow> string \<Rightarrow> string \<Rightarrow> bool \<times> 'u) \<Rightarrow> 'u findfiles_cb" where
  "findfiles_cb cb u filepath filename depth d_type vk =
     (if d_type = DT_DIR then Inr (VR_CONTINUE, u)
      else if d_type = DT_REG
      then (let (found, u) = cb u filepath filename in Inr (if found then VR_TERMINATE else VR_CONTINUE, u))
      else Inl (Findfiles_exception (format2str (''findfiles() unexpected file tree node type '' @
             [char_of d_type] @ '' for '' @ [DQUOTE] @ filepath @ [DQUOTE]))))"

definition findfiles ::
  "nat \<Rightarrow> dir_env \<Rightarrow> ('u \<Rightarrow> string \<Rightarrow> string \<Rightarrow> bool \<times> 'u) \<Rightarrow> string \<Rightarrow> 'u \<Rightarrow> ff_error + bool \<times> 'u" where
  "findfiles fuel env cb start_dir u =
     walk_file_tree fuel \<lparr>separator_char = kPathSeparator, maxdepth = MAXDEPTH, follow_links = True\<rparr> env
       (findfiles_cb cb) start_dir u"

definition jvmlib_name :: string where "jvmlib_name = ''libjvm.so''"

definition jvmlib_cb :: "string \<Rightarrow> string \<Rightarrow> string \<Rightarrow> bool \<times> string" where
  "jvmlib_cb jvmlib filepath filename =
     (if strcaseeq filename jvmlib_name then (True, filepath) else (False, jvmlib))"

definition determine_jvmlib_path :: "nat \<Rightarrow> dir_env \<Rightarrow> string \<Rightarrow> string" where
  \<comment> \<open>an exception of the search leaves the captured variable as it is\<close>
  "determine_jvmlib_path fuel env java_home_path =
     (case findfiles fuel env jvmlib_cb java_home_path jvmlib_name of
        Inr (found, jvmlib) \<Rightarrow> jvmlib
      | Inl e \<Rightarrow> jvmlib_name)"

section \<open>The Java visitor\<close>

text \<open>The four methods of \<open>WalkFileTreeVisitor\<close>, each on the visitor's state and the path.\<close>

record 'u java_visitor =
  jv_preVisitDirectory :: "'u \<Rightarrow> string \<Rightarrow> int \<times> 'u"
  jv_visitFile :: "'u \<Rightarrow> string \<Rightarrow> int \<times> 'u"
  jv_visitFileFailed :: "'u \<Rightarrow> string \<Rightarrow> int \<times> 'u"
  jv_postVisitDirectory :: "'u \<Rightarrow> string \<Rightarrow> int \<times> 'u"

definition visit_result_of :: "int \<Rightarrow> visit_result" where
  \<comment> \<open>the cast to \<open>VisitResult\<close>; every \<open>switch\<close> treats other values like \<open>CONTINUE\<close>\<close>
  "visit_result_of rtn =
     (let c = rtn mod 256 in
      if c = 1 then VR_TERMINATE else if c = 2 then VR_SKIP_SUBTREE else if c = 3 then VR_SKIP_SIBLINGS else VR_CONTINUE)"

definition java_walk_cb :: "'u java_visitor \<Rightarrow> 'u findfiles_cb" where
  "java_walk_cb visitor u filepath filename depth d_type vk =
     (let (rtn, u) =
        (if d_type = DT_DIR then
           (case vk of
              VK_POST_VISIT_DIRECTORY \<Rightarrow> jv_postVisitDirectory visitor u filepath
            | VK_PRE_VISIT_DIRECTORY \<Rightarrow> jv_preVisitDirectory visitor u filepath
            | _ \<Rightarrow> (0, u))
         else jv_visitFile visitor u filepath)
      in Inr (visit_result_of rtn, u))"

definition java_walk_file_tree ::
  "nat \<Rightarrow> dir_env \<Rightarrow> char \<Rightarrow> int \<Rightarrow> bool \<Rightarrow> string \<Rightarrow> 'u java_visitor \<Rightarrow> 'u \<Rightarrow> ff_error + bool \<times> 'u" where
  "java_walk_file_tree fuel env sep max_depth follow start_dir visitor u =
     walk_file_tree fuel \<lparr>separator_char = sep, maxdepth = normalize_depth max_depth, follow_links = follow\<rparr> env
       (java_walk_cb visitor) start_dir u"

section \<open>Invariants of the callback\<close>

text \<open>
  A relation that every callback keeps is kept by the walk. \<open>R\<close> may use how the path a callback
  gets is formed: the name at the end, shorter than the buffer.
\<close>

definition call_path_ok :: "string \<Rightarrow> string \<Rightarrow> string \<Rightarrow> bool" where
  \<comment> \<open>the path of an entry found under \<open>start\<close>\<close>
  "call_path_ok start filepath filename =
     (length filepath < strbuf_size \<and> take (length start) filepath = start \<and>
      (\<exists>d. filepath = d @ filename \<and> length start \<le> length d))"

definition cb_keeps :: "('u \<Rightarrow> bool) \<Rightarrow> string \<Rightarrow> 'u findfiles_cb \<Rightarrow> bool" where
  "cb_keeps I start cb = (\<forall>u p n d t k vr u'. I u \<longrightarrow> call_path_ok start p n \<longrightarrow> cb u p n d t k = Inr (vr, u') \<longrightarrow> I u')"

lemma entry_path_ok:
  assumes "length (entry_path ff p name) < strbuf_size" and "take (length start) p = start"
  shows "call_path_ok start (entry_path ff p name) name"
proof -
  have l: "length start \<le> length p" using assms(2) by (metis length_take min.cobounded1)
  have "\<exists>d. entry_path ff p name = d @ name \<and> length start \<le> length d \<and> take (length start) d = start"
  proof (cases "last p = kPathSeparator \<or> last p = separator_char ff")
    case True
    with l assms(2) show ?thesis by (intro exI [where x = p]) (auto simp: entry_path_def)
  next
    case False
    with l assms(2) show ?thesis by (intro exI [where x = "p @ [separator_char ff]"]) (auto simp: entry_path_def)
  qed
  with assms show ?thesis by (auto simp: call_path_ok_def)
qed

lemma visit_dir_keeps:
  assumes "cb_keeps I start cb" and "call_path_ok start p n"
    and "\<And>d u st u'. I u \<Longrightarrow> walk d p u = Inr (st, u') \<Longrightarrow> I u'"
    and "I u" and "visit_dir walk cb depth sk p n u = Inr (st, sk', u')"
  shows "I u'"
proof -
  have k: "\<And>u d t k vr u'. I u \<Longrightarrow> cb u p n d t k = Inr (vr, u') \<Longrightarrow> I u'"
    using assms(1,2) by (auto simp: cb_keeps_def)
  from assms(5) obtain vr u1 where c: "cb u p n depth DT_DIR VK_PRE_VISIT_DIRECTORY = Inr (vr, u1)"
    by (auto simp: visit_dir_def bind_r_Inr)
  from k [OF assms(4) c] have "I u1" .
  with assms(5) c show ?thesis
    by (cases vr) (auto simp: visit_dir_def bind_r_Inr dest: assms(3) k)
qed

lemma visit_entry_keeps:
  assumes "cb_keeps I start cb" and "call_path_ok start p n"
    and "\<And>d u st u'. I u \<Longrightarrow> walk d p u = Inr (st, u') \<Longrightarrow> I u'"
    and "I u" and "visit_entry ff env walk cb depth sk p n t u = Inr (st, sk', u')"
  shows "I u'"
proof -
  have k: "\<And>u d t k vr u'. I u \<Longrightarrow> cb u p n d t k = Inr (vr, u') \<Longrightarrow> I u'"
    using assms(1,2) by (auto simp: cb_keeps_def)
  have d: "visit_dir walk cb depth sk p n u = Inr (st, sk', u') \<Longrightarrow> I u'"
    by (rule visit_dir_keeps [OF assms(1,2) _ assms(4)]) (rule assms(3))
  have f: "visit_file cb depth sk p n t k u = Inr (st, sk', u') \<Longrightarrow> I u'" for t k
    using k assms(4) by (auto simp: visit_file_def bind_r_Inr)
  show ?thesis using assms(4,5) d f
    by (auto simp: visit_entry_def split: if_splits option.splits)
qed

lemma walk_entries_keeps:
  assumes "cb_keeps I start cb" and "take (length start) p = start"
    and "\<And>d q u st u'. take (length start) q = start \<Longrightarrow> I u \<Longrightarrow> walk d q u = Inr (st, u') \<Longrightarrow> I u'"
  shows "I u \<Longrightarrow> walk_entries ff env walk cb depth p es sk u = Inr (st, u') \<Longrightarrow> I u'"
proof (induction es arbitrary: sk u)
  case Nil
  then show ?case by simp
next
  case (Cons e es)
  obtain n t where e: "e = (n, t)" by (cases e)
  show ?case
  proof (cases "depth = sk \<or> n = ''.'' \<or> n = ''..''")
    case True
    with Cons e show ?thesis by auto
  next
    case False
    with Cons.prems e have l: "length (entry_path ff p n) < strbuf_size" by (auto split: if_splits)
    note ok = entry_path_ok [OF l assms(2)]
    from False l Cons.prems e obtain stop sk1 u1
      where v: "visit_entry ff env walk cb depth sk (entry_path ff p n) n t u = Inr (stop, sk1, u1)"
        and r: "if stop then st \<and> u' = u1 else walk_entries ff env walk cb depth p es sk1 u1 = Inr (st, u')"
      by (auto simp: bind_r_Inr split: if_splits)
    have "I u1"
      by (rule visit_entry_keeps [OF assms(1) ok _ Cons.prems(1) v])
         (rule assms(3), rule conjunct1 [OF conjunct2 [OF ok [unfolded call_path_ok_def]]])
    with r Cons.IH show ?thesis by (auto split: if_splits)
  qed
qed

lemma walk_dir_keeps:
  assumes "cb_keeps I start cb"
  shows "take (length start) p = start \<Longrightarrow> I u \<Longrightarrow> walk_dir fuel ff env cb depth p u = Inr (st, u') \<Longrightarrow> I u'"
proof (induction fuel arbitrary: depth p u st u')
  case (Suc fuel)
  obtain es where w: "walk_entries ff env (walk_dir fuel ff env cb) cb depth p es 0 u = Inr (st, u')"
    using Suc.prems(3) by (auto split: option.splits)
  show ?case
    by (rule walk_entries_keeps [OF assms Suc.prems(1) _ Suc.prems(2) w]) (rule Suc.IH)
qed simp

section \<open>The walk ends\<close>

definition names_ok :: "dir_env \<Rightarrow> bool" where
  "names_ok env = (\<forall>p es. de_readdir env p = Some es \<longrightarrow> (\<forall>(n, t)\<in>set es. n \<noteq> []))"

definition cb_fuel :: "'u findfiles_cb \<Rightarrow> bool" where
  "cb_fuel cb = (\<forall>u p n d t k. cb u p n d t k \<noteq> Inl Out_of_fuel)"

lemma bind_r_Inl: "bind_r m f = Inl e \<longleftrightarrow> m = Inl e \<or> (\<exists>a. m = Inr a \<and> f a = Inl e)"
  by (cases m) auto

lemma visit_entry_fuel:
  assumes "cb_fuel cb" and "\<And>d u. walk d p u \<noteq> Inl Out_of_fuel"
  shows "visit_entry ff env walk cb depth sk p n t u \<noteq> Inl Out_of_fuel"
proof -
  have "visit_dir walk cb depth sk p n u \<noteq> Inl Out_of_fuel"
    using assms by (auto simp: visit_dir_def bind_r_Inl cb_fuel_def split: visit_result.splits)
  moreover have "visit_file cb depth sk p n t k u \<noteq> Inl Out_of_fuel" for t k
    using assms(1) by (auto simp: visit_file_def bind_r_Inl cb_fuel_def)
  ultimately show ?thesis by (auto simp: visit_entry_def split: option.splits)
qed

lemma walk_entries_fuel:
  assumes "cb_fuel cb" and "\<And>d q u. length p < length q \<Longrightarrow> length q < strbuf_size \<Longrightarrow> walk d q u \<noteq> Inl Out_of_fuel"
  shows "(\<forall>(n, t)\<in>set es. n \<noteq> []) \<Longrightarrow> walk_entries ff env walk cb depth p es sk u \<noteq> Inl Out_of_fuel"
proof (induction es arbitrary: sk u)
  case Nil
  then show ?case by simp
next
  case (Cons e es)
  obtain n t where e: "e = (n, t)" by (cases e)
  have l: "length p < length (entry_path ff p n)" using Cons.prems e by (auto simp: entry_path_def Let_def)
  have "visit_entry ff env walk cb depth sk (entry_path ff p n) n t u \<noteq> Inl Out_of_fuel"
    if "length (entry_path ff p n) < strbuf_size"
    by (rule visit_entry_fuel [OF assms(1)]) (rule assms(2) [OF l that])
  with Cons e show ?case by (auto simp: bind_r_Inl not_le split: if_splits)
qed

lemma walk_dir_fuel:
  assumes "cb_fuel cb" and "names_ok env"
  shows "strbuf_size - length p < fuel \<Longrightarrow> walk_dir fuel ff env cb depth p u \<noteq> Inl Out_of_fuel"
proof (induction fuel arbitrary: depth p u)
  case 0
  then show ?case by simp
next
  case (Suc fuel)
  show ?case
  proof (cases "de_readdir env p")
    case None
    then show ?thesis by simp
  next
    case (Some es)
    have "walk_entries ff env (walk_dir fuel ff env cb) cb depth p es 0 u \<noteq> Inl Out_of_fuel"
    proof (rule walk_entries_fuel [OF assms(1)])
      fix d and q :: string and u'
      assume "length p < length q" and "length q < strbuf_size"
      with Suc.prems have "strbuf_size - length q < fuel" by linarith
      then show "walk_dir fuel ff env cb d q u' \<noteq> Inl Out_of_fuel" by (rule Suc.IH)
    next
      show "\<forall>(n, t)\<in>set es. n \<noteq> []" using assms(2) Some by (auto simp: names_ok_def)
    qed
    with Some show ?thesis by simp
  qed
qed

text \<open>
  C25. The walk ends on every directory tree, also when followed links run in circles: 2049
  nested directories are enough fuel, because each level makes the path longer and a path that
  does not fit the 2048-byte buffer raises an exception.
\<close>

theorem walk_file_tree_ends:
  assumes "names_ok env" and "cb_fuel cb"
  shows "walk_file_tree 2049 ff env cb start_dir u \<noteq> Inl Out_of_fuel"
proof -
  have "walk_dir 2049 ff env cb 1 start_dir u' \<noteq> Inl Out_of_fuel" for u'
    by (rule walk_dir_fuel [OF assms(2,1)]) simp
  then show ?thesis using assms(2) by (auto simp: walk_file_tree_def bind_r_Inl cb_fuel_def)
qed

definition loop_env :: dir_env where
  \<comment> \<open>every directory holds itself again\<close>
  "loop_env = \<lparr>de_readdir = (\<lambda>p. Some [(''.'', 4), (''d'', 4)]), de_stat = (\<lambda>p. Some 0x41ED)\<rparr>"

theorem walk_file_tree_ends_witness:
  "walk_file_tree 2049 \<lparr>separator_char = CHR 0x2F, maxdepth = MAXDEPTH, follow_links = True\<rparr> loop_env (\<lambda>u p n d t k. Inr (VR_CONTINUE, u)) ''/'' () \<noteq> Inl Out_of_fuel"
  by (rule walk_file_tree_ends) (simp_all add: names_ok_def loop_env_def cb_fuel_def)

section \<open>Stopping\<close>

text \<open>The calls a callback receives and its answers.\<close>

type_synonym visit_log = "(visit_kind \<times> visit_result) list"

definition logged_cb :: "'u findfiles_cb \<Rightarrow> ('u \<times> visit_log) findfiles_cb" where
  "logged_cb cb u p n d t k =
     (case cb (fst u) p n d t k of
        Inl e \<Rightarrow> Inl e
      | Inr (vr, u') \<Rightarrow> Inr (vr, (u', snd u @ [(k, vr)])))"

definition no_stop :: "visit_log \<Rightarrow> bool" where
  "no_stop l = list_all (\<lambda>(k, vr). vr \<noteq> VR_TERMINATE) l"

definition stopped :: "visit_log \<Rightarrow> bool" where
  "stopped l = (\<exists>a k b. l = a @ (k, VR_TERMINATE) # b \<and> no_stop a \<and>
     list_all (\<lambda>(k, vr). k = VK_POST_VISIT_DIRECTORY) b)"

definition walk_log_ok :: "visit_log \<Rightarrow> bool \<Rightarrow> visit_log \<Rightarrow> bool" where
  "walk_log_ok l stop l' = (no_stop l \<longrightarrow> (if stop then stopped l' else no_stop l'))"

lemma no_stop_snoc: "no_stop (l @ [(k, vr)]) = (no_stop l \<and> vr \<noteq> VR_TERMINATE)"
  by (simp add: no_stop_def)

lemma stopped_snoc: "no_stop l \<Longrightarrow> stopped (l @ [(k, VR_TERMINATE)])"
  unfolding stopped_def by (intro exI [where x = l] exI [where x = k] exI [where x = "[]"]) simp

lemma stopped_post:
  assumes "stopped l"
  shows "stopped (l @ [(VK_POST_VISIT_DIRECTORY, vr)])"
proof -
  obtain a k b where l: "l = a @ (k, VR_TERMINATE) # b" and ok: "no_stop a"
      "list_all (\<lambda>(k, vr). k = VK_POST_VISIT_DIRECTORY) b"
    using assms by (auto simp: stopped_def)
  have "l @ [(VK_POST_VISIT_DIRECTORY, vr)] = a @ (k, VR_TERMINATE) # (b @ [(VK_POST_VISIT_DIRECTORY, vr)])"
    by (simp add: l)
  moreover have "list_all (\<lambda>(k, vr). k = VK_POST_VISIT_DIRECTORY) (b @ [(VK_POST_VISIT_DIRECTORY, vr)])"
    using ok(2) by simp
  ultimately show ?thesis using ok(1) unfolding stopped_def by blast
qed

lemma logged_cb_Inr: "logged_cb cb u p n d t k = Inr (vr, u') \<Longrightarrow> snd u' = snd u @ [(k, vr)]"
  by (auto simp: logged_cb_def split: sum.splits)

lemma visit_file_log:
  "visit_file (logged_cb cb) depth sk p n t k u = Inr (st, sk', u') \<Longrightarrow> walk_log_ok (snd u) st (snd u')"
  by (auto simp: visit_file_def bind_r_Inr walk_log_ok_def no_stop_snoc stopped_snoc dest!: logged_cb_Inr)

lemma visit_dir_log:
  assumes "\<And>d u st u'. walk d p u = Inr (st, u') \<Longrightarrow> walk_log_ok (snd u) st (snd u')"
    and "visit_dir walk (logged_cb cb) depth sk p n u = Inr (st, sk', u')"
  shows "walk_log_ok (snd u) st (snd u')"
proof -
  from assms(2) obtain vr u1 where c: "logged_cb cb u p n depth DT_DIR VK_PRE_VISIT_DIRECTORY = Inr (vr, u1)"
    by (auto simp: visit_dir_def bind_r_Inr)
  note u1 = logged_cb_Inr [OF c]
  show ?thesis
  proof (cases "vr = VR_CONTINUE")
    case True
    with assms(2) c obtain st2 u2 vr3 u3 where w: "walk (depth + 1) p u1 = Inr (st2, u2)"
      and c3: "logged_cb cb u2 p n depth DT_DIR VK_POST_VISIT_DIRECTORY = Inr (vr3, u3)"
      and r: "st = (vr3 = VR_TERMINATE \<or> st2)" "u' = u3"
      by (auto simp: visit_dir_def bind_r_Inr split: if_splits)
    from assms(1) [OF w] True show ?thesis
      unfolding r walk_log_ok_def u1 logged_cb_Inr [OF c3] no_stop_snoc
      by (cases "vr3 = VR_TERMINATE"; cases st2) (auto intro: stopped_post stopped_snoc)
  next
    case False
    with assms(2) c u1 show ?thesis
      by (cases vr) (auto simp: visit_dir_def walk_log_ok_def no_stop_snoc stopped_snoc)
  qed
qed

lemma visit_entry_log:
  assumes "\<And>d u st u'. walk d p u = Inr (st, u') \<Longrightarrow> walk_log_ok (snd u) st (snd u')"
    and "visit_entry ff env walk (logged_cb cb) depth sk p n t u = Inr (st, sk', u')"
  shows "walk_log_ok (snd u) st (snd u')"
  using assms(2) visit_dir_log [of walk p, OF assms(1)] visit_file_log [of cb depth sk p n _ _ u st sk' u']
  by (auto simp: visit_entry_def walk_log_ok_def split: if_splits option.splits)

lemma walk_entries_log:
  assumes "\<And>d q u st u'. walk d q u = Inr (st, u') \<Longrightarrow> walk_log_ok (snd u) st (snd u')"
  shows "walk_entries ff env walk (logged_cb cb) depth p es sk u = Inr (st, u') \<Longrightarrow> walk_log_ok (snd u) st (snd u')"
proof (induction es arbitrary: sk u)
  case Nil
  then show ?case by (simp add: walk_log_ok_def)
next
  case (Cons e es)
  obtain n t where e: "e = (n, t)" by (cases e)
  show ?case
  proof (cases "depth = sk \<or> n = ''.'' \<or> n = ''..''")
    case True
    with Cons e show ?thesis by auto
  next
    case False
    with Cons.prems e obtain stop sk1 u1
      where v: "visit_entry ff env walk (logged_cb cb) depth sk (entry_path ff p n) n t u = Inr (stop, sk1, u1)"
        and r: "if stop then st \<and> u' = u1 else walk_entries ff env walk (logged_cb cb) depth p es sk1 u1 = Inr (st, u')"
      by (auto simp: bind_r_Inr split: if_splits)
    have "walk_log_ok (snd u) stop (snd u1)" by (rule visit_entry_log [OF assms v])
    with r Cons.IH [of sk1 u1] show ?thesis by (auto simp: walk_log_ok_def split: if_splits)
  qed
qed

lemma walk_dir_log:
  "walk_dir fuel ff env (logged_cb cb) depth p u = Inr (st, u') \<Longrightarrow> walk_log_ok (snd u) st (snd u')"
proof (induction fuel arbitrary: depth p u st u')
  case (Suc fuel)
  obtain es where w: "walk_entries ff env (walk_dir fuel ff env (logged_cb cb)) (logged_cb cb) depth p es 0 u = Inr (st, u')"
    using Suc.prems by (auto split: option.splits)
  show ?case by (rule walk_entries_log [OF _ w]) (rule Suc.IH)
qed simp

text \<open>
  Below the start directory, the walk reports that it was stopped exactly when the callback
  answered \<open>TERMINATE\<close>, and from that answer on it only makes the post-visit calls of the
  directories that are still open; whatever the callback answers otherwise, the walk goes on.
\<close>

theorem walk_stops:
  assumes "walk_dir fuel ff env (logged_cb cb) depth start_dir (u, []) = Inr (stop, u', l)"
  shows "if stop then stopped l else no_stop l"
  using walk_dir_log [OF assms] by (simp add: walk_log_ok_def no_stop_def)

definition file_env1 :: dir_env where
  "file_env1 = \<lparr>de_readdir = (\<lambda>p. if p = ''/j'' then Some [(''lib'', 4), (''z'', 8)]
       else if p = ''/j/lib'' then Some [(''a'', 8), (''libjvm.so'', 8)] else None), de_stat = (\<lambda>p. None)\<rparr>"

theorem walk_stops_witness:
  "\<exists>l. walk_dir 5 \<lparr>separator_char = CHR ''/'', maxdepth = 9, follow_links = True\<rparr> file_env1
      (logged_cb (findfiles_cb jvmlib_cb)) 1 ''/j'' ([], []) = Inr (True, ''/j/lib/libjvm.so'', l) \<and> stopped l"
proof -
  have "(case walk_dir 5 \<lparr>separator_char = CHR ''/'', maxdepth = 9, follow_links = True\<rparr> file_env1
      (logged_cb (findfiles_cb jvmlib_cb)) 1 ''/j'' ([], []) of
        Inr (stop, u, l) \<Rightarrow> stop \<and> u = ''/j/lib/libjvm.so'' | Inl e \<Rightarrow> False)"
    by code_simp
  then obtain l where w: "walk_dir 5 \<lparr>separator_char = CHR ''/'', maxdepth = 9, follow_links = True\<rparr> file_env1
      (logged_cb (findfiles_cb jvmlib_cb)) 1 ''/j'' ([], []) = Inr (True, ''/j/lib/libjvm.so'', l)"
    by (auto split: sum.splits prod.splits)
  from walk_stops [OF this] w show ?thesis by auto
qed

section \<open>The search for the JVM library\<close>

definition jvmlib_ok :: "string \<Rightarrow> string \<Rightarrow> bool" where
  "jvmlib_ok home lib =
     (lib = jvmlib_name \<or> (\<exists>d n. lib = d @ n \<and> strcaseeq n jvmlib_name \<and> take (length home) lib = home \<and>
        length lib < strbuf_size))"

text \<open>
  The JVM library the launcher opens is either the bare name, left to the dynamic loader,
  or the path of a file of that name, in any letter case, below the Java home directory.
\<close>

theorem jvmlib_path_ok: "jvmlib_ok home (determine_jvmlib_path fuel env home)"
proof -
  have k: "cb_keeps (jvmlib_ok home) home (findfiles_cb jvmlib_cb)"
    by (auto simp: cb_keeps_def findfiles_cb_def jvmlib_cb_def jvmlib_ok_def call_path_ok_def split: if_splits)
  show ?thesis
  proof (cases "findfiles fuel env jvmlib_cb home jvmlib_name")
    case (Inl e)
    then show ?thesis by (simp add: determine_jvmlib_path_def jvmlib_ok_def)
  next
    case (Inr r)
    obtain stop lib where r: "r = (stop, lib)" by (cases r)
    from Inr r have "walk_dir fuel \<lparr>separator_char = kPathSeparator, maxdepth = MAXDEPTH, follow_links = True\<rparr> env
        (findfiles_cb jvmlib_cb) 1 home jvmlib_name = Inr (stop, lib)"
      by (auto simp: findfiles_def walk_file_tree_def findfiles_cb_def bind_r_Inr)
    then have "jvmlib_ok home lib"
      by (rule walk_dir_keeps [OF k, rotated 2]) (simp_all add: jvmlib_ok_def)
    with Inr r show ?thesis by (simp add: determine_jvmlib_path_def)
  qed
qed

text \<open>
  The Java visitor's \<open>visitFileFailed\<close> is never called: replacing it by anything changes no
  walk, although the walk reports failed files to its callback.
\<close>

theorem visit_file_failed_unused:
  "java_walk_file_tree fuel env sep md follow start (visitor\<lparr>jv_visitFileFailed := f\<rparr>) u =
   java_walk_file_tree fuel env sep md follow start visitor u"
proof -
  have "java_walk_cb (visitor\<lparr>jv_visitFileFailed := f\<rparr>) = java_walk_cb visitor"
    by (intro ext) (simp add: java_walk_cb_def split: visit_kind.splits)
  then show ?thesis by (simp add: java_walk_file_tree_def)
qed

end
