(* ===== verification/NativeCalls.thy ===== *)
theory NativeCalls
  imports LaunchProgram
begin

text \<open>
  The smaller native methods of \<open>launch-program.cpp\<close> and \<open>walk-file-tree.cpp\<close> that Java calls: the
  signals of \<open>spartan.LaunchProgram\<close>, the interruption of a system thread and the flush of a
  directory; and the environment of the program, which \<open>spartan.cpp\<close> reads once. The system calls
  are parameters, \<open>strerror\<close> is left out of the messages.
\<close>

section \<open>Signals\<close>

abbreviation SIGINT_nr :: int where "SIGINT_nr \<equiv> 2"
abbreviation SIGKILL_nr :: int where "SIGKILL_nr \<equiv> 9"
abbreviation SIGTERM_nr :: int where "SIGTERM_nr \<equiv> 15"

definition killSIGINT :: "(int \<Rightarrow> int \<Rightarrow> int) \<Rightarrow> int \<Rightarrow> java_exception option" where
  "killSIGINT kill pid = killpid_helper kill pid SIGINT_nr"

definition killSIGTERM :: "(int \<Rightarrow> int \<Rightarrow> int) \<Rightarrow> int \<Rightarrow> java_exception option" where
  "killSIGTERM kill pid = killpid_helper kill pid SIGTERM_nr"

definition killSIGKILL :: "(int \<Rightarrow> int \<Rightarrow> int) \<Rightarrow> int \<Rightarrow> java_exception option" where
  "killSIGKILL kill pid = killpid_helper kill pid SIGKILL_nr"

definition killProcessGroupSIGINT :: "(int \<Rightarrow> int) \<Rightarrow> (int \<Rightarrow> int \<Rightarrow> int) \<Rightarrow> int \<Rightarrow> java_exception option" where
  "killProcessGroupSIGINT getpgid killpg pid = killpg_helper getpgid killpg pid SIGINT_nr"

definition killProcessGroupSIGTERM :: "(int \<Rightarrow> int) \<Rightarrow> (int \<Rightarrow> int \<Rightarrow> int) \<Rightarrow> int \<Rightarrow> java_exception option" where
  "killProcessGroupSIGTERM getpgid killpg pid = killpg_helper getpgid killpg pid SIGTERM_nr"

definition killProcessGroupSIGKILL :: "(int \<Rightarrow> int) \<Rightarrow> (int \<Rightarrow> int \<Rightarrow> int) \<Rightarrow> int \<Rightarrow> java_exception option" where
  "killProcessGroupSIGKILL getpgid killpg pid = killpg_helper getpgid killpg pid SIGKILL_nr"

lemma killpid_exception: "killpid_helper kill pid sig = None \<longleftrightarrow> kill pid sig \<noteq> -1"
  by (simp add: killpid_helper_def)

text \<open>\<open>kill\<close> and \<open>killpg\<close> of a group that exists: the exceptions tell which call failed.\<close>

lemma killpg_exception:
  "killpg_helper getpgid killpg pid sig =
     (if getpgid pid = -1 then Some Kill_process_exception
      else if killpg (getpgid pid) sig = -1 then Some Kill_process_group_exception else None)"
  by (simp add: killpg_helper_def Let_def)

record interrupt_state =
  termination_flag :: bool
  it_pid :: int
  it_signals :: "(int \<times> int \<times> int) list" \<comment> \<open>process, thread and signal of each \<open>tgkill\<close>\<close>
  it_log :: "(logging_level \<times> string) list"

datatype runtime_exception = Runtime_exception string

definition sysThreadInterrupt ::
  "(int \<Rightarrow> int \<Rightarrow> int \<Rightarrow> int) \<Rightarrow> int \<Rightarrow> interrupt_state \<Rightarrow> runtime_exception option \<times> interrupt_state" where
  "sysThreadInterrupt tgkill sysThrdId st =
     (let st = st\<lparr>it_log := it_log st @ [(DEBUG, ''>> Java_spartan_LaunchProgram_sysThreadInterrupt()'')]\<rparr>;
          st = st\<lparr>termination_flag := True\<rparr>;
          rc = tgkill (it_pid st) sysThrdId SIGINT_nr;
          st = st\<lparr>it_signals := it_signals st @ [(it_pid st, sysThrdId, SIGINT_nr)]\<rparr>;
          ex = (if rc = -1
                then Some (Runtime_exception (vformat2str (''failed interrupting sys thread (id:'' @ show_int sysThrdId @ ''):'')))
                else None)
      in (ex, st\<lparr>it_log := it_log st @ [(DEBUG, ''<< Java_spartan_LaunchProgram_sysThreadInterrupt()'')]\<rparr>))"

section \<open>Flushing a directory\<close>

record fsync_env =
  fe_opendir :: "string \<Rightarrow> bool"
  fe_dirfd :: "string \<Rightarrow> bool"
  fe_fsync :: "string \<Rightarrow> bool"
  fe_pid :: int

datatype fsync_error = Fsync_dir_exception string

record fsync_state =
  fs_open_dirs :: "string list"
  fs_flushed :: "string list"
  fs_log :: "(logging_level \<times> string) list"

definition fsync_throw :: "string \<Rightarrow> string \<Rightarrow> fsync_state \<Rightarrow> (fsync_error + unit) \<times> fsync_state" where
  "fsync_throw msg dir s = (Inl (Fsync_dir_exception (format2str (msg @ [DQUOTE] @ dir @ [DQUOTE, CHR '':'']))), s)"

definition flush_open_dir :: "fsync_env \<Rightarrow> string \<Rightarrow> fsync_state \<Rightarrow> (fsync_error + unit) \<times> fsync_state" where
  "flush_open_dir env dir s =
     (if \<not> fe_dirfd env dir then fsync_throw ''dirfd() could not get directory file descriptor for '' dir s
      else if \<not> fe_fsync env dir then fsync_throw ''fsync() failed for '' dir s
      else (Inr (), s\<lparr>fs_flushed := fs_flushed s @ [dir]\<rparr>))"

definition fsync_try :: "fsync_env \<Rightarrow> string \<Rightarrow> fsync_state \<Rightarrow> (fsync_error + unit) \<times> fsync_state" where
  \<comment> \<open>the \<open>try\<close> block; \<open>dir_sp\<close> closes the directory at its end\<close>
  "fsync_try env dir s =
     (if \<not> fe_opendir env dir then fsync_throw ''could not open specified directory '' dir s
      else (let s = s\<lparr>fs_open_dirs := dir # fs_open_dirs s\<rparr>;
                (r, s) = flush_open_dir env dir s
            in (r, s\<lparr>fs_open_dirs := remove1 dir (fs_open_dirs s)\<rparr>)))"

datatype native_end = Native_returns | Native_exit int

definition fsyncDirectory :: "fsync_env \<Rightarrow> string \<Rightarrow> fsync_state \<Rightarrow> native_end \<times> fsync_state" where
  "fsyncDirectory env dir s =
     (case fsync_try env dir s of
        (Inr _, s) \<Rightarrow> (Native_returns, s)
      | (Inl (Fsync_dir_exception what), s) \<Rightarrow>
          (Native_exit EXIT_FAILURE, s\<lparr>fs_log := fs_log s @ [(ERR, ''process '' @ show_int (fe_pid env) @
             '': spartan.io.Files.Java_spartan_util_io_Files_fsyncDirectory() fsync_dir_exception: '' @ what)]\<rparr>))"

text \<open>
  A directory that cannot be flushed ends the whole process, whatever the reason; Java gets no
  exception. Otherwise the directory was flushed and is closed again.
\<close>

theorem fsync_or_exit:
  "(case fsyncDirectory env dir s of
      (Native_returns, s') \<Rightarrow> fe_opendir env dir \<and> fe_dirfd env dir \<and> fe_fsync env dir \<and>
        fs_flushed s' = fs_flushed s @ [dir] \<and> fs_open_dirs s' = fs_open_dirs s
    | (Native_exit n, s') \<Rightarrow> n = EXIT_FAILURE \<and> \<not> (fe_opendir env dir \<and> fe_dirfd env dir \<and> fe_fsync env dir) \<and>
        fs_flushed s' = fs_flushed s \<and> fs_open_dirs s' = fs_open_dirs s)"
  by (simp add: fsyncDirectory_def fsync_try_def flush_open_dir_def fsync_throw_def Let_def)

section \<open>The environment\<close>

definition env_var_or_assert :: "(string \<Rightarrow> string option) \<Rightarrow> string \<Rightarrow> bool \<Rightarrow> string option" where
  \<comment> \<open>\<open>None\<close>: the assertion fails, which it does in the release build too\<close>
  "env_var_or_assert getenv name do_assert =
     (let val = getenv name in
      if val = None \<and> do_assert then None else Some (case val of Some v \<Rightarrow> v | None \<Rightarrow> []))"

text \<open>
  \<open>java_classpath\<close> and \<open>java_home_path\<close> read their variable in the call that finds the flag unset.
  The view they cache starts out null, and the two steps are separate: a thread that comes
  between them gets the null pointer.
\<close>

record env_cache =
  s_classpath_flag :: bool
  s_java_home_flag :: bool
  s_java_classpath :: "string option" \<comment> \<open>\<open>None\<close>: the null view\<close>
  s_java_home_path :: "string option"

definition env_cache_init :: env_cache where
  "env_cache_init = \<lparr>s_classpath_flag = False, s_java_home_flag = False, s_java_classpath = None, s_java_home_path = None\<rparr>"

definition classpath_exchange :: "env_cache \<Rightarrow> bool \<times> env_cache" where
  "classpath_exchange c = (s_classpath_flag c, c\<lparr>s_classpath_flag := True\<rparr>)"

definition classpath_assign :: "(string \<Rightarrow> string option) \<Rightarrow> env_cache \<Rightarrow> env_cache" where
  "classpath_assign getenv c = c\<lparr>s_java_classpath := env_var_or_assert getenv ''CLASSPATH'' False\<rparr>"

definition java_classpath :: "(string \<Rightarrow> string option) \<Rightarrow> env_cache \<Rightarrow> string option \<times> env_cache" where
  "java_classpath getenv c =
     (let (was_set, c) = classpath_exchange c;
          c = (if \<not> was_set then classpath_assign getenv c else c)
      in (s_java_classpath c, c))"

definition java_home_path :: "(string \<Rightarrow> string option) \<Rightarrow> env_cache \<Rightarrow> (string option \<times> env_cache) option" where
  \<comment> \<open>\<open>None\<close>: the assertion of \<open>get_env_var\<close>\<close>
  "java_home_path getenv c =
     (let was_set = s_java_home_flag c; c = c\<lparr>s_java_home_flag := True\<rparr> in
      if was_set then Some (s_java_home_path c, c)
      else map_option (\<lambda>v. (Some v, c\<lparr>s_java_home_path := Some v\<rparr>)) (env_var_or_assert getenv ''JAVA_HOME'' True))"

theorem classpath_read_once:
  assumes "java_classpath getenv env_cache_init = (v, c)"
  shows "v = Some (case getenv ''CLASSPATH'' of Some x \<Rightarrow> x | None \<Rightarrow> []) \<and> java_classpath getenv' c = (v, c)"
  using assms by (auto simp: java_classpath_def classpath_exchange_def classpath_assign_def env_cache_init_def
    env_var_or_assert_def)

theorem classpath_null_between:
  "fst (java_classpath getenv (snd (classpath_exchange env_cache_init))) = None"
  by (simp add: java_classpath_def classpath_exchange_def env_cache_init_def)

text \<open>The directory of the program file.\<close>

definition get_executable_dir :: "string option \<Rightarrow> string" where
  \<comment> \<open>the argument is the target of \<open>/proc/self/exe\<close>; the buffer has 2048 bytes\<close>
  "get_executable_dir readlink =
     (case readlink of None \<Rightarrow> ''.'' | Some target \<Rightarrow> dirname (take 2047 target))"

lemma executable_dir_eq:
  assumes "length d + length b < 2047" and "d \<noteq> []" and "last d \<noteq> CHR ''/''" and "b \<noteq> []" and "CHR ''/'' \<notin> set b"
  shows "get_executable_dir (Some (d @ CHR ''/'' # b)) = d"
proof -
  have "last b \<noteq> CHR ''/''" using assms(4,5) by (metis last_in_set)
  then have s1: "strip_slashes (d @ CHR ''/'' # b) = d @ CHR ''/'' # b"
    using assms(4) by (cases b rule: rev_cases) (auto simp: strip_slashes_def)
  have s2: "strip_slashes d = d" using assms(2,3) by (cases d rule: rev_cases) (auto simp: strip_slashes_def)
  have "strrsplit CHR ''/'' (d @ CHR ''/'' # b) = Some (d, b)"
    using assms(5) by (simp add: strrsplit_Some)
  then show ?thesis using assms(1,2) by (simp add: get_executable_dir_def dirname_def s1 s2 Let_def)
qed

end
