(* ===== verification/Exceptions.thy ===== *)
theory Exceptions
  imports FileWalk NativeCalls
begin

text \<open>
  The exceptions of the program (\<open>spartan-exception\<close>) and the native method
  \<open>walk_file_tree\<close> around the walk, with its handlers. The demangler of the C++ library is a
  parameter. Next, the copies of Java strings that the native methods hold while they use them.
\<close>

section \<open>spartan_exception\<close>

text \<open>\<open>abi::__cxa_demangle\<close>; the null pointer is \<open>None\<close>.\<close>

type_synonym demangler = "string \<Rightarrow> string option"

record spartan_exception =
  ex_nm :: "string option"
  ex_msg :: string

datatype exception_fault = Null_message \<comment> \<open>a \<open>std::string\<close> made from the null pointer: \<open>std::logic_error\<close>\<close>

definition exception_from_cstr :: "demangler \<Rightarrow> string \<Rightarrow> string option \<Rightarrow> exception_fault + spartan_exception" where
  "exception_from_cstr demangle mangled_type_name msg =
     (case msg of
        None \<Rightarrow> Inl Null_message
      | Some m \<Rightarrow> Inr \<lparr>ex_nm = demangle mangled_type_name, ex_msg = cstr m\<rparr>)"

definition exception_from_string :: "demangler \<Rightarrow> string \<Rightarrow> string \<Rightarrow> spartan_exception \<times> string" where
  \<comment> \<open>the string is moved from: what is left of it comes second\<close>
  "exception_from_string demangle mangled_type_name msg =
     (\<lparr>ex_nm = demangle mangled_type_name, ex_msg = msg\<rparr>, [])"

definition exception_name :: "spartan_exception \<Rightarrow> string option" where "exception_name e = map_option cstr (ex_nm e)"
definition exception_what :: "spartan_exception \<Rightarrow> string" where "exception_what e = cstr (ex_msg e)"

definition exception_move :: "spartan_exception \<Rightarrow> spartan_exception \<Rightarrow> spartan_exception \<times> spartan_exception" where
  \<comment> \<open>the move assignment; the name of the left side is freed\<close>
  "exception_move self ex = (self\<lparr>ex_nm := ex_nm ex, ex_msg := ex_msg ex\<rparr>, ex\<lparr>ex_nm := None, ex_msg := []\<rparr>)"

definition get_unmangled_name :: "demangler \<Rightarrow> string \<Rightarrow> exception_fault + string" where
  "get_unmangled_name demangle mangled_name =
     (case demangle mangled_name of None \<Rightarrow> Inl Null_message | Some nm \<Rightarrow> Inr (cstr nm))"

lemma exception_parts:
  "is_cstr m \<Longrightarrow> exception_from_cstr demangle t (Some m) = Inr (fst (exception_from_string demangle t m))"
  "is_cstr m \<Longrightarrow> exception_what (fst (exception_from_string demangle t m)) = m"
  by (simp_all add: exception_from_cstr_def exception_from_string_def exception_what_def)

section \<open>The native method walk_file_tree\<close>

text \<open>
  What the JVM finds for the method: the answers of its lookups in their order. The texts of the
  log name the class and the method of the failed lookup.
\<close>

record walk_jni =
  wj_files_cls :: bool
  wj_makePath :: bool
  wj_file_path :: bool
  wj_file_name :: bool
  wj_path_cls :: bool
  wj_path_init :: bool
  wj_makeAttrs :: bool
  wj_file_attrs :: bool
  wj_attrs_cls :: bool
  wj_attrs_init :: bool
  wj_visitor_cls :: bool
  wj_preVisitDirectory :: bool
  wj_visitFile :: bool
  wj_visitFileFailed :: bool
  wj_postVisitDirectory :: bool
  wj_pid :: int

definition walk_lookups :: "walk_jni \<Rightarrow> (bool \<times> int \<times> string \<times> string) list" where
  \<comment> \<open>success, the number thrown, and \<open>class_name\<close> and \<open>method_name\<close> then\<close>
  "walk_lookups j =
     (let files = ''spartan.io.Files''; path = ''spartan.io.Files.Path''; attrs = ''spartan.io.Files.BasicFileAttributes'';
          visitor = ''spartan.io.Files.WalkFileTreeVisitor'' in
      [(wj_files_cls j, 1, files, ''makePath''), (wj_makePath j, 2, files, ''makePath''),
       (wj_file_path j, 3, path, ''makePath''), (wj_file_name j, 3, path, ''makePath''),
       (wj_path_cls j, 1, path, ''makePath''), (wj_path_init j, 2, path, ''init''),
       (wj_makeAttrs j, 2, files, ''makeBasicFileAttributes''), (wj_file_attrs j, 3, attrs, ''makeBasicFileAttributes''),
       (wj_attrs_cls j, 1, attrs, ''makeBasicFileAttributes''), (wj_attrs_init j, 2, attrs, ''init''),
       (wj_visitor_cls j, 1, visitor, ''init''), (wj_preVisitDirectory j, 2, visitor, ''preVisitDirectory''),
       (wj_visitFile j, 2, visitor, ''visitFile''), (wj_visitFileFailed j, 2, visitor, ''visitFileFailed''),
       (wj_postVisitDirectory j, 2, visitor, ''postVisitDirectory'')])"

definition walk_throw_msg :: "int \<Rightarrow> int \<Rightarrow> string \<Rightarrow> string \<Rightarrow> string" where
  \<comment> \<open>the handler of the numbers\<close>
  "walk_throw_msg pid which class_name method_name =
     (let head = ''process '' @ show_int pid @ '': ''; func = ''Java_spartan_util_io_Files_walk_1file_1tree()'';
          q = (\<lambda>s. [DQUOTE] @ s @ [DQUOTE]) in
      if which = 1 then head @ func @ '' failed finding Java class '' @ q class_name
      else if which = 2 then head @ func @ '' failed finding Java method '' @ q method_name @ '' on class '' @ q class_name
      else if which = 3 then head @ func @ '' failed allocating object instance of class '' @ q class_name
      else head @ func @ '' unspecified exception per '' @ q (method_name @ ''::'' @ class_name @ ''()''))"

definition native_walk_file_tree ::
  "nat \<Rightarrow> dir_env \<Rightarrow> walk_jni \<Rightarrow> char \<Rightarrow> int \<Rightarrow> bool \<Rightarrow> string \<Rightarrow> 'u java_visitor \<Rightarrow> 'u \<Rightarrow>
   (native_end \<times> 'u option \<times> (logging_level \<times> string) list) option" where
  \<comment> \<open>with the assertions compiled out; the visitor's state is lost when the process exits, and \<open>None\<close>
      only means that the fuel was used up\<close>
  "native_walk_file_tree fuel env j sep max_depth follow start_dir visitor u =
     (case find (\<lambda>(ok, _). \<not> ok) (walk_lookups j) of
        Some (_, which, class_name, method_name) \<Rightarrow>
          Some (Native_exit EXIT_FAILURE, None, [(ERR, walk_throw_msg (wj_pid j) which class_name method_name)])
      | None \<Rightarrow>
          (case java_walk_file_tree fuel env sep max_depth follow start_dir visitor u of
             Inr (_, u) \<Rightarrow> Some (Native_returns, Some u, [])
           | Inl (Findfiles_exception what) \<Rightarrow>
               Some (Native_exit EXIT_FAILURE, None, [(ERR, ''process '' @ show_int (wj_pid j) @
                 '': spartan.io.Files.Java_spartan_util_io_Files_walk_1file_1tree() findfiles_exception: '' @ what)])
           | Inl Out_of_fuel \<Rightarrow> None))"

lemma java_walk_fuel:
  assumes "names_ok env" and "2049 \<le> fuel"
  shows "java_walk_file_tree fuel env sep depth follow start_dir visitor u \<noteq> Inl Out_of_fuel"
proof -
  have cb: "cb_fuel (java_walk_cb visitor)" by (simp add: cb_fuel_def java_walk_cb_def split: prod.splits)
  have "walk_dir fuel ff env (java_walk_cb visitor) 1 start_dir u' \<noteq> Inl Out_of_fuel" for ff u'
    using assms(2) by (intro walk_dir_fuel [OF cb assms(1)]) simp
  then show ?thesis using cb by (auto simp: java_walk_file_tree_def walk_file_tree_def bind_r_Inl cb_fuel_def)
qed

text \<open>
  A walk asked for by Java either finds everything it needs and walks to its end, or ends the
  JVM process with one line in the log; Java never gets an exception, and no directory is visited
  unless every lookup has succeeded. The fuel for the longest path is enough.
\<close>

theorem native_walk_ends:
  assumes "names_ok env" and "2049 \<le> fuel"
  shows "\<exists>r u' lg. native_walk_file_tree fuel env j sep depth follow start_dir visitor u = Some (r, u', lg) \<and>
     (if \<not> list_all fst (walk_lookups j) then r = Native_exit EXIT_FAILURE \<and> length lg = 1
      else (case java_walk_file_tree fuel env sep depth follow start_dir visitor u of
              Inr (stop, v) \<Rightarrow> r = Native_returns \<and> u' = Some v \<and> lg = []
            | Inl e \<Rightarrow> r = Native_exit EXIT_FAILURE \<and> length lg = 1))"
proof -
  have f: "(find (\<lambda>(ok, _). \<not> ok) (walk_lookups j) = None) = list_all fst (walk_lookups j)"
    by (fastforce simp: find_None_iff list_all_iff)
  show ?thesis
    using java_walk_fuel [OF assms, of sep depth follow start_dir visitor u] f
    by (auto simp: native_walk_file_tree_def split: option.splits sum.splits ff_error.splits)
qed

definition found_jni :: walk_jni where
  "found_jni = \<lparr>wj_files_cls = True, wj_makePath = True, wj_file_path = True, wj_file_name = True, wj_path_cls = True,
     wj_path_init = True, wj_makeAttrs = True, wj_file_attrs = True, wj_attrs_cls = True, wj_attrs_init = True,
     wj_visitor_cls = True, wj_preVisitDirectory = True, wj_visitFile = True, wj_visitFileFailed = True,
     wj_postVisitDirectory = True, wj_pid = 77\<rparr>"

theorem native_walk_ends_witness:
  "\<exists>lg. native_walk_file_tree 2049 loop_env (found_jni\<lparr>wj_visitFileFailed := False\<rparr>) CHR 0x2F 5 True ''/'' visitor () =
     Some (Native_exit EXIT_FAILURE, None, lg) \<and> length lg = 1"
proof -
  have "names_ok loop_env" by (simp add: names_ok_def loop_env_def)
  from native_walk_ends [OF this order.refl, of "found_jni\<lparr>wj_visitFileFailed := False\<rparr>" "CHR 0x2F" 5 True "''/''" visitor "()"]
  obtain lg u' where "native_walk_file_tree 2049 loop_env (found_jni\<lparr>wj_visitFileFailed := False\<rparr>) CHR 0x2F 5 True ''/'' visitor () =
      Some (Native_exit EXIT_FAILURE, u', lg)" "length lg = 1"
    by (auto simp: walk_lookups_def found_jni_def Let_def)
  moreover have "u' = None" using calculation(1)
    by (simp add: native_walk_file_tree_def walk_lookups_def found_jni_def Let_def)
  ultimately show ?thesis by blast
qed

end
