(* ===== verification/StringView.thy ===== *)
theory StringView
  imports Prelude "HOL-Library.Char_ord" "HOL-Library.List_Lexorder" "HOL-Library.Monad_Syntax"
begin

text \<open>
  \<open>bpstd::basic_string_view<char>\<close> of \<open>string-view.h\<close>, which the rest of the program uses for its
  constant strings. A view is an address and a length; the characters are in the memory, a
  function of the 64-bit addresses, so that a read outside the view has the value that happens
  to be there. \<open>size_t\<close> and the addresses are words that wrap. A loop that may not end is an
  \<open>option\<close>, \<open>None\<close> when it does not; \<open>std::out_of_range\<close> is the error of a sum.
\<close>

type_synonym mem = "64 word \<Rightarrow> char"

section \<open>Views\<close>

record sv =
  m_str :: "64 word"
  m_size :: "64 word"

definition mk_sv :: "64 word \<Rightarrow> 64 word \<Rightarrow> sv" where
  "mk_sv p n = \<lparr>m_str = p, m_size = n\<rparr>"

lemma mk_sv_simps [simp]: "m_str (mk_sv p n) = p" "m_size (mk_sv p n) = n"
  by (simp_all add: mk_sv_def)

definition npos :: "64 word" where "npos = - 1"

datatype sv_error = Out_of_range string

definition sv_empty_view :: sv where "sv_empty_view = mk_sv 0 0"

text \<open>\<open>Traits::length\<close> is \<open>strlen\<close>: it reads on until a NUL, if there is one.\<close>

partial_function (option) traits_length :: "mem \<Rightarrow> 64 word \<Rightarrow> 64 word option" where
  "traits_length mem p =
     (if mem p = CHR 0x00 then Some 0 else do { n \<leftarrow> traits_length mem (p + 1); Some (n + 1) })"

text \<open>
  What the overloads take: another view, a C string, a C string with a count, a
  \<open>std::string\<close> (its \<open>c_str()\<close> and \<open>size()\<close>), and a character, whose address is that of the
  parameter; each becomes a view first.
\<close>

datatype operand =
    View sv
  | Cstr "64 word"
  | Cstr_n "64 word" "64 word"
  | Std_string "64 word" "64 word"
  | Char_at "64 word"

fun to_view :: "mem \<Rightarrow> operand \<Rightarrow> sv option" where
  "to_view mem (View v) = Some v"
| "to_view mem (Cstr p) = do { n \<leftarrow> traits_length mem p; Some (mk_sv p n) }"
| "to_view mem (Cstr_n p n) = Some (mk_sv p n)"
| "to_view mem (Std_string p n) = Some (mk_sv p n)"
| "to_view mem (Char_at a) = Some (mk_sv a 1)"

definition sv_max_size :: "64 word" where "sv_max_size = npos - 1"

definition sv_is_empty :: "sv \<Rightarrow> bool" where "sv_is_empty s = (m_size s = 0)"

definition sv_length :: "sv \<Rightarrow> 64 word" where "sv_length s = m_size s"

definition sv_data :: "sv \<Rightarrow> 64 word" where "sv_data s = m_str s"

definition sv_begin :: "sv \<Rightarrow> 64 word" where "sv_begin s = m_str s"

definition sv_end :: "sv \<Rightarrow> 64 word" where "sv_end s = m_str s + m_size s"

definition sv_nth :: "mem \<Rightarrow> sv \<Rightarrow> 64 word \<Rightarrow> char" where
  "sv_nth mem s pos = mem (m_str s + pos)"

definition sv_at :: "mem \<Rightarrow> sv \<Rightarrow> 64 word \<Rightarrow> sv_error + char" where
  "sv_at mem s pos =
     (if pos < m_size s then Inr (mem (m_str s + pos))
      else Inl (Out_of_range ''Input out of range in basic_string_view::at''))"

definition sv_front :: "mem \<Rightarrow> sv \<Rightarrow> char" where "sv_front mem s = mem (m_str s)"

definition sv_back :: "mem \<Rightarrow> sv \<Rightarrow> char" where "sv_back mem s = mem (m_str s + (m_size s - 1))"

definition sv_remove_prefix :: "64 word \<Rightarrow> sv \<Rightarrow> sv" where
  "sv_remove_prefix n s = s\<lparr>m_str := m_str s + n, m_size := m_size s - n\<rparr>"

definition sv_remove_suffix :: "64 word \<Rightarrow> sv \<Rightarrow> sv" where
  "sv_remove_suffix n s = s\<lparr>m_size := m_size s - n\<rparr>"

definition sv_swap :: "sv \<Rightarrow> sv \<Rightarrow> sv \<times> sv" where
  "sv_swap s v =
     (let (n, n') = (m_size v, m_size s); (p, p') = (m_str v, m_str s)
      in (mk_sv p n, mk_sv p' n'))"

text \<open>The characters of a view: \<open>to_string\<close>, and what \<open>operator <<\<close> writes.\<close>

definition bytes :: "mem \<Rightarrow> 64 word \<Rightarrow> nat \<Rightarrow> string" where
  "bytes mem p n = map (\<lambda>k. mem (p + of_nat k)) [0..<n]"

definition sv_to_string :: "mem \<Rightarrow> sv \<Rightarrow> string" where
  "sv_to_string mem s = bytes mem (m_str s) (unat (m_size s))"

definition sv_write :: "mem \<Rightarrow> sv \<Rightarrow> string \<Rightarrow> string" where
  "sv_write mem s o_bytes = o_bytes @ bytes mem (m_str s) (unat (m_size s))"

section \<open>Copying and sub-views\<close>

fun std_copy :: "64 word \<Rightarrow> nat \<Rightarrow> 64 word \<Rightarrow> mem \<Rightarrow> mem" where
  "std_copy p 0 dest mem = mem"
| "std_copy p (Suc n) dest mem = std_copy (p + 1) n (dest + 1) (mem(dest := mem p))"

definition sv_copy :: "sv \<Rightarrow> 64 word \<Rightarrow> 64 word \<Rightarrow> 64 word \<Rightarrow> mem \<Rightarrow> sv_error + 64 word \<times> mem" where
  "sv_copy s dest count pos mem =
     (if pos \<ge> m_size s then Inl (Out_of_range ''Index out of range in basic_string_view::copy'')
      else let rcount = min (m_size s - pos) (count + 1)
           in Inr (rcount, std_copy (m_str s + pos) (unat rcount) dest mem))"

definition sv_substr :: "sv \<Rightarrow> 64 word \<Rightarrow> 64 word \<Rightarrow> sv_error + sv" where
  "sv_substr s pos len =
     (let max_length = (if pos > m_size s then 0 else m_size s - pos)
      in if pos < m_size s then Inr (mk_sv (m_str s + pos) (if len > max_length then max_length else len))
         else Inl (Out_of_range ''Index out of range in basic_string_view::substr''))"

section \<open>Comparison\<close>

text \<open>
  \<open>Traits::compare\<close> compares as \<open>unsigned char\<close>; the standard fixes the sign of its result
  only, here the result is -1, 0 or 1.
\<close>

fun traits_compare :: "mem \<Rightarrow> 64 word \<Rightarrow> 64 word \<Rightarrow> nat \<Rightarrow> int" where
  "traits_compare mem p q 0 = 0"
| "traits_compare mem p q (Suc n) =
     (if mem p < mem q then - 1 else if mem p > mem q then 1 else traits_compare mem (p + 1) (q + 1) n)"

definition sv_compare :: "mem \<Rightarrow> sv \<Rightarrow> sv \<Rightarrow> int" where
  "sv_compare mem s v =
     (let rlen = min (m_size s) (m_size v); compare = traits_compare mem (m_str s) (m_str v) (unat rlen)
      in if compare \<noteq> 0 then compare
         else if m_size s < m_size v then - 1 else if m_size s > m_size v then 1 else 0)"

definition sv_compare_sub :: "mem \<Rightarrow> sv \<Rightarrow> 64 word \<Rightarrow> 64 word \<Rightarrow> operand \<Rightarrow> (sv_error + int) option" where
  "sv_compare_sub mem s pos count x =
     (case sv_substr s pos count of
        Inl e \<Rightarrow> Some (Inl e)
      | Inr t \<Rightarrow> do { v \<leftarrow> to_view mem x; Some (Inr (sv_compare mem t v)) })"

definition sv_compare_subs ::
  "mem \<Rightarrow> sv \<Rightarrow> 64 word \<Rightarrow> 64 word \<Rightarrow> sv \<Rightarrow> 64 word \<Rightarrow> 64 word \<Rightarrow> sv_error + int" where
  "sv_compare_subs mem s pos1 count1 v pos2 count2 =
     bind_r (sv_substr s pos1 count1) (\<lambda>t.
     bind_r (sv_substr v pos2 count2) (\<lambda>u. Inr (sv_compare mem t u)))"

definition sv_compare_cstr :: "mem \<Rightarrow> sv \<Rightarrow> 64 word \<Rightarrow> int option" where
  "sv_compare_cstr mem s p = do { v \<leftarrow> to_view mem (Cstr p); Some (sv_compare mem s v) }"

text \<open>
  The operators on two views, and their overloads with a C string or a \<open>std::string\<close> on either
  side.
\<close>

definition op_compare :: "mem \<Rightarrow> operand \<Rightarrow> operand \<Rightarrow> int option" where
  "op_compare mem a b = do { s \<leftarrow> to_view mem a; v \<leftarrow> to_view mem b; Some (sv_compare mem s v) }"

definition op_eq :: "mem \<Rightarrow> operand \<Rightarrow> operand \<Rightarrow> bool option" where
  "op_eq mem a b = map_option (\<lambda>c. c = 0) (op_compare mem a b)"

definition op_neq :: "mem \<Rightarrow> operand \<Rightarrow> operand \<Rightarrow> bool option" where
  "op_neq mem a b = map_option (\<lambda>c. c \<noteq> 0) (op_compare mem a b)"

definition op_lt :: "mem \<Rightarrow> operand \<Rightarrow> operand \<Rightarrow> bool option" where
  "op_lt mem a b = map_option (\<lambda>c. c < 0) (op_compare mem a b)"

definition op_gt :: "mem \<Rightarrow> operand \<Rightarrow> operand \<Rightarrow> bool option" where
  "op_gt mem a b = map_option (\<lambda>c. c > 0) (op_compare mem a b)"

definition op_le :: "mem \<Rightarrow> operand \<Rightarrow> operand \<Rightarrow> bool option" where
  "op_le mem a b = map_option (\<lambda>c. c \<le> 0) (op_compare mem a b)"

definition op_ge :: "mem \<Rightarrow> operand \<Rightarrow> operand \<Rightarrow> bool option" where
  "op_ge mem a b = map_option (\<lambda>c. c \<ge> 0) (op_compare mem a b)"

section \<open>Searching\<close>

text \<open>
  A loop \<open>for( i = start; i >= 0; --i ) if( Q(i) ) return i;\<close> on a \<open>size_t\<close>: the condition always
  holds, so that the loop ends at a hit only, if need be below 0, where \<open>i\<close> wraps.
\<close>

partial_function (option) search_down :: "(64 word \<Rightarrow> bool) \<Rightarrow> 64 word \<Rightarrow> 64 word option" where
  "search_down Q i = (if Q i then Some i else search_down Q (i - 1))"

text \<open>
  \<open>find\<close>: the inner loop compares from the last character down and breaks at a mismatch; the
  caller takes a mismatch at index -1 for a full match.
\<close>

definition mismatch_down :: "mem \<Rightarrow> sv \<Rightarrow> sv \<Rightarrow> 64 word \<Rightarrow> 64 word option" where
  "mismatch_down mem s v i =
     search_down (\<lambda>j. mem (m_str v + j) \<noteq> mem (m_str s + (i + j))) (m_size v - 1)"

partial_function (option) find_loop :: "mem \<Rightarrow> sv \<Rightarrow> sv \<Rightarrow> 64 word \<Rightarrow> 64 word \<Rightarrow> 64 word option" where
  "find_loop mem s v max_index i =
     (if i < max_index then do {
        j \<leftarrow> mismatch_down mem s v i;
        if j + 1 = 0 then Some i else find_loop mem s v max_index (i + 1)
      } else Some npos)"

definition sv_find :: "mem \<Rightarrow> sv \<Rightarrow> sv \<Rightarrow> 64 word \<Rightarrow> 64 word option" where
  "sv_find mem s v pos = find_loop mem s v (m_size s - m_size v) pos"

definition sv_find_arg :: "mem \<Rightarrow> sv \<Rightarrow> operand \<Rightarrow> 64 word \<Rightarrow> 64 word option" where
  "sv_find_arg mem s x pos = do { v \<leftarrow> to_view mem x; sv_find mem s v pos }"

lemma word_up: "j < n \<Longrightarrow> unat (n - (j + 1)) < unat (n - j)" for j n :: "64 word"
proof -
  assume a: "j < n"
  have "n - (j + 1) = (n - j) - 1" by simp
  moreover have "n - j \<noteq> 0" using a by auto
  ultimately show ?thesis by (metis unat_1 unat_gt_0 unat_minus_one diff_less zero_less_one)
qed

text \<open>\<open>rfind\<close> compares the needle forwards with the characters before \<open>i\<close>, and its outer loop has no end.\<close>

function mismatch_up :: "mem \<Rightarrow> sv \<Rightarrow> sv \<Rightarrow> 64 word \<Rightarrow> 64 word \<Rightarrow> 64 word" where
  "mismatch_up mem s v i j =
     (if j < m_size v then
        (if mem (m_str v + j) \<noteq> mem (m_str s + (i - j)) then j else mismatch_up mem s v i (j + 1))
      else j)"
  by pat_completeness auto

termination by (relation "measure (\<lambda>(mem, s, v, i, j). unat (m_size v - j))") (auto simp: word_up)

definition sv_rfind :: "mem \<Rightarrow> sv \<Rightarrow> sv \<Rightarrow> 64 word \<Rightarrow> 64 word option" where
  "sv_rfind mem s v pos = 
     search_down (\<lambda>i. mismatch_up mem s v i 0 = m_size v) (min (m_size s - m_size v - 1) pos)"

definition sv_rfind_arg :: "mem \<Rightarrow> sv \<Rightarrow> operand \<Rightarrow> 64 word \<Rightarrow> 64 word option" where
  "sv_rfind_arg mem s x pos = do { v \<leftarrow> to_view mem x; sv_rfind mem s v pos }"

text \<open>The inner loop of \<open>find_first_of\<close> and \<open>find_last_of\<close>: is the character in the set?\<close>

function in_view :: "mem \<Rightarrow> sv \<Rightarrow> char \<Rightarrow> 64 word \<Rightarrow> bool" where
  "in_view mem v c j = (if j < m_size v then (if mem (m_str v + j) = c then True else in_view mem v c (j + 1)) else False)"
  by pat_completeness auto

termination by (relation "measure (\<lambda>(mem, v, c, j). unat (m_size v - j))") (auto simp: word_up)

function find_first_loop :: "(char \<Rightarrow> bool) \<Rightarrow> mem \<Rightarrow> sv \<Rightarrow> 64 word \<Rightarrow> 64 word" where
  "find_first_loop P mem s i =
     (if i < m_size s then (if P (mem (m_str s + i)) then i else find_first_loop P mem s (i + 1)) else npos)"
  by pat_completeness auto

termination by (relation "measure (\<lambda>(P, mem, s, i). unat (m_size s - i))") (auto simp: word_up)

definition find_last_loop :: "(char \<Rightarrow> bool) \<Rightarrow> mem \<Rightarrow> sv \<Rightarrow> 64 word \<Rightarrow> 64 word option" where
  "find_last_loop P mem s i = search_down (\<lambda>i. P (mem (m_str s + i))) i"

definition sv_find_first_of :: "mem \<Rightarrow> sv \<Rightarrow> sv \<Rightarrow> 64 word \<Rightarrow> 64 word" where
  "sv_find_first_of mem s v pos = find_first_loop (\<lambda>c. in_view mem v c 0) mem s pos"

definition sv_find_first_of_arg :: "mem \<Rightarrow> sv \<Rightarrow> operand \<Rightarrow> 64 word \<Rightarrow> 64 word option" where
  "sv_find_first_of_arg mem s x pos = do { v \<leftarrow> to_view mem x; Some (sv_find_first_of mem s v pos) }"

definition sv_find_last_of :: "mem \<Rightarrow> sv \<Rightarrow> sv \<Rightarrow> 64 word \<Rightarrow> 64 word option" where
  "sv_find_last_of mem s v pos = find_last_loop (\<lambda>c. in_view mem v c 0) mem s (min (m_size s - 1) pos)"

definition sv_find_last_of_arg :: "mem \<Rightarrow> sv \<Rightarrow> operand \<Rightarrow> 64 word \<Rightarrow> 64 word option" where
  "sv_find_last_of_arg mem s x pos = do { v \<leftarrow> to_view mem x; sv_find_last_of mem s v pos }"

text \<open>
  The inner loop of the two \<open>_not_of\<close> functions starts at \<open>j = 0\<close> and either breaks or returns, so
  that it looks at the first character of the set only.
\<close>

definition returns_at :: "mem \<Rightarrow> sv \<Rightarrow> char \<Rightarrow> bool" where
  "returns_at mem v c = (if 0 < m_size v then (if mem (m_str v + 0) = c then False else True) else False)"

definition sv_find_first_not_of :: "mem \<Rightarrow> sv \<Rightarrow> sv \<Rightarrow> 64 word \<Rightarrow> 64 word" where
  "sv_find_first_not_of mem s v pos = find_first_loop (returns_at mem v) mem s pos"

definition sv_find_first_not_of_arg :: "mem \<Rightarrow> sv \<Rightarrow> operand \<Rightarrow> 64 word \<Rightarrow> 64 word option" where
  "sv_find_first_not_of_arg mem s x pos = do { v \<leftarrow> to_view mem x; Some (sv_find_first_not_of mem s v pos) }"

definition sv_find_last_not_of :: "mem \<Rightarrow> sv \<Rightarrow> sv \<Rightarrow> 64 word \<Rightarrow> 64 word option" where
  "sv_find_last_not_of mem s v pos = find_last_loop (returns_at mem v) mem s (min (m_size s - 1) pos)"

definition sv_find_last_not_of_arg :: "mem \<Rightarrow> sv \<Rightarrow> operand \<Rightarrow> 64 word \<Rightarrow> 64 word option" where
  "sv_find_last_not_of_arg mem s x pos = do { v \<leftarrow> to_view mem x; sv_find_last_not_of mem s v pos }"

declare mismatch_up.simps [simp del] in_view.simps [simp del] find_first_loop.simps [simp del]


section \<open>Comparison is the order of the character sequences\<close>

lemma bytes_0 [simp]: "bytes mem p 0 = []"
  by (simp add: bytes_def)

lemma bytes_Suc: "bytes mem p (Suc n) = mem p # bytes mem (p + 1) n"
  unfolding bytes_def by (simp add: upt_conv_Cons map_Suc_upt [symmetric] add_ac del: upt_Suc)

lemma length_bytes [simp]: "length (bytes mem p n) = n"
  by (simp add: bytes_def)

lemma nth_bytes [simp]: "k < n \<Longrightarrow> bytes mem p n ! k = mem (p + of_nat k)"
  by (simp add: bytes_def)

lemma length_sv [simp]: "length (sv_to_string mem s) = unat (m_size s)"
  by (simp add: sv_to_string_def)

lemma nth_sv [simp]: "k < unat (m_size s) \<Longrightarrow> sv_to_string mem s ! k = mem (m_str s + of_nat k)"
  by (simp add: sv_to_string_def)

definition compare_n :: "mem \<Rightarrow> 64 word \<Rightarrow> 64 word \<Rightarrow> nat \<Rightarrow> nat \<Rightarrow> int" where
  "compare_n mem p q a b =
     (let c = traits_compare mem p q (min a b)
      in if c \<noteq> 0 then c else if a < b then - 1 else if a > b then 1 else 0)"

lemma compare_n_Suc:
  "compare_n mem p q (Suc a) (Suc b) =
     (if mem p < mem q then - 1 else if mem p > mem q then 1 else compare_n mem (p + 1) (q + 1) a b)"
  by (simp add: compare_n_def)

lemma compare_n_bytes:
  "(compare_n mem p q a b < 0 \<longleftrightarrow> bytes mem p a < bytes mem q b) \<and>
   (compare_n mem p q a b = 0 \<longleftrightarrow> bytes mem p a = bytes mem q b)"
proof (induction a arbitrary: p q b)
  case 0
  then show ?case by (cases b) (simp_all add: compare_n_def bytes_Suc)
next
  case (Suc a)
  show ?case
  proof (cases b)
    case 0
    then show ?thesis by (simp add: compare_n_def bytes_Suc)
  next
    case (Suc b')
    then show ?thesis using Suc.IH [of "p + 1" "q + 1" b']
      by (auto simp: bytes_Suc compare_n_Suc)
  qed
qed

lemma sv_compare_n: "sv_compare mem s v = compare_n mem (m_str s) (m_str v) (unat (m_size s)) (unat (m_size v))"
  by (simp add: sv_compare_def compare_n_def word_less_nat_alt min_def word_le_nat_alt Let_def)

text \<open>
  A three-way comparison whose sign is the order of the contents makes its six operators the
  operators of a linear order.
\<close>

locale three_way =
  fixes cmp :: "'v \<Rightarrow> 'v \<Rightarrow> int" and contents :: "'v \<Rightarrow> 'a :: linorder"
  assumes cmp_less: "cmp a b < 0 \<longleftrightarrow> contents a < contents b"
    and cmp_eq: "cmp a b = 0 \<longleftrightarrow> contents a = contents b"
begin

lemma cmp_greater: "cmp a b > 0 \<longleftrightarrow> contents a > contents b"
  using cmp_less [of a b] cmp_eq [of a b] by (metis less_linear less_asym)

lemma cmp_le: "cmp a b \<le> 0 \<longleftrightarrow> contents a \<le> contents b"
  using cmp_greater [of a b] by (metis not_le)

lemma cmp_ge: "cmp a b \<ge> 0 \<longleftrightarrow> contents a \<ge> contents b"
  using cmp_less [of a b] by (metis not_le)

lemmas cmp_order = cmp_less cmp_eq cmp_greater cmp_le cmp_ge

lemma cmp_swap: "cmp a b < 0 \<longleftrightarrow> cmp b a > 0"
  by (simp add: cmp_less cmp_greater)

lemma cmp_trans: "cmp a b \<le> 0 \<Longrightarrow> cmp b c \<le> 0 \<Longrightarrow> cmp a c \<le> 0"
  by (simp add: cmp_le)

end

interpretation views: three_way "sv_compare mem" "sv_to_string mem" for mem
  by unfold_locales (use compare_n_bytes in \<open>auto simp: sv_compare_n sv_to_string_def\<close>)

text \<open>
  C40. The six comparison operators on string views, with C strings and \<open>std::string\<close>s on either
  side, are the lexicographic order of the character sequences, by unsigned character.
\<close>

theorem operators_order:
  assumes "to_view mem a = Some s" and "to_view mem b = Some v"
  shows "op_eq mem a b = Some (sv_to_string mem s = sv_to_string mem v) \<and>
    op_neq mem a b = Some (sv_to_string mem s \<noteq> sv_to_string mem v) \<and>
    op_lt mem a b = Some (sv_to_string mem s < sv_to_string mem v) \<and>
    op_gt mem a b = Some (sv_to_string mem s > sv_to_string mem v) \<and>
    op_le mem a b = Some (sv_to_string mem s \<le> sv_to_string mem v) \<and>
    op_ge mem a b = Some (sv_to_string mem s \<ge> sv_to_string mem v)"
  using assms
  by (simp add: op_compare_def op_eq_def op_neq_def op_lt_def op_gt_def op_le_def op_ge_def views.cmp_order)

definition demo_mem :: mem where
  "demo_mem p = (''--STOP'' @ [CHR 0x00] @ ''--STATUS'' @ [CHR 0x00] @ ''xSTATUS'') ! unat (p - 100)"

lemma demo_stop: "to_view demo_mem (Cstr 100) = Some (mk_sv 100 6)"
  by (simp add: demo_mem_def traits_length.simps)

lemma demo_status: "to_view demo_mem (Cstr 107) = Some (mk_sv 107 8)"
  by (simp add: demo_mem_def traits_length.simps)

theorem operators_order_witness:
  "op_lt demo_mem (Cstr 107) (Cstr 100) = Some True \<and> op_eq demo_mem (Cstr 107) (Cstr 100) = Some False"
proof -
  have "sv_to_string demo_mem (mk_sv 100 6) = ''--STOP''" "sv_to_string demo_mem (mk_sv 107 8) = ''--STATUS''"
    by (simp_all add: sv_to_string_def bytes_def upt_rec demo_mem_def)
  then show ?thesis using operators_order [OF demo_status demo_stop] by (simp add: less_char_def)
qed

section \<open>Searching for a character of a set\<close>

lemma unat_up: "unat (i + 1) = Suc (unat i)" if "i < n" for i n :: "64 word"
proof -
  have "unat i < unat n" "unat n < 2 ^ 64"
    using that unsigned_less [of n] by (simp_all add: word_less_nat_alt)
  then show ?thesis by (simp add: unat_word_ariths)
qed

lemma in_view_drop: "in_view mem v c j \<longleftrightarrow> c \<in> set (drop (unat j) (sv_to_string mem v))"
proof (induction mem v c j rule: in_view.induct)
  case (1 mem v c j)
  show ?case
  proof (cases "j < m_size v")
    case True
    then have u: "unat j < unat (m_size v)" by (simp add: word_less_nat_alt)
    then have "drop (unat j) (sv_to_string mem v) = mem (m_str v + j) # drop (unat (j + 1)) (sv_to_string mem v)"
      by (simp add: Cons_nth_drop_Suc [symmetric] unat_up [OF True])
    then show ?thesis using True 1 by (subst in_view.simps) auto
  next
    case False
    then show ?thesis by (subst in_view.simps) (simp add: word_less_nat_alt)
  qed
qed

definition first_index :: "(nat \<Rightarrow> bool) \<Rightarrow> nat \<Rightarrow> nat \<Rightarrow> 64 word" where
  \<comment> \<open>the least index from \<open>i\<close> on and below \<open>n\<close> with the property, or \<open>npos\<close>\<close>
  "first_index P i n = (case List.find P [i..<n] of None \<Rightarrow> npos | Some k \<Rightarrow> of_nat k)"

lemma first_index_step: "first_index P i n = (if i < n then (if P i then of_nat i else first_index P (Suc i) n) else npos)"
  by (simp add: first_index_def upt_conv_Cons)

lemma first_index_cong: "(\<And>k. i \<le> k \<Longrightarrow> k < n \<Longrightarrow> P k = Q k) \<Longrightarrow> first_index P i n = first_index Q i n"
  unfolding first_index_def by (subst find_cong [OF refl]) auto

lemma find_first_loop_index:
  "find_first_loop P mem s i = first_index (\<lambda>k. P (sv_to_string mem s ! k)) (unat i) (unat (m_size s))"
proof (induction P mem s i rule: find_first_loop.induct)
  case (1 P mem s i)
  then show ?case
    by (subst find_first_loop.simps, subst first_index_step) (auto simp: word_less_nat_alt unat_up)
qed

text \<open>
  \<open>find_first_of\<close> returns the least index from \<open>pos\<close> on whose character is in the set, and
  \<open>npos\<close> when there is none, for every argument; \<open>find_first_not_of\<close> compares with the first
  character of the set only.
\<close>

theorem find_first_of_least:
  "sv_find_first_of mem s v pos =
     first_index (\<lambda>k. sv_to_string mem s ! k \<in> set (sv_to_string mem v)) (unat pos) (unat (m_size s)) \<and>
   sv_find_first_not_of mem s v pos =
     (if m_size v = 0 then npos
      else first_index (\<lambda>k. sv_front mem v \<noteq> sv_to_string mem s ! k) (unat pos) (unat (m_size s)))"
proof -
  have "first_index (\<lambda>k. False) i n = npos" for i n
    by (simp add: first_index_def) (metis (mono_tags, lifting) find_None_iff option.simps(4))
  then show ?thesis
    by (auto simp: sv_find_first_of_def sv_find_first_not_of_def find_first_loop_index in_view_drop
      returns_at_def sv_front_def word_greater_zero_iff)
qed


section \<open>Searching backwards\<close>

lemma search_down_hit: "search_down Q i = Some r \<Longrightarrow> Q r"
  by (erule search_down.raw_induct [of "\<lambda>Q i r. Q r", rotated]) (auto split: if_splits)

lemma search_down_to:
  "k \<le> unat i \<Longrightarrow> Q (of_nat k) \<Longrightarrow> (\<And>l. k < l \<Longrightarrow> l \<le> unat i \<Longrightarrow> \<not> Q (of_nat l)) \<Longrightarrow> search_down Q i = Some (of_nat k)"
proof (induction "unat i" arbitrary: i)
  case 0
  then have "i = 0" by (simp add: unat_eq_0)
  with 0 show ?case by (subst search_down.simps) simp
next
  case (Suc n)
  have i: "of_nat (Suc n) = i" using Suc.hyps(2) by (metis of_nat_unat ucast_id)
  show ?case
  proof (cases "k = Suc n")
    case True
    then show ?thesis using Suc.prems(2) i by (subst search_down.simps) simp
  next
    case False
    have "i \<noteq> 0" using Suc.hyps(2) by auto
    then have n: "unat (i - 1) = n" using Suc.hyps(2) by (simp add: unat_minus_one)
    have "\<not> Q i" using Suc.prems(3) [of "Suc n"] False Suc.prems(1) Suc.hyps(2) i by simp
    moreover have "search_down Q (i - 1) = Some (of_nat k)"
      using Suc.hyps(1) [OF n [symmetric]] Suc.prems False n by (simp add: Suc.hyps(2) [symmetric] le_Suc_eq)
    ultimately show ?thesis by (subst search_down.simps) simp
  qed
qed

lemma find_last_loop_outside:
  assumes "find_last_loop P mem s i = Some r" and "\<And>l. l < unat (m_size s) \<Longrightarrow> \<not> P (sv_to_string mem s ! l)"
  shows "m_size s \<le> r"
proof (rule ccontr)
  assume "\<not> m_size s \<le> r"
  then have u: "unat r < unat (m_size s)" by (simp add: word_le_nat_alt)
  then have "sv_to_string mem s ! unat r = mem (m_str s + r)" by simp
  with assms(2) [OF u] search_down_hit [OF assms(1) [unfolded find_last_loop_def]] show False by simp
qed

text \<open>
  \<open>find_last_of\<close> returns the last index up to \<open>pos\<close> whose character is in the set, when there
  is one; when no character of the view is, it never returns an index of the view, and returns
  at all only if a character outside the view stops it.
\<close>

theorem find_last_of_last:
  assumes "k < unat (m_size s)" and "k \<le> unat pos" and "sv_to_string mem s ! k \<in> set (sv_to_string mem v)"
    and "\<forall>l. k < l \<and> l < unat (m_size s) \<and> l \<le> unat pos \<longrightarrow> sv_to_string mem s ! l \<notin> set (sv_to_string mem v)"
  shows "sv_find_last_of mem s v pos = Some (of_nat k)"
proof -
  let ?i = "min (m_size s - 1) pos"
  have "m_size s \<noteq> 0" using assms(1) by auto
  then have "unat (m_size s - 1) = unat (m_size s) - 1" by (simp add: unat_minus_one)
  then have i: "unat ?i = min (unat (m_size s) - 1) (unat pos)"
    by (simp add: min_def word_le_nat_alt)
  show ?thesis unfolding sv_find_last_of_def find_last_loop_def
  proof (rule search_down_to)
    show "k \<le> unat ?i" using assms by (simp add: i)
    show "in_view mem v (mem (m_str s + of_nat k)) 0" using assms by (simp add: in_view_drop)
    show "\<not> in_view mem v (mem (m_str s + of_nat l)) 0" if "k < l" "l \<le> unat ?i" for l
    proof -
      have "l < unat (m_size s)" "l \<le> unat pos" using that(2) assms(1) unfolding i by auto
      then show ?thesis using that(1) assms(4) by (simp add: in_view_drop)
    qed
  qed
qed

theorem find_last_of_outside:
  assumes "set (sv_to_string mem s) \<inter> set (sv_to_string mem v) = {}" and "sv_find_last_of mem s v pos = Some r"
  shows "m_size s \<le> r"
proof (rule find_last_loop_outside [OF assms(2) [unfolded sv_find_last_of_def]])
  show "\<not> in_view mem v (sv_to_string mem s ! l) 0" if "l < unat (m_size s)" for l
    using nth_mem [of l "sv_to_string mem s"] that assms(1) by (simp add: in_view_drop disjoint_iff del: nth_sv)
qed


section \<open>Searching for a sub-view\<close>

lemma search_down_below:
  "(\<And>l. l \<le> unat i \<Longrightarrow> \<not> Q (of_nat l)) \<Longrightarrow> search_down Q i = search_down Q (- 1)"
proof (induction "unat i" arbitrary: i)
  case 0
  then have "i = 0" by (simp add: unat_eq_0)
  with 0(2) [of 0] show ?case by (subst search_down.simps) simp
next
  case (Suc n)
  have i: "of_nat (Suc n) = i" using Suc.hyps(2) by (metis of_nat_unat ucast_id)
  have "i \<noteq> 0" using Suc.hyps(2) by auto
  then have n: "unat (i - 1) = n" using Suc.hyps(2) by (simp add: unat_minus_one)
  have "\<not> Q i" using Suc.prems [of "Suc n"] Suc.hyps(2) i by simp
  moreover have "search_down Q (i - 1) = search_down Q (- 1)"
    by (rule Suc.hyps(1) [OF n [symmetric]]) (use Suc.prems n Suc.hyps(2) in \<open>simp add: le_SucI\<close>)
  ultimately show ?case by (subst search_down.simps) simp
qed

definition occurs_at :: "mem \<Rightarrow> sv \<Rightarrow> sv \<Rightarrow> nat \<Rightarrow> bool" where
  "occurs_at mem s v k = (take (unat (m_size v)) (drop k (sv_to_string mem s)) = sv_to_string mem v)"

lemma occurs_at_nth:
  "k + unat (m_size v) \<le> unat (m_size s) \<Longrightarrow>
     occurs_at mem s v k \<longleftrightarrow> (\<forall>l<unat (m_size v). mem (m_str v + of_nat l) = mem (m_str s + of_nat (k + l)))"
  unfolding occurs_at_def list_eq_iff_nth_eq by (auto simp: eq_commute)

text \<open>One alignment; at an occurrence the characters in front of it and of the needle have to differ.\<close>

lemma mismatch_down_occurs:
  assumes "0 < m_size v" and "unat i + unat (m_size v) \<le> unat (m_size s)"
    and "occurs_at mem s v (unat i) \<Longrightarrow> mem (m_str v - 1) \<noteq> mem (m_str s + (i - 1))"
  shows "\<exists>j. mismatch_down mem s v i = Some j \<and> (j = - 1 \<longleftrightarrow> occurs_at mem s v (unat i))"
proof -
  let ?Q = "\<lambda>j. mem (m_str v + j) \<noteq> mem (m_str s + (i + j))"
  have u: "unat (m_size v - 1) = unat (m_size v) - 1"
    using assms(1) by (simp add: unat_minus_one word_greater_zero_iff)
  have v0: "0 < unat (m_size v)" using assms(1) by (simp add: word_less_nat_alt)
  have le: "l \<le> unat (m_size v - 1) \<longleftrightarrow> l < unat (m_size v)" for l unfolding u using v0 by linarith
  have occ: "occurs_at mem s v (unat i) \<longleftrightarrow> (\<forall>l\<le>unat (m_size v - 1). \<not> ?Q (of_nat l))"
    unfolding occurs_at_nth [OF assms(2)] le by (simp add: add_ac)
  show ?thesis
  proof (cases "occurs_at mem s v (unat i)")
    case True
    then have "search_down ?Q (m_size v - 1) = search_down ?Q (- 1)"
      using occ by (intro search_down_below) blast
    also have "\<dots> = Some (- 1)" using assms(3) [OF True] by (subst search_down.simps) simp
    finally show ?thesis using True by (simp add: mismatch_down_def)
  next
    case False
    define k where "k = Max {l. l \<le> unat (m_size v - 1) \<and> ?Q (of_nat l)}"
    let ?S = "{l. l \<le> unat (m_size v - 1) \<and> ?Q (of_nat l)}"
    have "?S \<noteq> {}" "finite ?S" using False occ by auto
    then have k: "k \<in> ?S" and m: "\<And>l. l \<in> ?S \<Longrightarrow> l \<le> k"
      unfolding k_def by (auto intro: Max_in simp del: mem_Collect_eq)
    have "search_down ?Q (m_size v - 1) = Some (of_nat k)"
    proof (rule search_down_to)
      show "\<not> ?Q (of_nat l)" if "k < l" "l \<le> unat (m_size v - 1)" for l
        using m [of l] that by auto
    qed (use k in auto)
    moreover have "of_nat k \<noteq> (- 1 :: 64 word)"
    proof
      assume "of_nat k = (- 1 :: 64 word)"
      then have "unat (of_nat k :: 64 word) = 2 ^ 64 - 1" by (simp add: unsigned_minus_1_eq_mask mask_eq_exp_minus_1)
      moreover have "k < unat (m_size v)" using k u v0 by auto
      moreover have "unat (m_size v) < 2 ^ 64" using unsigned_less [of "m_size v"] by simp
      ultimately show False by (simp add: unat_of_nat)
    qed
    ultimately show ?thesis using False by (simp add: mismatch_down_def)
  qed
qed

lemma find_loop_spec:
  assumes "0 < m_size v" and "m_size v \<le> m_size s" and mx: "max_index = m_size s - m_size v"
    and guard: "\<And>i. i < max_index \<Longrightarrow> occurs_at mem s v (unat i) \<Longrightarrow> mem (m_str v - 1) \<noteq> mem (m_str s + (i - 1))"
  shows "find_loop mem s v max_index i = Some (first_index (occurs_at mem s v) (unat i) (unat max_index))"
proof (induction "unat max_index - unat i" arbitrary: i)
  case 0
  then have "\<not> i < max_index" by (simp add: word_less_nat_alt)
  with 0 show ?case by (subst find_loop.simps, subst first_index_step) (simp add: word_less_nat_alt)
next
  case (Suc n)
  then have i: "i < max_index" by (simp add: word_less_nat_alt)
  have "unat max_index = unat (m_size s) - unat (m_size v)" "unat (m_size v) \<le> unat (m_size s)"
    using assms(2) unfolding mx by (simp_all add: unat_sub word_le_nat_alt)
  then have "unat i + unat (m_size v) \<le> unat (m_size s)" using i by (simp add: word_less_nat_alt)
  from mismatch_down_occurs [OF assms(1) this guard [OF i]] obtain j
    where j: "mismatch_down mem s v i = Some j" "j = - 1 \<longleftrightarrow> occurs_at mem s v (unat i)" by blast
  have "j + 1 = 0 \<longleftrightarrow> j = - 1" by (simp add: eq_neg_iff_add_eq_0)
  moreover have "find_loop mem s v max_index (i + 1) = Some (first_index (occurs_at mem s v) (unat (i + 1)) (unat max_index))"
    by (rule Suc.hyps(1)) (use Suc.hyps(2) unat_up [OF i] in simp)
  ultimately show ?case using j i
    by (subst find_loop.simps, subst first_index_step) (simp add: word_less_nat_alt unat_up)
qed

text \<open>
  \<open>find\<close> of a non-empty needle that is no longer than the view, when the character in front
  of every occurrence differs from the one in front of the needle: it ends and returns the
  first occurrence from \<open>pos\<close> on among the alignments before the last one, which it never looks
  at; \<open>npos\<close> if there is none.
\<close>

theorem find_skips_last:
  assumes "0 < m_size v" and "m_size v \<le> m_size s"
    and "\<forall>i < m_size s - m_size v. occurs_at mem s v (unat i) \<longrightarrow> sv_nth mem v (- 1) \<noteq> sv_nth mem s (i - 1)"
  shows "sv_find mem s v pos =
    Some (first_index (occurs_at mem s v) (unat pos) (unat (m_size s) - unat (m_size v)))"
proof -
  have "unat (m_size s - m_size v) = unat (m_size s) - unat (m_size v)"
    using assms(2) by (simp add: unat_sub word_le_nat_alt)
  moreover have "sv_find mem s v pos =
      Some (first_index (occurs_at mem s v) (unat pos) (unat (m_size s - m_size v)))"
    unfolding sv_find_def
    by (rule find_loop_spec [OF assms(1,2) refl]) (use assms(3) in \<open>simp add: sv_nth_def\<close>)
  ultimately show ?thesis by simp
qed

theorem find_skips_last_witness:
  "sv_find demo_mem (mk_sv 107 8) (mk_sv 117 2) 0 = Some 2 \<and> sv_find demo_mem (mk_sv 107 8) (mk_sv 121 2) 0 = Some npos"
proof -
  have six: "(i :: 64 word) < 6 \<longleftrightarrow> i \<in> {0, 1, 2, 3, 4, 5}" for i
  proof
    assume "i < 6"
    then have "unat i < 6" by (simp add: word_less_nat_alt)
    then have "unat i = 0 \<or> unat i = 1 \<or> unat i = 2 \<or> unat i = 3 \<or> unat i = 4 \<or> unat i = 5" by linarith
    then show "i \<in> {0, 1, 2, 3, 4, 5}" by (simp add: word_unat_eq_iff)
  qed auto
  have st: "sv_to_string demo_mem (mk_sv 107 8) = ''--STATUS''"
    by (simp add: sv_to_string_def bytes_def upt_rec demo_mem_def)
  have n: "sv_to_string demo_mem (mk_sv 117 2) = ''ST''" "sv_to_string demo_mem (mk_sv 121 2) = ''US''"
    by (simp_all add: sv_to_string_def bytes_def upt_rec demo_mem_def)
  have "sv_find demo_mem (mk_sv 107 8) (mk_sv 117 2) 0 = Some 2"
    by (subst find_skips_last) (simp_all add: six occurs_at_def st n sv_nth_def demo_mem_def first_index_def upt_rec)
  moreover have "sv_find demo_mem (mk_sv 107 8) (mk_sv 121 2) 0 = Some npos"
    by (subst find_skips_last) (simp_all add: six occurs_at_def st n sv_nth_def demo_mem_def first_index_def upt_rec)
  ultimately show ?thesis by simp
qed

text \<open>A view is not found in itself, and a search in a memory of equal characters does not end.\<close>

theorem find_self: "sv_find mem s s pos = Some npos"
  by (simp add: sv_find_def find_loop.simps)

theorem find_constant_memory:
  assumes "m_size v < m_size s" and "pos < m_size s - m_size v"
  shows "sv_find (\<lambda>_. c) s v pos = None"
proof -
  have "mismatch_down (\<lambda>_. c) s v pos = None"
    unfolding mismatch_down_def by (metis not_None_eq search_down_hit)
  then show ?thesis using assms by (simp add: sv_find_def find_loop.simps)
qed


text \<open>\<open>rfind\<close> matches the needle read backwards.\<close>

lemma mismatch_up_all:
  "j \<le> m_size v \<Longrightarrow> mismatch_up mem s v i j = m_size v \<longleftrightarrow>
     (\<forall>l. j \<le> l \<and> l < m_size v \<longrightarrow> mem (m_str v + l) = mem (m_str s + (i - l)))"
proof (induction mem s v i j rule: mismatch_up.induct)
  case (1 mem s v i j)
  show ?case
  proof (cases "j < m_size v")
    case True
    have "j + 1 \<le> m_size v" using True unat_up [OF True] by (simp add: word_le_nat_alt word_less_nat_alt)
    moreover have "j \<le> l \<longleftrightarrow> l = j \<or> j + 1 \<le> l" for l
      using unat_up [OF True] by (auto simp: word_le_nat_alt) (metis antisym_conv1 less_eq_Suc_le word_unat_eq_iff)
    ultimately show ?thesis using True 1 by (subst mismatch_up.simps) auto
  next
    case False
    then show ?thesis using "1.prems" by (subst mismatch_up.simps) auto
  qed
qed

theorem rfind_reversed:
  assumes "sv_rfind mem s v pos = Some r" and "l < m_size v"
  shows "sv_nth mem v l = sv_nth mem s (r - l)"
  using search_down_hit [OF assms(1) [unfolded sv_rfind_def]] assms(2)
  by (simp add: mismatch_up_all sv_nth_def)

text \<open>
  \<open>copy\<close> takes one character more than asked for, and none at all for the default count;
  \<open>substr\<close> refuses the position at the end of the view.
\<close>

theorem copy_one_more:
  assumes "pos < m_size s" and "count < m_size s - pos"
  shows "sv_copy s dest count pos mem = Inr (count + 1, std_copy (m_str s + pos) (Suc (unat count)) dest mem)"
proof -
  have "count + 1 \<le> m_size s - pos" using assms(2) unat_up [OF assms(2)] by (simp add: word_le_nat_alt word_less_nat_alt)
  then show ?thesis using assms unat_up [OF assms(2)] by (simp add: sv_copy_def min_absorb2)
qed

theorem copy_default: "pos < m_size s \<Longrightarrow> sv_copy s dest npos pos mem = Inr (0, mem)"
  by (simp add: sv_copy_def npos_def)

theorem substr_at_end: "sv_substr s (m_size s) len = Inl (Out_of_range ''Index out of range in basic_string_view::substr'')"
  by (simp add: sv_substr_def)

theorem substr_chars:
  assumes "sv_substr s pos len = Inr t"
  shows "sv_to_string mem t = take (unat len) (drop (unat pos) (sv_to_string mem s))"
proof -
  have p: "pos < m_size s" and t: "t = mk_sv (m_str s + pos) (min len (m_size s - pos))"
    using assms by (auto simp: sv_substr_def min_def Let_def split: if_splits)
  have "unat (m_size s - pos) = unat (m_size s) - unat pos"
    using p by (simp add: unat_sub word_le_nat_alt word_less_nat_alt)
  then have n: "unat (m_size t) = min (unat len) (unat (m_size s) - unat pos)"
    by (simp add: t min_def word_le_nat_alt)
  have st: "m_str t = m_str s + pos" by (simp add: t)
  show ?thesis
    using p st by (intro nth_equalityI) (auto simp: n add_ac word_less_nat_alt)
qed

end
