(* ===== verification/JvmHandles.thy ===== *)
theory JvmHandles
  imports JvmOptions "HOL-Library.Multiset"
begin

text \<open>
  The three handles a session state owns: the JVM library, the JVM and the environment of the
  thread that made it. They are smart pointers with the deleters \<open>close_libjvm\<close>, \<open>cleanup_jvm\<close>
  and \<open>cleanup_jnienv\<close> of \<open>session-state.cpp\<close>; here is how they are opened (\<open>createjvm.cpp\<close>), handed
  on and given up in the processes of \<open>spartan.cpp\<close>. What the deleters do to the handles is recorded
  as a list of events. A fork copies a session state, and each process has events of its own.
\<close>

section \<open>The deleters\<close>

datatype handle_event =
    Lib_closed nat | Jvm_destroyed nat
  | Env_asked nat \<comment> \<open>\<open>ExceptionOccurred\<close>\<close>
  | Env_described nat

definition close_libjvm :: "nat option \<Rightarrow> handle_event list \<Rightarrow> handle_event list" where
  "close_libjvm hlibjvm ev = (case hlibjvm of None \<Rightarrow> ev | Some h \<Rightarrow> ev @ [Lib_closed h])"

definition cleanup_jvm :: "nat option \<Rightarrow> handle_event list \<Rightarrow> handle_event list" where
  "cleanup_jvm jvmp ev = (case jvmp of None \<Rightarrow> ev | Some h \<Rightarrow> ev @ [Jvm_destroyed h])"

definition cleanup_jnienv :: "(nat \<Rightarrow> bool) \<Rightarrow> nat option \<Rightarrow> handle_event list \<Rightarrow> handle_event list" where
  "cleanup_jnienv occurred envp ev =
     (case envp of None \<Rightarrow> ev | Some h \<Rightarrow> ev @ Env_asked h # (if occurred h then [Env_described h] else []))"

definition open_jvm_runtime_module :: "(string \<Rightarrow> string + nat) \<Rightarrow> string \<Rightarrow> create_jvm_error + nat" where
  \<comment> \<open>\<open>dlopen\<close> gives a handle or the text of \<open>dlerror\<close>\<close>
  "open_jvm_runtime_module dlopen lib_path =
     (case dlopen lib_path of
        Inl err \<Rightarrow> Inl (Create_jvm_exception (format2str
          (''failed to load the Java JVM runtime '' @ [DQUOTE] @ lib_path @ [DQUOTE, NL, CHR 0x09] @ err)))
      | Inr h \<Rightarrow> Inr h)"

section \<open>Operations of a session state on its handles\<close>

type_synonym session_ev = "session_state \<times> handle_event list"

definition session_create_jvm ::
  "(nat \<Rightarrow> bool) \<Rightarrow> (nat option \<Rightarrow> string \<Rightarrow> create_jvm_error + nat \<times> nat) \<Rightarrow> string \<Rightarrow> session_ev \<Rightarrow> (create_jvm_error + unit) \<times> session_ev" where
  \<comment> \<open>\<open>sessionState::create_jvm\<close>; \<open>mk\<close> is \<open>create_jvm\<close>\<close>
  "session_create_jvm occurred mk jvm_override_optns s =
     (case s of (ss, ev) \<Rightarrow>
        (case mk (libjvm_sp ss) jvm_override_optns of
           Inl e \<Rightarrow> (Inl e, ss, ev)
         | Inr (jvm, env) \<Rightarrow>
             (Inr (), ss\<lparr>jvm_sp := Some jvm, env_sp := Some env\<rparr>, cleanup_jnienv occurred (env_sp ss) (cleanup_jvm (jvm_sp ss) ev))))"

definition move_session :: "(nat \<Rightarrow> bool) \<Rightarrow> session_state \<Rightarrow> session_state \<Rightarrow> handle_event list \<Rightarrow> session_state \<times> session_ev" where
  \<comment> \<open>the move assignment, with what becomes of the handles on its left side\<close>
  "move_session occurred self ss ev =
     (case move_assign self ss of (self', ss') \<Rightarrow>
        (self', ss', cleanup_jnienv occurred (env_sp self) (cleanup_jvm (jvm_sp self) (close_libjvm (libjvm_sp self) ev))))"

definition destroy_session :: "(nat \<Rightarrow> bool) \<Rightarrow> session_ev \<Rightarrow> handle_event list" where
  \<comment> \<open>the destructor: members last to first\<close>
  "destroy_session occurred s =
     (case s of (ss, ev) \<Rightarrow> close_libjvm (libjvm_sp ss) (cleanup_jvm (jvm_sp ss) (cleanup_jnienv occurred (env_sp ss) ev)))"

definition take_over_jvm :: "(nat \<Rightarrow> bool) \<Rightarrow> session_state \<Rightarrow> session_state \<Rightarrow> handle_event list \<Rightarrow> session_state \<times> session_ev" where
  \<comment> \<open>in the supervisor process: \<open>shm_session\<close> takes the library and the JVM, and the environment goes\<close>
  "take_over_jvm occurred shm_session session ev =
     (let ev = close_libjvm (libjvm_sp shm_session) ev;
          ev = cleanup_jvm (jvm_sp shm_session) ev;
          ev = cleanup_jnienv occurred (env_sp session) ev
      in (shm_session\<lparr>libjvm_sp := libjvm_sp session, jvm_sp := jvm_sp session\<rparr>,
          session\<lparr>libjvm_sp := None, jvm_sp := None, env_sp := None\<rparr>, ev))"

definition release_library :: "session_state \<Rightarrow> session_state" where
  \<comment> \<open>the first thing \<open>cleanup_supervisor_jvm_ctx\<close> does\<close>
  "release_library session = session\<lparr>libjvm_sp := None\<rparr>"

definition release_handles :: "session_state \<Rightarrow> session_state" where
  "release_handles session = session\<lparr>env_sp := None, jvm_sp := None, libjvm_sp := None\<rparr>"

definition jni_detach_thread :: "(nat \<Rightarrow> bool) \<Rightarrow> bool \<Rightarrow> nat option \<Rightarrow> int" where
  \<comment> \<open>\<open>detached\<close>: \<open>DetachCurrentThread\<close> answers \<open>JNI_OK\<close>; a pending exception goes to the log\<close>
  "jni_detach_thread pending detached envp =
     (let ret = (case envp of None \<Rightarrow> EXIT_SUCCESS | Some e \<Rightarrow> if pending e then EXIT_FAILURE else EXIT_SUCCESS)
      in if \<not> detached then EXIT_FAILURE else ret)"

section \<open>What each process does with them\<close>

definition supervisor_handles_run ::
  "(nat \<Rightarrow> bool) \<Rightarrow> (nat option \<Rightarrow> string \<Rightarrow> create_jvm_error + nat \<times> nat) \<Rightarrow> session_state \<Rightarrow> session_state \<Rightarrow> (create_jvm_error + unit) \<times> handle_event list" where
  \<comment> \<open>the supervisor process, from the fork to the end of \<open>session\<close> in its caller; an exception of
      \<open>create_jvm\<close> leaves through the same cleanup\<close>
  "supervisor_handles_run occurred mk session shm_session =
     (case session_create_jvm occurred mk [] (session, []) of
        (Inl e, session, ev) \<Rightarrow>
          (Inl e, destroy_session occurred (release_handles (release_library session), destroy_session occurred (ss_default, ev)))
      | (Inr _, session, ev) \<Rightarrow>
          (let (shm_session, session, ev) = take_over_jvm occurred shm_session session ev;
               session = release_handles (release_library session);
               ev = destroy_session occurred (shm_session, ev)
           in (Inr (), destroy_session occurred (session, ev))))"

definition launcher_handles_run :: "(nat \<Rightarrow> bool) \<Rightarrow> session_state \<Rightarrow> handle_event list" where
  \<comment> \<open>the launcher process; its \<open>shm_session\<close> stays empty\<close>
  "launcher_handles_run occurred session =
     destroy_session occurred (release_library session, destroy_session occurred (ss_default, []))"

definition child_handles_run ::
  "(nat \<Rightarrow> bool) \<Rightarrow> (nat option \<Rightarrow> string \<Rightarrow> create_jvm_error + nat \<times> nat) \<Rightarrow> string \<Rightarrow> session_state \<Rightarrow> session_state \<Rightarrow> session_state \<times> session_ev" where
  \<comment> \<open>a child process up to \<open>exit\<close>, which destroys no local: the two session states and the events\<close>
  "child_handles_run occurred mk jvm_override_optns session shm_session_st =
     (let ev = close_libjvm (libjvm_sp shm_session_st) [];
          shm_session_st = shm_session_st\<lparr>libjvm_sp := libjvm_sp session\<rparr>;
          session = session\<lparr>libjvm_sp := None\<rparr>
      in case session_create_jvm occurred mk jvm_override_optns (shm_session_st, ev) of
           (Inl e, shm_session_st, ev) \<Rightarrow> (session, shm_session_st, ev)
         | (Inr _, shm_session_st, ev) \<Rightarrow> (session, release_handles shm_session_st, ev))"

lemmas handle_defs = close_libjvm_def cleanup_jvm_def cleanup_jnienv_def destroy_session_def take_over_jvm_def release_library_def
  release_handles_def session_create_jvm_def

section \<open>Nothing is given up twice\<close>

text \<open>
  Two session states of one process, in any order of operations: handles are numbered as they are
  made. A step with \<open>True\<close> works on the first state, with \<open>False\<close> on the second.
\<close>

record handle_world =
  hw_a :: session_state
  hw_b :: session_state
  hw_ev :: "handle_event list"
  hw_next :: nat

datatype handle_op = Open_library | Create_jvm | Move | Take_over | Release_library | Release_handles | Destroy | Swap_roles

definition opt_list :: "'a option \<Rightarrow> 'a list" where
  "opt_list h = (case h of None \<Rightarrow> [] | Some x \<Rightarrow> [x])"

definition owned :: "session_state \<Rightarrow> nat list" where
  "owned ss = opt_list (libjvm_sp ss) @ opt_list (jvm_sp ss) @ opt_list (env_sp ss)"

fun given_up :: "handle_event list \<Rightarrow> nat list" where
  "given_up [] = []"
| "given_up (Lib_closed h # ev) = h # given_up ev"
| "given_up (Jvm_destroyed h # ev) = h # given_up ev"
| "given_up (Env_asked h # ev) = h # given_up ev"
| "given_up (Env_described h # ev) = given_up ev"

fun handle_step :: "(nat \<Rightarrow> bool) \<Rightarrow> handle_world \<Rightarrow> handle_op \<Rightarrow> handle_world" where
  "handle_step occurred hw Open_library =
     hw\<lparr>hw_a := (hw_a hw)\<lparr>libjvm_sp := Some (hw_next hw)\<rparr>, hw_ev := close_libjvm (libjvm_sp (hw_a hw)) (hw_ev hw), hw_next := hw_next hw + 1\<rparr>"
| "handle_step occurred hw Create_jvm =
     (case session_create_jvm occurred (\<lambda>lib opts. Inr (hw_next hw, hw_next hw + 1)) [] (hw_a hw, hw_ev hw) of
        (r, a, ev) \<Rightarrow> hw\<lparr>hw_a := a, hw_ev := ev, hw_next := hw_next hw + 2\<rparr>)"
| "handle_step occurred hw Move =
     (case move_session occurred (hw_a hw) (hw_b hw) (hw_ev hw) of (a, b, ev) \<Rightarrow> hw\<lparr>hw_a := a, hw_b := b, hw_ev := ev\<rparr>)"
| "handle_step occurred hw Take_over =
     (case take_over_jvm occurred (hw_a hw) (hw_b hw) (hw_ev hw) of (a, b, ev) \<Rightarrow> hw\<lparr>hw_a := a, hw_b := b, hw_ev := ev\<rparr>)"
| "handle_step occurred hw Release_library = hw\<lparr>hw_a := release_library (hw_a hw)\<rparr>"
| "handle_step occurred hw Release_handles = hw\<lparr>hw_a := release_handles (hw_a hw)\<rparr>"
| "handle_step occurred hw Destroy = hw\<lparr>hw_a := ss_default, hw_ev := destroy_session occurred (hw_a hw, hw_ev hw)\<rparr>"
| "handle_step occurred hw Swap_roles = hw\<lparr>hw_a := hw_b hw, hw_b := hw_a hw\<rparr>"

definition all_handles :: "handle_world \<Rightarrow> nat list" where
  \<comment> \<open>every handle in sight, once for each owner and each time it was given up\<close>
  "all_handles hw = owned (hw_a hw) @ owned (hw_b hw) @ given_up (hw_ev hw)"

definition handles_inv :: "handle_world \<Rightarrow> bool" where
  "handles_inv hw = (distinct (all_handles hw) \<and> set (all_handles hw) \<subseteq> {..<hw_next hw})"

lemma opt_list_simps [simp]: "opt_list None = []" "opt_list (Some x) = [x]" "set (opt_list h) = set_option h" "distinct (opt_list h)"
  by (auto simp: opt_list_def split: option.splits)

lemma given_up_append [simp]: "given_up (xs @ ys) = given_up xs @ given_up ys"
  by (induction xs rule: given_up.induct) auto

lemma given_up_deleters [simp]:
  "given_up (close_libjvm h ev) = given_up ev @ opt_list h"
  "given_up (cleanup_jvm h ev) = given_up ev @ opt_list h"
  "given_up (cleanup_jnienv oc h ev) = given_up ev @ opt_list h"
  by (auto simp: handle_defs split: option.splits)

lemma owned_default [simp]: "owned ss_default = []" by (simp add: owned_def ss_default_def)

lemma distinct_sub: "mset xs \<subseteq># mset ys \<Longrightarrow> distinct ys \<Longrightarrow> distinct xs"
proof -
  assume "mset xs \<subseteq># mset ys" and d: "distinct ys"
  then obtain zs where "mset ys = mset (xs @ zs)"
    by (metis ex_mset mset_append mset_subset_eq_exists_conv)
  from mset_eq_imp_distinct_iff [OF this] d show ?thesis by simp
qed

lemma handle_step_handles:
  "hw_next hw \<le> hw_next (handle_step occurred hw e) \<and>
   mset (all_handles (handle_step occurred hw e)) \<subseteq># mset (all_handles hw @ [hw_next hw..<hw_next (handle_step occurred hw e)])"
  by (cases e) (simp_all add: all_handles_def owned_def session_create_jvm_def move_session_def move_assign_def clone_info_part_def
        take_over_jvm_def release_library_def release_handles_def destroy_session_def ss_default_def Let_def ac_simps)

interpretation handles: event_machine "handle_step occurred" handles_inv
proof
  fix hw e assume inv: "handles_inv hw"
  let ?hw = "handle_step occurred hw e" and ?new = "all_handles hw @ [hw_next hw..<hw_next (handle_step occurred hw e)]"
  note st = handle_step_handles [of hw occurred e]
  have "distinct ?new" using inv by (auto simp: handles_inv_def)
  with st have "distinct (all_handles ?hw)" by (blast intro: distinct_sub)
  moreover have "set (all_handles ?hw) \<subseteq> set ?new" using set_mset_mono [OF conjunct2 [OF st]] by simp
  moreover have "set ?new \<subseteq> {..<hw_next ?hw}" using inv conjunct1 [OF st] by (auto simp: handles_inv_def subset_iff intro: less_le_trans)
  ultimately show "handles_inv ?hw" by (auto simp: handles_inv_def)
qed

text \<open>
  C21. No handle is given up twice. In whatever order two session states are opened, moved into each
  other, relieved of their handles and destroyed, every handle has at most one owner and is closed,
  destroyed or reset at most once, and never while a session state still owns it.
\<close>

theorem handles_given_up_once:
  assumes "hw = foldl (handle_step occurred) \<lparr>hw_a = ss_default, hw_b = ss_default, hw_ev = [], hw_next = 0\<rparr> ops"
  shows "distinct (owned (hw_a hw) @ owned (hw_b hw) @ given_up (hw_ev hw))"
proof -
  have "handles_inv \<lparr>hw_a = ss_default, hw_b = ss_default, hw_ev = [], hw_next = 0\<rparr>"
    by (simp add: handles_inv_def all_handles_def)
  from handles.run_inv [OF this, of occurred ops] show ?thesis by (simp add: assms handles_inv_def all_handles_def)
qed

theorem handles_given_up_once_witness:
  "\<exists>hw. hw = foldl (handle_step (\<lambda>_. True)) \<lparr>hw_a = ss_default, hw_b = ss_default, hw_ev = [], hw_next = 0\<rparr>
       [Open_library, Create_jvm, Swap_roles, Take_over, Destroy] \<and>
     hw_ev hw = [Env_asked 2, Env_described 2, Jvm_destroyed 1, Lib_closed 0] \<and> distinct (owned (hw_a hw) @ owned (hw_b hw) @ given_up (hw_ev hw))"
proof -
  let ?hw = "foldl (handle_step (\<lambda>_. True)) \<lparr>hw_a = ss_default, hw_b = ss_default, hw_ev = [], hw_next = 0\<rparr>
       [Open_library, Create_jvm, Swap_roles, Take_over, Destroy]"
  have "hw_ev ?hw = [Env_asked 2, Env_described 2, Jvm_destroyed 1, Lib_closed 0]"
    by (simp add: handle_defs ss_default_def)
  with handles_given_up_once [OF refl, of "\<lambda>_. True" "[Open_library, Create_jvm, Swap_roles, Take_over, Destroy]"] show ?thesis
    by (intro exI [of _ ?hw]) simp
qed

section \<open>The processes\<close>

text \<open>
  C13. Only the supervisor process destroys the JVM, once and after its thread's environment was
  asked for an exception, and only then unloads the library; when no JVM could be made, and in the
  launcher and the child processes, nothing is closed or destroyed, and a child that has its JVM
  leaves no handle behind in its session states.
\<close>

theorem jvm_destroyed_in_order:
  assumes "libjvm_sp session = Some l" "jvm_sp session = None" "env_sp session = None"
    and "libjvm_sp shm = None" "jvm_sp shm = None" "env_sp shm = None"
  shows "supervisor_handles_run oc mk session shm =
       (case mk (Some l) [] of
          Inl e \<Rightarrow> (Inl e, [])
        | Inr (v, n) \<Rightarrow> (Inr (), Env_asked n # (if oc n then [Env_described n] else []) @ [Jvm_destroyed v, Lib_closed l])) \<and>
     launcher_handles_run oc session = [] \<and>
     (\<forall>optns. snd (snd (child_handles_run oc mk optns session shm)) = [] \<and>
        (\<forall>v n. mk (Some l) optns = Inr (v, n) \<longrightarrow>
           owned (fst (child_handles_run oc mk optns session shm)) = [] \<and> owned (fst (snd (child_handles_run oc mk optns session shm))) = []))"
  using assms
  by (auto simp: supervisor_handles_run_def launcher_handles_run_def child_handles_run_def handle_defs owned_def ss_default_def Let_def
      split: sum.splits prod.splits)

theorem jvm_destroyed_in_order_witness:
  "supervisor_handles_run (\<lambda>n. n = 8) (\<lambda>lib o'. Inr (7, 8)) (ss_default\<lparr>libjvm_sp := Some 6\<rparr>) ss_default =
     (Inr (), [Env_asked 8, Env_described 8, Jvm_destroyed 7, Lib_closed 6])"
  using jvm_destroyed_in_order [of "ss_default\<lparr>libjvm_sp := Some 6\<rparr>" 6 ss_default "\<lambda>n. n = 8" "\<lambda>lib o'. Inr (7, 8)"]
  by (simp add: ss_default_def)

text \<open>
  The move assignment resets the handles in the order of their declaration, the other way round
  than the destructor: over a session state that is alive it unloads the library before the JVM of
  that library is destroyed.
\<close>

theorem move_unloads_first:
  "snd (snd (move_session oc (ss\<lparr>libjvm_sp := Some l, jvm_sp := Some v\<rparr>) other ev)) =
     ev @ [Lib_closed l, Jvm_destroyed v] @ cleanup_jnienv oc (env_sp ss) []"
  by (simp add: move_session_def move_assign_def handle_defs Let_def split: option.splits)

end
