(* ===== verification/MemBuf.thy ===== *)
theory MemBuf
  imports CmdDispatch
begin

text \<open>
  The stream buffers over memory the caller owns: \<open>memBufStream\<close> and its two subclasses, and
  \<open>streambufWrapper\<close>, through which the session state is read from shared memory. A pointer is an
  offset into the memory. Of \<open>std::streambuf\<close> there are the six pointers, the functions of the
  standard that move them, and the defaults of \<open>overflow\<close> and \<open>underflow\<close>, which give the end of file.
\<close>

section \<open>std::streambuf\<close>

record streambuf =
  pbase :: nat
  pptr :: nat
  epptr :: nat
  eback :: nat
  gptr :: nat
  egptr :: nat

definition streambuf_init :: streambuf where
  \<comment> \<open>null pointers: both areas are empty\<close>
  "streambuf_init = \<lparr>pbase = 0, pptr = 0, epptr = 0, eback = 0, gptr = 0, egptr = 0\<rparr>"

definition setp :: "nat \<Rightarrow> nat \<Rightarrow> 'a streambuf_scheme \<Rightarrow> 'a streambuf_scheme" where
  "setp b e sb = sb\<lparr>pbase := b, pptr := b, epptr := e\<rparr>"

definition setg :: "nat \<Rightarrow> nat \<Rightarrow> nat \<Rightarrow> 'a streambuf_scheme \<Rightarrow> 'a streambuf_scheme" where
  "setg b c e sb = sb\<lparr>eback := b, gptr := c, egptr := e\<rparr>"

definition sbumpc :: "string \<Rightarrow> 'a streambuf_scheme \<Rightarrow> char option \<times> 'a streambuf_scheme" where
  "sbumpc mem sb = (if gptr sb < egptr sb then (Some (mem ! gptr sb), sb\<lparr>gptr := gptr sb + 1\<rparr>) else (None, sb))"

primrec sgetn :: "nat \<Rightarrow> string \<Rightarrow> 'a streambuf_scheme \<Rightarrow> string \<times> 'a streambuf_scheme" where
  "sgetn 0 mem sb = ([], sb)"
| "sgetn (Suc n) mem sb =
     (case sbumpc mem sb of
        (None, sb) \<Rightarrow> ([], sb)
      | (Some c, sb) \<Rightarrow> (case sgetn n mem sb of (cs, sb) \<Rightarrow> (c # cs, sb)))"

section \<open>memBufStream\<close>

record mem_buf_stream = streambuf +
  forInputOnly :: bool

datatype mem_buf_error = Buffer_exhausted

definition memBufStream :: "nat \<Rightarrow> nat \<Rightarrow> bool \<Rightarrow> mem_buf_stream" where
  "memBufStream buf sz forInput =
     (let sb = setp buf (buf + sz) (streambuf.extend streambuf_init \<lparr>forInputOnly = forInput\<rparr>)
      in if forInput then setg (pbase sb) (pbase sb) (epptr sb) sb else sb)"

definition memBufOStream :: "nat \<Rightarrow> nat \<Rightarrow> mem_buf_stream" where "memBufOStream buf sz = memBufStream buf sz False"
definition memBufIStream :: "nat \<Rightarrow> nat \<Rightarrow> mem_buf_stream" where "memBufIStream buf sz = memBufStream buf sz True"

definition membuf_overflow :: "mem_buf_stream \<Rightarrow> mem_buf_error + unit" where
  \<comment> \<open>\<open>__assert\<close> does not return, in the release build either\<close>
  "membuf_overflow sb = Inl Buffer_exhausted"

definition membuf_sputc :: "char \<Rightarrow> string \<times> mem_buf_stream \<Rightarrow> mem_buf_error + string \<times> mem_buf_stream" where
  "membuf_sputc c s =
     (case s of (mem, sb) \<Rightarrow>
        (if pptr sb < epptr sb then Inr (mem[pptr sb := c], sb\<lparr>pptr := pptr sb + 1\<rparr>)
         else bind_r (membuf_overflow sb) (\<lambda>_. Inr s)))"

primrec membuf_sputn :: "string \<Rightarrow> string \<times> mem_buf_stream \<Rightarrow> mem_buf_error + string \<times> mem_buf_stream" where
  "membuf_sputn [] s = Inr s"
| "membuf_sputn (c # cs) s = bind_r (membuf_sputc c s) (membuf_sputn cs)"

definition getMemBuf :: "mem_buf_stream \<Rightarrow> nat \<times> nat" where
  "getMemBuf sb = (pbase sb, if forInputOnly sb then epptr sb - pbase sb else pptr sb - pbase sb)"

definition resetForInput :: "mem_buf_stream \<Rightarrow> mem_buf_stream" where
  "resetForInput sb = setg (pbase sb) (pbase sb) (if forInputOnly sb then epptr sb else pptr sb) sb"

definition iGetUtilizedMemBuf :: "mem_buf_stream \<Rightarrow> nat \<times> nat" where
  "iGetUtilizedMemBuf sb = (pbase sb, gptr sb - pbase sb)"

definition streambufWrapper :: "nat \<Rightarrow> nat \<Rightarrow> streambuf" where
  "streambufWrapper pbuf sz = setg pbuf pbuf (pbuf + sz) streambuf_init"

section \<open>Reading and writing\<close>

lemma sgetn_eq:
  "egptr sb \<le> length mem \<Longrightarrow>
   sgetn n mem sb = (let k = min n (egptr sb - gptr sb) in (take k (drop (gptr sb) mem), sb\<lparr>gptr := gptr sb + k\<rparr>))"
proof (induction n arbitrary: sb)
  case (Suc n)
  show ?case
  proof (cases "gptr sb < egptr sb")
    case True
    then have "min (Suc n) (egptr sb - gptr sb) = Suc (min n (egptr sb - Suc (gptr sb)))" by (cases "egptr sb - gptr sb") auto
    moreover have "drop (gptr sb) mem = mem ! gptr sb # drop (Suc (gptr sb)) mem"
      using True Suc.prems by (intro Cons_nth_drop_Suc [symmetric]) simp
    ultimately show ?thesis using True Suc.IH [of "sb\<lparr>gptr := gptr sb + 1\<rparr>"] Suc.prems by (simp add: sbumpc_def Let_def)
  qed (simp add: sbumpc_def)
qed simp

lemma sputn_eq:
  "epptr sb \<le> length mem \<Longrightarrow> pptr sb \<le> epptr sb \<Longrightarrow>
   membuf_sputn s (mem, sb) =
     (if pptr sb + length s \<le> epptr sb then Inr (mem_write (pptr sb) s mem, sb\<lparr>pptr := pptr sb + length s\<rparr>)
      else Inl Buffer_exhausted)"
proof (induction s arbitrary: mem sb)
  case Nil
  then show ?case by (simp add: mem_write_def)
next
  case (Cons c s)
  have w: "mem_write (Suc p) s (mem[p := c]) = mem_write p (c # s) mem" if "p < length mem" for p
    using that by (simp add: mem_write_def upd_conv_take_nth_drop take_Suc_conv_app_nth ac_simps)
  show ?case using Cons.IH [of "sb\<lparr>pptr := pptr sb + 1\<rparr>" "mem[pptr sb := c]"] Cons.prems w [of "pptr sb"]
    by (auto simp: membuf_sputc_def membuf_overflow_def)
qed

lemma mem_write_nth:
  "p + length s \<le> length mem \<Longrightarrow> mem_write p s mem ! i = (if p \<le> i \<and> i < p + length s then s ! (i - p) else mem ! i)"
  by (auto simp: mem_write_def nth_append)

lemma mem_write_part: "p + length s \<le> length mem \<Longrightarrow> take n (drop p (mem_write p s mem)) = take n (s @ drop (p + length s) mem)"
  by (simp add: mem_write_def)

text \<open>
  What is written to a memory buffer is what is read from it. Over memory that has the buffer, a
  text that fits is stored whole: the buffer reports its start and the length of the text, and both
  the same buffer reset for input and an input buffer over those bytes give back any beginning of
  it and then the end of file. Nothing outside those bytes changes, and a text that is longer than
  the buffer ends the process.
\<close>

theorem membuf_roundtrip:
  assumes "buf + sz \<le> length mem"
  shows "case membuf_sputn s (mem, memBufOStream buf sz) of
      Inl e \<Rightarrow> sz < length s
    | Inr (mem', sb) \<Rightarrow>
        length s \<le> sz \<and> getMemBuf sb = (buf, length s) \<and> length mem' = length mem \<and>
        (\<forall>i. i < buf \<or> buf + length s \<le> i \<longrightarrow> mem' ! i = mem ! i) \<and>
        fst (sgetn n mem' (resetForInput sb)) = take n s \<and>
        (case sgetn n mem' (memBufIStream buf (length s)) of
           (got, ib) \<Rightarrow> got = take n s \<and> iGetUtilizedMemBuf ib = (buf, min n (length s)))"
proof -
  let ?sb = "memBufOStream buf sz"
  have sb: "pptr ?sb = buf" "epptr ?sb = buf + sz" "pbase ?sb = buf" "forInputOnly ?sb = False"
    by (simp_all add: memBufOStream_def memBufStream_def setp_def streambuf_init_def streambuf.defs)
  have w: "membuf_sputn s (mem, ?sb) =
      (if length s \<le> sz then Inr (mem_write buf s mem, ?sb\<lparr>pptr := buf + length s\<rparr>) else Inl Buffer_exhausted)"
    using sputn_eq [of ?sb mem s] assms by (simp add: sb)
  have len: "length (mem_write buf s mem) = length mem" if "length s \<le> sz"
    using that assms by (simp add: mem_write_def)
  have ib: "gptr (memBufIStream buf k) = buf" "egptr (memBufIStream buf k) = buf + k" "pbase (memBufIStream buf k) = buf" for k
    by (simp_all add: memBufIStream_def memBufStream_def setp_def setg_def streambuf_init_def streambuf.defs)
  have t: "take (min n (length s)) (drop buf (mem_write buf s mem)) = take n s" if "length s \<le> sz"
    using that assms by (simp add: mem_write_part min_def)
  show ?thesis
    using assms len t
    by (auto simp: w getMemBuf_def resetForInput_def setg_def sb sgetn_eq ib mem_write_nth iGetUtilizedMemBuf_def Let_def)
qed

theorem membuf_roundtrip_witness:
  "case membuf_sputn ''ok'' (''______'', memBufOStream 2 3) of
      Inl e \<Rightarrow> False
    | Inr (mem', sb) \<Rightarrow> mem' = ''__ok__'' \<and> getMemBuf sb = (2, 2) \<and> fst (sgetn 7 mem' (resetForInput sb)) = ''ok''"
proof -
  have "(2::nat) + 3 \<le> length ''______''" by simp
  from membuf_roundtrip [OF this, of "''ok''" 7] show ?thesis
    by (simp add: membuf_sputc_def memBufOStream_def memBufStream_def setp_def streambuf_init_def streambuf.defs)
qed

text \<open>
  The stream of the session state: the text that the state is read from in a child process is what
  \<open>streambufWrapper\<close> gives, character by character, and reading all of it stays in the region.
\<close>

theorem wrapper_reads_state:
  assumes "get_session_state_buf_info mem = Some (pos, len)" and "pos + len \<le> length mem"
  shows "get_cmd_dispatch_info junk mem ss = ss_in junk (istr (fst (sgetn len mem (streambufWrapper pos len)))) ss \<and>
     fst (sbumpc mem (snd (sgetn len mem (streambufWrapper pos len)))) = None"
  using assms
  by (simp add: get_cmd_dispatch_info_def sgetn_eq streambufWrapper_def setg_def streambuf_init_def sbumpc_def)

end
