(* ===== verification/JniStrings.thy ===== *)
theory JniStrings
  imports CmdDispatch "HOL-Library.Multiset"
begin

text \<open>
  The Java strings native code reads. A string is reached through a local reference, and its
  characters are held between \<open>GetStringUTFChars\<close> and \<open>ReleaseStringUTFChars\<close>; \<open>isCopy\<close> says whether
  they are a copy. Here are the deleter and the loop over an array of strings of
  \<open>process-cmd-dispatch-info.cpp\<close>, and the native log method of \<open>launch-program.cpp\<close>. What the
  environment still holds is a count of both kinds.
\<close>

record jni_heap =
  jh_next :: nat \<comment> \<open>the next local reference\<close>
  jh_locals :: "nat multiset"
  jh_held :: "nat multiset" \<comment> \<open>references whose characters are held\<close>

text \<open>An element of a Java array of strings: null, or its text and whether the JVM copies it.\<close>

type_synonym jstring_elem = "(string \<times> bool) option"

datatype jstring_fault = Null_string_ref

definition get_element :: "jni_heap \<Rightarrow> nat \<times> jni_heap" where
  "get_element h = (jh_next h, h\<lparr>jh_next := jh_next h + 1, jh_locals := add_mset (jh_next h) (jh_locals h)\<rparr>)"

definition get_chars :: "nat \<Rightarrow> jni_heap \<Rightarrow> jni_heap" where
  "get_chars j_str h = h\<lparr>jh_held := add_mset j_str (jh_held h)\<rparr>"

definition cleanup_jstr_t :: "bool \<Rightarrow> nat \<Rightarrow> jni_heap \<Rightarrow> jni_heap" where
  "cleanup_jstr_t isCopy j_str h =
     (let h = (if isCopy then h\<lparr>jh_held := jh_held h - {#j_str#}\<rparr> else h)
      in h\<lparr>jh_locals := jh_locals h - {#j_str#}\<rparr>)"

fun process_elements ::
  "(string \<Rightarrow> 'u \<Rightarrow> 'u) \<Rightarrow> jstring_elem list \<Rightarrow> jni_heap \<times> 'u \<Rightarrow> jstring_fault + jni_heap \<times> 'u" where
  "process_elements action [] s = Inr s"
| "process_elements action (elem # elems) (h, u) =
     (case elem of
        None \<Rightarrow> Inl Null_string_ref
      | Some (str, isCopy) \<Rightarrow>
          (let (j_str, h) = get_element h; h = get_chars j_str h; u = action (cstr str) u
           in process_elements action elems (cleanup_jstr_t isCopy j_str h, u)))"

definition process_jstring_array ::
  "(nat \<Rightarrow> 'u \<Rightarrow> 'u) \<Rightarrow> (string \<Rightarrow> 'u \<Rightarrow> 'u) \<Rightarrow> jstring_elem list \<Rightarrow> jni_heap \<times> 'u \<Rightarrow> jstring_fault + jni_heap \<times> 'u" where
  "process_jstring_array prepare action jstr_array s =
     (if length jstr_array > 0
      then (case s of (h, u) \<Rightarrow> process_elements action jstr_array (h, prepare (length jstr_array) u))
      else Inr s)"

definition append_class_path :: "string \<Rightarrow> string \<Rightarrow> string" where
  \<comment> \<open>the action for \<open>systemClassPath\<close>\<close>
  "append_class_path str cls_path_str = (if cls_path_str \<noteq> [] then cls_path_str @ '':'' @ str else str)"

definition java_log :: "int \<Rightarrow> string \<times> bool \<Rightarrow> nat \<Rightarrow> jni_heap \<times> logger \<Rightarrow> jni_heap \<times> logger" where
  \<comment> \<open>\<open>msg\<close> is the local reference the JVM made for the call; a number that is no level is compared
      like one, and gives a line on the standard output without the name of a level\<close>
  "java_log level text msg s =
     (case s of (h, lg) \<Rightarrow>
        (let h = get_chars msg h;
             lvl = (level + 128) mod 256 - 128;
             lg = (case find (\<lambda>l. int (level_char l) = lvl) [FATAL, ERR, WARN, INFO, DEBUG, TRACE] of
                     Some l \<Rightarrow> log_msg l (cstr (fst text)) lg
                   | None \<Rightarrow>
                       (if lvl < int (level_char (loggingLevel lg)) then lg
                        else lg\<lparr>effects := effects lg @ [Out_line (s_progname lg @ '': '' @ cstr (fst text) @ [NL])]\<rparr>))
         in (cleanup_jstr_t (snd text) msg h, lg)))"

section \<open>What stays behind\<close>

fun not_copied :: "nat \<Rightarrow> jstring_elem list \<Rightarrow> nat multiset" where
  "not_copied n [] = {#}"
| "not_copied n (Some (str, False) # elems) = add_mset n (not_copied (Suc n) elems)"
| "not_copied n (_ # elems) = not_copied (Suc n) elems"

lemma process_elements_eq:
  "list_all (\<lambda>e. e \<noteq> None) elems \<Longrightarrow>
   process_elements action elems (h, u) =
     Inr (h\<lparr>jh_next := jh_next h + length elems, jh_held := jh_held h + not_copied (jh_next h) elems\<rparr>,
          fold action (map (\<lambda>e. cstr (fst (the e))) elems) u)"
proof (induction elems arbitrary: h u)
  case (Cons e elems)
  from Cons.prems obtain str c where e: "e = Some (str, c)" by (cases e) auto
  show ?case using Cons.IH Cons.prems by (cases c) (simp_all add: e get_element_def get_chars_def cleanup_jstr_t_def Let_def)
qed simp

text \<open>
  An array of Java strings is processed element by element in its order, and when it returns no
  local reference to an element is left. The characters stay held of exactly those strings that
  the JVM did not copy, which are never released; of a JVM that copies, nothing stays.
\<close>

theorem jstring_array_processed:
  assumes "list_all (\<lambda>e. e \<noteq> None) elems"
  shows "\<exists>h'. process_jstring_array prepare action elems (h, u) =
       Inr (h', if elems = [] then u else fold action (map (\<lambda>e. cstr (fst (the e))) elems) (prepare (length elems) u)) \<and>
     jh_locals h' = jh_locals h \<and> jh_held h' = jh_held h + not_copied (jh_next h) elems \<and>
     (list_all (\<lambda>e. snd (the e)) elems \<longrightarrow> jh_held h' = jh_held h)"
proof -
  have n: "list_all (\<lambda>e. snd (the e)) es \<Longrightarrow> list_all (\<lambda>e. e \<noteq> None) es \<Longrightarrow> not_copied k es = {#}" for k es
    by (induction k es rule: not_copied.induct) auto
  show ?thesis
    using process_elements_eq [OF assms, of action h "prepare (length elems) u"] n [OF _ assms]
    by (auto simp: process_jstring_array_def)
qed

text \<open>The two uses: a list of the strings, and a class path of them.\<close>

lemma array_to_list: "fold (\<lambda>str xs. xs @ [str]) strs ys = ys @ strs"
  by (induction strs arbitrary: ys) auto

lemma array_to_class_path: "fold append_class_path strs acc = join_nonempty CHR '':'' acc strs"
  by (induction strs arbitrary: acc) (simp_all add: append_class_path_def)

theorem jstring_array_processed_witness:
  "\<exists>h'. process_jstring_array (\<lambda>n u. u) append_class_path [Some (''a.jar'', True), Some (''b.jar'', True)]
       (\<lparr>jh_next = 4, jh_locals = {#1#}, jh_held = {#}\<rparr>, []) = Inr (h', ''a.jar:b.jar'') \<and>
     jh_locals h' = {#1#} \<and> jh_held h' = {#}"
proof -
  have "list_all (\<lambda>e. e \<noteq> None) [Some (''a.jar'', True), Some (''b.jar'', True)]" by auto
  from jstring_array_processed [OF this, of "\<lambda>n u. u" append_class_path "\<lparr>jh_next = 4, jh_locals = {#1#}, jh_held = {#}\<rparr>" "[]"] show ?thesis
    by (simp add: append_class_path_def cstr_def)
qed

text \<open>The log method: with a message that is a copy, only its line in the log is left.\<close>

lemma java_log_level:
  assumes "is_cstr text"
  shows "java_log (int (level_char l)) (text, True) msg (h\<lparr>jh_locals := add_mset msg (jh_locals h)\<rparr>, lg) = (h, log_msg l text lg)"
  using assms by (cases l) (simp_all add: java_log_def get_chars_def cleanup_jstr_t_def Let_def)

theorem java_log_line:
  assumes "1 \<le> level" and "level \<le> 6" and "is_cstr text"
  shows "\<exists>l. int (level_char l) = level \<and>
     java_log level (text, True) msg (h\<lparr>jh_locals := add_mset msg (jh_locals h)\<rparr>, lg) = (h, log_msg l text lg)"
proof -
  have "level \<in> int ` level_char ` {TRACE, DEBUG, INFO, WARN, ERR, FATAL}" using assms(1,2) by auto
  then obtain l where "level = int (level_char l)" by blast
  then show ?thesis using java_log_level [OF assms(3)] by blast
qed

end
