(* ===== verification/SessionDump.thy ===== *)
theory SessionDump
  imports SessionCodec
begin

text \<open>
  \<open>debug_dump_sessionState\<close> of \<open>session-state.cpp\<close>, which the debug build calls after each change of
  a session state: it writes the state to a file, reads that file into a new state and writes this
  one to a second file. The files are a map from names to texts.
\<close>

record dump_env =
  de_writable :: "string \<Rightarrow> bool" \<comment> \<open>an \<open>ofstream\<close> of that name opens\<close>
  de_readable :: "string \<Rightarrow> bool"
  de_junk :: int \<comment> \<open>the value of the uninitialised locals of the stream operators\<close>

type_synonym dump_files = "string \<rightharpoonup> string"

definition replace_char :: "char \<Rightarrow> char \<Rightarrow> string \<Rightarrow> string" where
  "replace_char a b s = map (\<lambda>c. if c = a then b else c) s"

definition dump_name :: "string \<Rightarrow> char \<Rightarrow> string" where
  "dump_name digits edition = replace_char CHR ''X'' edition (''sessionState-'' @ digits @ ''X.ser'')"

definition read_dump :: "dump_env \<Rightarrow> dump_files \<Rightarrow> string \<Rightarrow> session_state option" where
  \<comment> \<open>\<open>tmp\<close> after the inner block\<close>
  "read_dump env files filename =
     (if de_readable env filename
      then map_option fst (ss_in (de_junk env) (istr (case files filename of None \<Rightarrow> [] | Some txt \<Rightarrow> txt)) ss_default)
      else Some ss_default)"

definition debug_dump_sessionState :: "dump_env \<Rightarrow> session_state \<Rightarrow> char \<Rightarrow> dump_files \<Rightarrow> dump_files option" where
  \<comment> \<open>\<open>None\<close>: reading the file back ran into a bad access\<close>
  "debug_dump_sessionState env ss edition files =
     (let filename_01 = dump_name ''01'' edition in
      if \<not> de_writable env filename_01 then Some files
      else
        (let files = files(filename_01 \<mapsto> ss_out ss) in
         case read_dump env files filename_01 of
           None \<Rightarrow> None
         | Some tmp \<Rightarrow>
             (let filename_02 = dump_name ''02'' edition in
              Some (if de_writable env filename_02 then files(filename_02 \<mapsto> ss_out tmp) else files))))"


lemma ss_out_read: "ss_out (ss_read ss ss_default) = ss_out ss"
proof -
  have v: "stream_vec_out n out d (vec_read v None) = stream_vec_out n out d v"
    for n and out :: "'a \<Rightarrow> string" and d v
    by (auto simp: vec_read_def stream_vec_out_def)
  show ?thesis by (simp add: ss_out_def ss_read_def clone_info_part_def ss_default_def v)
qed

text \<open>
  The two dumps of a session state are the same text, its own. When a file cannot be read back,
  the second dump is that of an empty state; no other file changes.
\<close>

theorem dumps_agree:
  assumes "ss_text_ok ss" and "de_writable env (dump_name ''01'' edition)" and "de_writable env (dump_name ''02'' edition)"
  shows "debug_dump_sessionState env ss edition files =
     Some (files(dump_name ''01'' edition \<mapsto> ss_out ss,
       dump_name ''02'' edition \<mapsto> (if de_readable env (dump_name ''01'' edition) then ss_out ss else ss_out ss_default)))"
proof -
  have "ss_in (de_junk env) (istr (ss_out ss)) ss_default = Some (ss_read ss ss_default, istr [])"
    using ss_in_out [OF assms(1), of "de_junk env" "[]" ss_default] by simp
  then show ?thesis using assms(2,3)
    by (simp add: debug_dump_sessionState_def read_dump_def ss_out_read Let_def)
qed

theorem dumps_agree_witness:
  "debug_dump_sessionState \<lparr>de_writable = \<lambda>_. True, de_readable = \<lambda>_. True, de_junk = 5\<rparr> example_state CHR ''A'' Map.empty =
     Some [''sessionState-01A.ser'' \<mapsto> ss_out example_state, ''sessionState-02A.ser'' \<mapsto> ss_out example_state]"
proof -
  have "ss_text_ok example_state"
    by (simp add: ss_text_ok_def entry_list_def slots_def vec_ok_def mdc_text_ok_def md_text_ok_def example_state_def
        ss_default_def md_default_def methodDescriptor_def methodDescriptorCmd_def)
  from dumps_agree [OF this, of "\<lparr>de_writable = \<lambda>_. True, de_readable = \<lambda>_. True, de_junk = 5\<rparr>" "CHR ''A''" Map.empty]
  show ?thesis by (simp add: dump_name_def replace_char_def)
qed

end
