(* ===== verification/StreamMove.thy ===== *)
theory StreamMove
  imports Prelude
begin

text \<open>
  The object side of \<open>stream_ctx\<close>: each object has a smart pointer to itself whose deleter,
  \<open>close_dup_fd\<close>, closes the duplicate of the object it points to. Objects live in an explicit
  store, because what the move operations do depends on which object a pointer means. The
  program keeps its objects behind shared pointers and does not move them.
\<close>

record ctx_object =
  co_orig_fd :: int
  co_dup_fd :: int
  co_is_stderr :: bool
  co_sp :: "nat option" \<comment> \<open>\<open>sp_input_fd\<close>: the address it holds\<close>

record ctx_store =
  cs_objects :: "nat \<rightharpoonup> ctx_object"
  cs_closed :: "int list" \<comment> \<open>the arguments of \<open>close\<close>, in order\<close>

datatype ctx_fault = Dangling nat | Dup_failed

definition close_dup_fd_at :: "nat option \<Rightarrow> ctx_store \<Rightarrow> ctx_fault + ctx_store" where
  "close_dup_fd_at p s =
     (case p of
        None \<Rightarrow> Inr s
      | Some a \<Rightarrow>
          (case cs_objects s a of
             None \<Rightarrow> Inl (Dangling a)
           | Some obj \<Rightarrow>
               Inr (if co_dup_fd obj \<ge> 0
                    then s\<lparr>cs_closed := cs_closed s @ [co_dup_fd obj], cs_objects := (cs_objects s)(a \<mapsto> obj\<lparr>co_dup_fd := -1\<rparr>)\<rparr>
                    else s)))"

definition stream_ctx_default :: ctx_object where
  "stream_ctx_default = \<lparr>co_orig_fd = -1, co_dup_fd = -1, co_is_stderr = False, co_sp = None\<rparr>"

definition stream_ctx_construct :: "nat \<Rightarrow> int \<Rightarrow> int \<Rightarrow> ctx_store \<Rightarrow> ctx_fault + ctx_store" where
  \<comment> \<open>\<open>stream_ctx(input_fd)\<close> at an address; \<open>dup_rc\<close> is what \<open>dup\<close> returns\<close>
  "stream_ctx_construct a input_fd dup_rc s =
     (if dup_rc = -1 then Inl Dup_failed
      else Inr (s\<lparr>cs_objects := (cs_objects s)(a \<mapsto> \<lparr>co_orig_fd = input_fd, co_dup_fd = dup_rc, co_is_stderr = False, co_sp = Some a\<rparr>)\<rparr>))"

definition stream_ctx_move :: "nat \<Rightarrow> nat \<Rightarrow> ctx_store \<Rightarrow> ctx_fault + ctx_store" where
  \<comment> \<open>\<open>*a = std::move(*b)\<close> for different objects: the smart pointer is moved last, and what it held is
      deleted after that\<close>
  "stream_ctx_move a b s =
     (case (cs_objects s a, cs_objects s b) of
        (Some x, Some y) \<Rightarrow>
          close_dup_fd_at (co_sp x)
            (s\<lparr>cs_objects := (cs_objects s)(a \<mapsto> x\<lparr>co_orig_fd := co_orig_fd y, co_dup_fd := co_dup_fd y, co_sp := co_sp y\<rparr>,
                 b \<mapsto> y\<lparr>co_sp := None\<rparr>)\<rparr>)
      | (None, _) \<Rightarrow> Inl (Dangling a)
      | (_, None) \<Rightarrow> Inl (Dangling b))"

definition stream_ctx_move_construct :: "nat \<Rightarrow> nat \<Rightarrow> ctx_store \<Rightarrow> ctx_fault + ctx_store" where
  "stream_ctx_move_construct a b s = stream_ctx_move a b (s\<lparr>cs_objects := (cs_objects s)(a \<mapsto> stream_ctx_default)\<rparr>)"

definition stream_ctx_destroy :: "nat \<Rightarrow> ctx_store \<Rightarrow> ctx_fault + ctx_store" where
  \<comment> \<open>the object is there until its smart pointer has been destroyed\<close>
  "stream_ctx_destroy a s =
     (case cs_objects s a of
        None \<Rightarrow> Inl (Dangling a)
      | Some x \<Rightarrow>
          bind_r (close_dup_fd_at (co_sp x) (s\<lparr>cs_objects := (cs_objects s)(a \<mapsto> x\<lparr>co_sp := None\<rparr>)\<rparr>)) (\<lambda>s.
            Inr (s\<lparr>cs_objects := (cs_objects s)(a := None)\<rparr>)))"

text \<open>An object that is not moved closes its duplicate once.\<close>

theorem unmoved_closes_once:
  assumes "stream_ctx_construct a fd d s = Inr s1" and "0 \<le> d"
  shows "stream_ctx_destroy a s1 = Inr (s1\<lparr>cs_closed := cs_closed s @ [d], cs_objects := (cs_objects s)(a := None)\<rparr>)"
  using assms by (auto simp: stream_ctx_construct_def stream_ctx_destroy_def close_dup_fd_at_def split: if_splits)

text \<open>
  A moved object does not own its duplicate: its smart pointer means the object it was moved from.
  When that one is destroyed first, the destructor of the new one goes through a dangling pointer.
\<close>

theorem moved_from_dangles:
  assumes "stream_ctx_construct b fd d s = Inr s1" and "a \<noteq> b"
    and "stream_ctx_move_construct a b s1 = Inr s2" and "stream_ctx_destroy b s2 = Inr s3"
  shows "stream_ctx_destroy a s3 = Inl (Dangling b)"
  using assms
  by (auto simp: stream_ctx_construct_def stream_ctx_move_construct_def stream_ctx_move_def stream_ctx_destroy_def close_dup_fd_at_def
      stream_ctx_default_def split: if_splits)

text \<open>
  Assigning over an object that has a duplicate closes the new one at once, later closes it again,
  and never closes the old one.
\<close>

theorem move_over_live_ctx:
  assumes "stream_ctx_construct a fd d s = Inr s1" and "stream_ctx_construct b fd' d' s1 = Inr s2" and "a \<noteq> b" and "0 \<le> d'"
    and "stream_ctx_move a b s2 = Inr s3" and "stream_ctx_destroy a s3 = Inr s4"
  shows "cs_closed s4 = cs_closed s @ [d', d']"
  using assms
  by (auto simp: stream_ctx_construct_def stream_ctx_move_def stream_ctx_destroy_def close_dup_fd_at_def split: if_splits)

end
