(* ===== verification/Spec2Isabelle.thy ===== *)
theory Spec2Isabelle
  imports StatusRequest StopRequest ChildReports OutCapture FifoPipe ShmRegion SignalHandling Exceptions StringView JvmHandles MemBuf JniStrings
    SessionDump StreamMove
begin

text \<open>
  Spartan starts Java programs as groups of cooperating processes. One executable plays all the
  roles. As a client (\<open>forkable_main_entry\<close>, ClientMain) it scans its arguments and sends one
  message to a POSIX message queue. As the launcher it receives the messages for sub-commands that
  run in child processes, queues them, and forks a child for each while the number of children
  stays within a limit. As the supervisor it holds the JVM that lives as long as the service, runs
  the annotated main method, and handles sub-commands, status requests and the reports of children.
  Before any of them runs, the supervisor asks the Java class for its annotated commands and
  publishes the session state in shared memory, where each child reads it back. A client receives
  the output of its command through pipes whose descriptors travel over a Unix socket.

  Theories, from the leaves to the root (sources under src/src/main/cpp):
  \<^item> Prelude, CString, IOStream: outcomes, triples, runs and two locales for state machines; the C
    string functions; the C++ text streams.
  \<^item> StrTools, IniParser, Logger, ProgramPath: str-split, path-concat, format2str, mq-queue,
    the names of fifo-pipe; ini and cfgparse; log; the program search of launch-program. FifoPipe:
    the named pipes themselves.
  \<^item> SessionState, SessionCodec: session-state: how a session state is built from a configuration
    file, and the text it is sent in.
  \<^item> SharedMem, CmdDispatch, ShmRegion: shm and process-cmd-dispatch-info: the allocator, the layout
    the supervisor writes and the children read, and the object of the kernel they share.
  \<^item> JvmOptions, FileWalk: createjvm, findfiles and walk-file-tree.
  \<^item> MsgQueue, UdsPipes, LaunchProgram: send-mq-msg; open-anon-pipes and the socket half of
    launch-program; its fork, exec, pid file and JNI half.
  \<^item> ClientMain, InvokeJava, Commands, Launcher, Supervisor: spartan.cpp: the client; the call of a
    Java entry point; the handlers that run in the child and in the supervisor; the launcher as a
    step relation of its three threads; the start, the receive loops and the threads of the supervisor.
  \<^item> ReadOnReady, MultiStream, CopyLoop, EchoStreams: read-on-ready, stream-ctx, read-multi-strm and
    echo-streams: how a client copies the response streams to its own; CopyLoop holds the
    correctness of the loop. StreamMove: what moving a stream_ctx does. OutCapture: StdOutCapture, by
    which a Java exception gets into the log.
  \<^item> SignalHandling: signal-handling: the quit flag, the handlers and their two mutexes, with threads
    and signals interleaved. NativeCalls: the smaller native methods and the environment variables.
  \<^item> JvmHandles: the deleters of session-state.h and what each process does with the JVM library, the
    JVM and its environment. SessionDump: the dumps of the debug build.
  \<^item> Exceptions, JniStrings, MemBuf: spartan-exception and the native walk of walk-file-tree with its
    handlers; the Java strings native code reads; memBufStream and streambuf-wrapper.
  \<^item> StringView: string-view.h, views over a memory of 64-bit addresses.
  \<^item> StatusRequest, StopRequest, ChildReports: the chain from a client that asks for the status to the
    answer it prints, from a request to stop to the end of the launcher and of the supervisor process,
    and from the start and the end of a child to Java, put together from the theories above.

  Conventions. A struct or class is a record, and a function that changes one returns it updated. A
  function that throws returns a sum with the exception on the left; undefined behaviour of the
  source, such as a null pointer read, is an outcome of its own and never a default value. Queues,
  descriptor tables, sockets and the file system are values of the state. What the program takes
  from outside (stat, getenv, fork, the JVM, popt) is an argument of the definitions that use it.
  The tree walk is given fuel; 2049 is enough because the depth of a path is bounded by its length.
  What happens outside the process while it copies streams is a script per descriptor: the answers
  of \<open>read\<close>, \<open>write\<close>, \<open>poll\<close> and \<open>interrupted()\<close> in their order. The theorems hold for every script, so
  for every interleaving with the other processes.

  What is proved. Round trips: the session state through its text and through a shared memory object
  that a child opens by name, and the reports of a child to the supervisor. Invariants over all
  interleavings: the launcher keeps its child limit and loses no message silently, the supervisor
  handles one message at a time, and a thread that holds a mutex of the signal handling has its
  release in front of it. Liveness: from every reachable state the launcher can empty its queue, and a client prints the
  whole response of a command whose writer writes, pauses and closes. Safety of resources: no
  descriptor leaks from the response pipes, from the invocation of a method, from the copying of
  streams, from the shared memory or from the capture of output, and blocks of the shared memory do
  not overlap. Refinement and equivalence: the INI parser against the calls a grammar prescribes, the
  merging of JVM options against keeping the first of each prefix, and the operators of string views
  against the order of the character sequences. Error
  behaviour: which failures end a process, and how. Theorem \<open>invoked_command_reaches_java\<close> composes
  the chain from the arguments of a client to the Java method, \<open>status_request_answered\<close> the chain
  from a status request to the answer on the client's standard output, and \<open>stop_request_shuts_down\<close>
  the chain from a request to stop to the shutdown method and the end of both processes. The JVM
  handles of a session state are given up at most once, whatever is moved where, and each process of
  the program gives them up in the right order.

  Not modelled, because nothing is left to state of it in HOL: \<open>main\<close>, which is one call; the
  registration of the signal handlers of spartan.cpp and the promises that order the start of its
  threads, whose order is built into the definitions; most log texts; the printing of the trace
  level; macros and declarations; and the Java sources.
\<close>

section \<open>A command from Java to Java\<close>

lemma fork_message_plain:
  assumes "list_all plain_word (uds # args)"
  shows "filter (\<lambda>a. a \<noteq> []) (extended_invoke_arg ext # uds # args) = extended_invoke_arg ext # uds # args"
  using assms extended_arg_plain(1) [of ext] by (intro filter_id) (auto simp: plain_word_def list_all_iff)

lemma client_queues_command:
  assumes words: "list_all plain_word (uds # cmd # args)" and "\<not> is_pipe_arg uds" and cmd: "plain_arg cmd"
    and shm: "ce_shm env = Inr mem" "get_cmd_dispatch_info (ce_junk env) mem ss_default = Some (ss, strm)"
      "get_child_processor_commands ss = Inr cmds" "map tolower cmd \<in> cmds"
    and queue: "mq_named w (g_launcher_queue (ce_globals env)) = Some q"
      "length (command_msg ext uds (cmd # args)) \<le> mq_msgsize q" "length (mq_msgs q) < mq_maxmsg q"
  shows "\<exists>w'. forkable_main_entry env (fork2main_argv prog_path uds (prog # cmd # args)) ext level w = Some (EXIT_SUCCESS, w') \<and>
     queue_contents w' (g_launcher_queue (ce_globals env)) = mq_msgs q @ [command_msg ext uds (cmd # args)]"
proof -
  have u: "is_cstr uds" "uds \<noteq> []" and c: "cmd \<noteq> []" using words by (auto simp: plain_word_def is_cstr_def)
  have f: "find (\<lambda>a. plain_arg a \<and> a \<noteq> []) (cmd # args) = Some cmd" using cmd c by simp
  have "forkable_main_entry env (fork2main_argv prog_path uds (prog # cmd # args)) ext level w =
      send_mq_msg (command_msg ext uds (cmd # args)) (g_launcher_queue (ce_globals env)) w"
    using invoked_command_sends [OF u assms(2) shm(1,2,3) f, of prog_path prog ext level w] fork_message_plain [OF words] shm(4)
    by (simp add: command_msg_def command_queue_def)
  then show ?thesis using queue by (simp add: send_mq_msg_eq queue_contents_def)
qed

text \<open>
  C1. What \<open>invokeCommand\<close> is for: the client that Java forks leaves the command line in the
  launcher's queue; the launcher knows the command from it; and the child process it forks calls
  the annotated method with the words of the command line and a stream on the write end of the
  very pipe whose read end the calling process obtains.
\<close>

theorem invoked_command_reaches_java:
  assumes words: "list_all plain_word (uds # cmd # args)" "CHR '' '' \<notin> set uds" "CHR '' '' \<notin> set cmd" "\<not> is_pipe_arg uds" "plain_arg cmd"
    and shm: "ce_shm env = Inr mem" "get_cmd_dispatch_info (ce_junk env) mem ss_default = Some (ss, strm)"
      "get_child_processor_commands ss = Inr cmds" "map tolower cmd \<in> cmds"
    and queue: "mq_named w (g_launcher_queue (ce_globals env)) = Some q"
      "length (command_msg False uds (cmd # args)) \<le> mq_msgsize q" "length (mq_msgs q) < mq_maxmsg q"
    and popt: "popt_unquotes popt"
    and java: "child_method ss cmd = (md, c, opts)" "mk_jvm opts = Inr jvm" "jni_ok jvm" "jn_detach jvm" "\<And>c. \<not> jn_raises jvm c"
      "fullMethodName md = cls @ CHR ''/'' # meth" "CHR ''/'' \<notin> set meth" "meth \<noteq> []"
      "whichMethod md = WM_CHILD_DO_CMD" "isStaticMethod md" "descriptor md = std_invoke_descriptor"
    and pipes: "wk_sys wk = (os, srv)" "open_write_anon_pipe uds (os, srv) = (Inr out, (os1, srv1))" "fd_at (pr_fds srv) 0 = Some stdin"
      "sock_addr uds = Some a" "os_bound os a = Some []" "fd_at (pr_fds cl) sock = Some (Sock (Some a))"
      "length (pr_fds cl) + 2 \<le> pr_limit cl"
  shows "\<exists>w' wk' k rd os2 cl1.
     forkable_main_entry env (fork2main_argv prog_path uds (prog # cmd # args)) False level w = Some (EXIT_SUCCESS, w') \<and>
     queue_contents w' (g_launcher_queue (ce_globals env)) = mq_msgs q @ [command_msg False uds (cmd # args)] \<and>
     launcher_cmd (command_msg False uds (cmd # args)) = Some cmd \<and>
     child_process popt mk_jvm ss cmd (command_msg False uds (cmd # args)) wk = (Rc EXIT_SUCCESS, wk') \<and>
     js_calls (wk_jvm wk') = js_calls (wk_jvm wk) @
       [Static_call cls meth std_invoke_descriptor [Jargs (Some (cmd # args)), Jprint_stream out]] \<and>
     fd_at (pr_fds (snd (wk_sys wk'))) out = Some (Pipe_wr k) \<and>
     obtain_response_stream sock (os1, cl) = Some (Inr (pr_pid srv, rd, None, None), (os2, cl1)) \<and>
     fd_at (pr_fds cl1) rd = Some (Pipe_rd k)"
proof -
  from client_queues_command [OF words(1,4,5) shm queue, of prog_path prog level] obtain w' where
    w': "forkable_main_entry env (fork2main_argv prog_path uds (prog # cmd # args)) False level w = Some (EXIT_SUCCESS, w')"
      "queue_contents w' (g_launcher_queue (ce_globals env)) = mq_msgs q @ [command_msg False uds (cmd # args)]" by blast
  have l: "launcher_cmd (command_msg False uds (cmd # args)) = Some cmd"
    using words by (intro launcher_cmd_msg) simp_all
  have o: "open_response_fds (False \<or> False) uds (wk_sys wk) = (Inr [Some out, None, None], (os1, srv1))"
    using pipes(1,2) by (simp add: open_response_fds_def bind_s_def)
  have de: "descriptor md = (if False then react_invoke_descriptor else std_invoke_descriptor)" using java(11) by simp
  from child_command_call [where react = False and ext = False and mk_jvm = mk_jvm and opts = opts, OF popt words(1) java(1-10) de o] java(11) obtain wk' where
    k: "child_process popt mk_jvm ss cmd (command_msg False uds (cmd # args)) wk = (Rc EXIT_SUCCESS, wk')"
      "js_calls (wk_jvm wk') = js_calls (wk_jvm wk) @
        [Static_call cls meth std_invoke_descriptor (command_args std_invoke_descriptor (uds # cmd # args) out None None)]"
      "wk_sys wk' = (os1, srv1)" by auto
  have ca: "command_args std_invoke_descriptor (uds # cmd # args) out None None = [Jargs (Some (cmd # args)), Jprint_stream out]"
    using descriptors_differ by (simp add: command_args_def)
  from write_pipe_ends [OF pipes(2-7)] obtain n rd lost os2 cl1 where
    e: "obtain_response_stream sock (os1, cl) = Some (Inr (pr_pid srv, rd, None, None), (os2, cl1))"
      "fd_at (pr_fds srv1) = (fd_at (pr_fds srv))(out \<mapsto> Pipe_wr n)" "rd \<noteq> lost" "fd_at (pr_fds cl) rd = None"
      "fd_at (pr_fds cl1) = (fd_at (pr_fds cl))(rd \<mapsto> Pipe_rd n, lost \<mapsto> stdin, sock := None)" by auto
  have "rd \<noteq> sock" using e(4) pipes(6) by auto
  with e have "fd_at (pr_fds cl1) rd = Some (Pipe_rd n)" "fd_at (pr_fds (snd (wk_sys wk'))) out = Some (Pipe_wr n)"
    by (simp_all add: k(3))
  with w' l k(1,2) e(1) show ?thesis unfolding ca by blast
qed

definition example_child :: worker where
  "example_child = \<lparr>wk_sys = (asked, runner), wk_jvm = example_jstate, wk_log = []\<rparr>"

theorem invoked_command_reaches_java_witness:
  "\<exists>w' wk' k rd os1 srv1 os2 cl1.
     forkable_main_entry example_client (fork2main_argv ''/opt/p'' ''/tmp/a'' [''p'', ''GENETIC'', ''7'']) False INFO two_queues = Some (EXIT_SUCCESS, w') \<and>
     child_process dquoted_words (\<lambda>opts. Inr example_jvm) (ss_read example_shared ss_default) ''GENETIC''
       (command_msg False ''/tmp/a'' [''GENETIC'', ''7'']) example_child = (Rc EXIT_SUCCESS, wk') \<and>
     js_calls (wk_jvm wk') = [Static_call ''p/Q'' ''gen'' std_invoke_descriptor [Jargs (Some [''GENETIC'', ''7'']), Jprint_stream 4]] \<and>
     fd_at (pr_fds (snd (wk_sys wk'))) 4 = Some (Pipe_wr k) \<and>
     obtain_response_stream 3 (os1, asker) = Some (Inr (400, rd, None, None), (os2, cl1)) \<and> fd_at (pr_fds cl1) rd = Some (Pipe_rd k)"
proof -
  have w: "list_all plain_word [''/tmp/a'', ''GENETIC'', ''7'']" "CHR '' '' \<notin> set ''/tmp/a''" "CHR '' '' \<notin> set ''GENETIC''"
    "\<not> is_pipe_arg ''/tmp/a''" by (simp_all add: plain_word_def is_pipe_arg_def)
  have c: "plain_arg ''GENETIC''" by code_simp
  have e: "ce_shm example_client = Inr example_region" by (simp add: example_client_def)
  have t: "map tolower ''GENETIC'' \<in> {''genetic''}" by code_simp
  have g: "g_launcher_queue (ce_globals example_client) = ''/p_JLauncher''" unfolding example_client_def client_env.simps by code_simp
  have q: "mq_named two_queues ''/p_JLauncher'' = Some \<lparr>mq_mode = 432, mq_maxmsg = 10, mq_msgsize = 4096, mq_msgs = []\<rparr>"
    by (simp add: two_queues_def mq_open_ex_def mq_open_def)
  have m: "int (length (command_msg False ''/tmp/a'' [''GENETIC'', ''7''])) \<le> 4096" by code_simp
  let ?q = "\<lparr>mq_mode = 432, mq_maxmsg = 10, mq_msgsize = 4096, mq_msgs = []\<rparr>"
  have l: "length (command_msg False ''/tmp/a'' [''GENETIC'', ''7'']) \<le> mq_msgsize ?q" "length (mq_msgs ?q) < mq_maxmsg ?q"
    using m by simp_all
  let ?md = "method_descriptor.truncate (methodDescriptorCmd ''p/Q/gen'' ''([Ljava/lang/String;Ljava/io/PrintStream;)V'' ''GENETIC'' ''-Xms1g -Xmx2g'' True 7)"
  have i: "icompare ''GENETIC'' ''GENETIC''" by code_simp
  have cm: "child_method (ss_read example_shared ss_default) ''GENETIC'' = (?md, ''GENETIC'', ''-Xms1g -Xmx2g'')"
    by (simp add: child_method_def ss_read_def vec_read_def example_shared_def methodDescriptorCmd_def i Let_def)
  have d: "fullMethodName ?md = ''p/Q'' @ CHR ''/'' # ''gen''" "CHR ''/'' \<notin> set ''gen''" "''gen'' \<noteq> []"
    "whichMethod ?md = WM_CHILD_DO_CMD" "isStaticMethod ?md" "descriptor ?md = std_invoke_descriptor"
    by (simp_all add: methodDescriptorCmd_def method_descriptor.truncate_def std_invoke_descriptor_def)
  have j: "jn_detach example_jvm" "\<not> jn_raises example_jvm c" for c by (simp_all add: example_jvm_def)
  let ?r = "open_write_anon_pipe ''/tmp/a'' (asked, runner)"
  have "fst ?r = Inr 4" by code_simp
  then obtain os1 srv1 where o: "?r = (Inr 4, (os1, srv1))" by (cases ?r) auto
  have a: "sock_addr ''/tmp/a'' = Some (NUL # ''tmp/a'')" by code_simp
  have k: "wk_sys example_child = (asked, runner)" "fd_at (pr_fds runner) 0 = Some (Pipe_rd 2)" "os_bound asked (NUL # ''tmp/a'') = Some []"
    "fd_at (pr_fds asker) 3 = Some (Sock (Some (NUL # ''tmp/a'')))" "length (pr_fds asker) + 2 \<le> pr_limit asker"
    by (simp_all add: example_child_def runner_def asked_def asker_def fd_at_def)
  have p: "pr_pid runner = 400" "js_calls (wk_jvm example_child) = []"
    by (simp_all add: runner_def example_child_def example_jstate_def)
  from invoked_command_reaches_java [where mk_jvm = "\<lambda>opts. Inr example_jvm" and opts = "''-Xms1g -Xmx2g''", OF w c e example_region_read [of "ce_junk example_client"] example_commands t, unfolded g,
      OF q l popt_unquotes_example cm refl jni_ok_example j d k(1) o k(2) a k(3-5), of "''/opt/p''" "''p''" INFO]
  show ?thesis unfolding p append_Nil by blast
qed

end
